(* ===== verification/Prelude.thy ===== *)
theory Prelude
  imports Complex_Main "HOL-Library.Word" "HOL-Library.Sublist"
begin

text \<open>
  Shared ground of the development: the names of the machine types, the layout of
  integers in memory, the conversions between \<^verbatim>\<open>std::string\<close> and byte vectors, the
  faults the C++ abstract machine can run into, and the list and arithmetic lemmas more
  than one component needs.

  A \<^verbatim>\<open>std::string\<close> is a \<open>string\<close> (a list of 8-bit characters), a
  \<^verbatim>\<open>uint8_t\<close> buffer is a \<open>bytes\<close>. Sizes (\<^verbatim>\<open>size_t\<close>) are \<open>nat\<close>;
  integers of another width are words of that width wherever their width matters.
\<close>

section \<open>Types\<close>

type_synonym byte = "8 word"
type_synonym bytes = "byte list"

text \<open>The three build configurations selected by \<^verbatim>\<open>_WIN32\<close>, \<^verbatim>\<open>LINUX\<close> and \<^verbatim>\<open>APPLE\<close>.\<close>

datatype platform = Windows | Linux | Apple

text \<open>Byte order of the machine the code runs on.\<close>

datatype endian = LittleEndian | BigEndian

text \<open>
  What the C++ abstract machine leaves undefined or turns into a crash, as values:
  a write past the end of a buffer, an access out of a vector's range, a null pointer
  passed to a function that dereferences it, a call of \<^verbatim>\<open>std::terminate\<close>.
\<close>

datatype fault = BufferOverflow | OutOfRange | NullDeref | Terminate

section \<open>Collections of facts\<close>

named_theorems host_simps \<open>byte order and integer layout\<close>
named_theorems string_simps \<open>bridges between the string helpers and the library's list predicates\<close>
named_theorems frame_simps \<open>fields an operation does not write\<close>

section \<open>Characters and bytes\<close>

definition byte_of_char :: "char \<Rightarrow> byte" where
  "byte_of_char c = word_of_nat (of_char c)"

definition char_of_byte :: "byte \<Rightarrow> char" where
  "char_of_byte b = char_of (unat b)"

definition bytes_of :: "string \<Rightarrow> bytes" where
  "bytes_of s = map byte_of_char s"

definition string_of :: "bytes \<Rightarrow> string" where
  "string_of bs = map char_of_byte bs"

lemma unat_byte_less: "unat (b :: byte) < 256"
proof -
  have "unat b < 2 ^ LENGTH(8)" by (rule unsigned_less)
  then show ?thesis by simp
qed

lemma of_char_less: "(of_char c :: nat) < 256"
  by (metis of_char_mod_256 mod_less_divisor zero_less_numeral)

lemma char_of_byte_of_char [simp]: "char_of_byte (byte_of_char c) = c"
  using of_char_less [of c]
  by (simp add: char_of_byte_def byte_of_char_def unat_of_nat)

lemma byte_of_char_of_byte [simp]: "byte_of_char (char_of_byte b) = b"
proof -
  have "unat b < 256" by (rule unat_byte_less)
  then show ?thesis by (simp add: char_of_byte_def byte_of_char_def)
qed

lemma string_of_bytes_of [simp]: "string_of (bytes_of s) = s"
  by (simp add: string_of_def bytes_of_def comp_def)

lemma bytes_of_string_of [simp]: "bytes_of (string_of bs) = bs"
  by (simp add: string_of_def bytes_of_def comp_def)

lemma length_bytes_of [simp]: "length (bytes_of s) = length s"
  by (simp add: bytes_of_def)

lemma length_string_of [simp]: "length (string_of bs) = length bs"
  by (simp add: string_of_def)

lemma bytes_of_eq_Nil [simp]: "bytes_of s = [] \<longleftrightarrow> s = []"
  by (simp add: bytes_of_def)

lemma string_of_eq_iff: "string_of bs = s \<longleftrightarrow> bs = bytes_of s"
  by auto

section \<open>Integers in memory\<close>

text \<open>Big-endian digits of a number, most significant byte first, and their value.\<close>

fun be_bytes :: "nat \<Rightarrow> nat \<Rightarrow> bytes" where
  "be_bytes 0 x = []"
| "be_bytes (Suc n) x = be_bytes n (x div 256) @ [word_of_nat (x mod 256)]"

definition be_nat :: "bytes \<Rightarrow> nat" where
  "be_nat bs = foldl (\<lambda>a b. 256 * a + unat b) 0 bs"

text \<open>
  The bytes of an \<open>n\<close>-byte integer as they lie in the memory of a host of the given
  byte order, and the integer read back from such bytes.
\<close>

definition mem_store :: "endian \<Rightarrow> nat \<Rightarrow> nat \<Rightarrow> bytes" where
  "mem_store e n x = (case e of BigEndian \<Rightarrow> be_bytes n x | LittleEndian \<Rightarrow> rev (be_bytes n x))"

definition mem_load :: "endian \<Rightarrow> bytes \<Rightarrow> nat" where
  "mem_load e bs = (case e of BigEndian \<Rightarrow> be_nat bs | LittleEndian \<Rightarrow> be_nat (rev bs))"

lemma length_be_bytes [simp]: "length (be_bytes n x) = n"
  by (induction n arbitrary: x) auto

lemma be_nat_snoc: "be_nat (bs @ [b]) = 256 * be_nat bs + unat b"
  by (simp add: be_nat_def)

lemma unat_byte_digit: "unat (word_of_nat (x mod 256) :: byte) = x mod 256"
  by (simp add: unat_of_nat)

lemma be_nat_be_bytes [host_simps]: "be_nat (be_bytes n x) = x mod 256 ^ n"
proof (induction n arbitrary: x)
  case 0
  then show ?case by (simp add: be_nat_def)
next
  case (Suc n)
  have "be_nat (be_bytes (Suc n) x) = 256 * (x div 256 mod 256 ^ n) + x mod 256"
    by (simp only: be_bytes.simps be_nat_snoc Suc.IH unat_byte_digit)
  also have "\<dots> = x mod 256 ^ Suc n"
    by (simp add: mod_mult2_eq)
  finally show ?case .
qed

lemma be_bytes_be_nat [host_simps]: "be_bytes (length bs) (be_nat bs) = bs"
proof (induction bs rule: rev_induct)
  case Nil
  then show ?case by simp
next
  case (snoc b bs)
  have "unat b < 256" by (rule unat_byte_less)
  then show ?case using snoc.IH by (simp add: be_nat_snoc)
qed

lemma be_nat_less: "be_nat bs < 256 ^ length bs"
proof -
  have "be_nat bs = be_nat (be_bytes (length bs) (be_nat bs))"
    by (simp add: be_bytes_be_nat)
  also have "\<dots> = be_nat bs mod 256 ^ length bs"
    by (rule be_nat_be_bytes)
  finally show ?thesis by (metis mod_less_divisor zero_less_numeral zero_less_power)
qed

lemma length_mem_store [simp]: "length (mem_store e n x) = n"
  by (simp add: mem_store_def split: endian.split)

lemma mem_load_store [host_simps]: "mem_load e (mem_store e n x) = x mod 256 ^ n"
  by (simp add: mem_store_def mem_load_def be_nat_be_bytes split: endian.split)

section \<open>Lists\<close>

lemma take_eq_iff_prefix: "take (length p) v = p \<longleftrightarrow> prefix p v"
  by (metis append_eq_conv_conj append_take_drop_id prefix_def)

section \<open>Buffers\<close>

text \<open>
  \<^verbatim>\<open>memcpy(dst + off, src, n)\<close> into a buffer of known size; a copy that leaves the
  buffer is a fault.
\<close>

definition buf_write :: "bytes \<Rightarrow> nat \<Rightarrow> bytes \<Rightarrow> fault + bytes" where
  "buf_write dst off src =
     (if off + length src \<le> length dst
      then Inr (take off dst @ src @ drop (off + length src) dst)
      else Inl BufferOverflow)"

lemma buf_write_ok:
  "off + length src \<le> length dst \<Longrightarrow>
   buf_write dst off src = Inr (take off dst @ src @ drop (off + length src) dst)"
  by (simp add: buf_write_def)

lemma buf_write_overflow: "length dst < off + length src \<Longrightarrow> buf_write dst off src = Inl BufferOverflow"
  by (simp add: buf_write_def)

lemma buf_write_length: "buf_write dst off src = Inr d \<Longrightarrow> length d = length dst"
  by (auto simp: buf_write_def split: if_splits)

text \<open>A C string ends at the first NUL character.\<close>

definition c_str :: "string \<Rightarrow> string" where
  "c_str s = takeWhile (\<lambda>c. c \<noteq> CHR 0x00) s"

lemma c_str_id: "CHR 0x00 \<notin> set s \<Longrightarrow> c_str s = s"
  by (auto simp: c_str_def takeWhile_eq_all_conv)

lemma c_str_append_nul: "CHR 0x00 \<notin> set s \<Longrightarrow> c_str (s @ [CHR 0x00]) = s"
  unfolding c_str_def by (subst takeWhile_append2) auto

section \<open>Faults and exceptions in sequence\<close>

text \<open>Statements after one that faults or throws do not run.\<close>

definition bind_err :: "'e + 'a \<Rightarrow> ('a \<Rightarrow> 'e + 'b) \<Rightarrow> 'e + 'b" where
  "bind_err m k = (case m of Inl f \<Rightarrow> Inl f | Inr x \<Rightarrow> k x)"

lemma bind_err_simps [simp]:
  "bind_err (Inl f) k = Inl f"
  "bind_err (Inr x) k = k x"
  by (simp_all add: bind_err_def)

lemma bind_err_Inr: "bind_err m k = Inr y \<longleftrightarrow> (\<exists>x. m = Inr x \<and> k x = Inr y)"
  by (cases m) auto

lemma bind_err_cong [fundef_cong]:
  assumes "m = m'" and "\<And>x. m' = Inr x \<Longrightarrow> k x = k' x"
  shows "bind_err m k = bind_err m' k'"
  using assms by (cases m') (simp_all add: bind_err_def)

lemma bind_err_InrE:
  assumes "bind_err m k = Inr y"
  obtains x where "m = Inr x" and "k x = Inr y"
  using assms by (cases m) auto

lemma bind_err_Inl: "bind_err m k = Inl f \<longleftrightarrow> m = Inl f \<or> (\<exists>x. m = Inr x \<and> k x = Inl f)"
  by (cases m) auto

text \<open>A \<^verbatim>\<open>size_t\<close> or an \<^verbatim>\<open>int\<close> expression converted to a 32-bit \<^verbatim>\<open>int\<close>.\<close>

definition to_int32 :: "int \<Rightarrow> int" where
  "to_int32 n = sint (word_of_int n :: 32 word)"

lemma to_int32_id: "- (2 ^ 31) \<le> n \<Longrightarrow> n < 2 ^ 31 \<Longrightarrow> to_int32 n = n"
  by (simp add: to_int32_def sint_sbintrunc' signed_take_bit_int_eq_self)

end
