(* ===== verification/JsonModel.thy ===== *)
theory JsonModel
  imports Prelude "HOL-Library.Char_ord" "HOL-Library.List_Lexorder"
begin

text \<open>
  The values of nlohmann's JSON library (\<^verbatim>\<open>common-cpp/deps/headers/json.hpp\<close>) and the
  accessors the storage and protocol code calls: the non-const \<^verbatim>\<open>operator[]\<close>, the implicit
  conversions and the range-based loop. The clients see the reader and the printer through
  the record \<open>json_lib\<close> and the promise \<open>json_ok\<close>; the library's own reader and printer are
  modelled in the theories JsonLexer, JsonParser and JsonPrinter, and the theory JsonLib shows
  that they keep the promise.
\<close>

section \<open>Values\<close>

text \<open>
  Numbers that carry a fraction or an exponent are floating point; their value is a
  rational. The members of an object are kept in the order of the keys, without
  duplicates, as the library's \<^verbatim>\<open>std::map\<close> does.
\<close>

datatype json =
    JNull
  | JBool bool
  | JInt int
  | JFloat rat
  | JStr string
  | JArr "json list"
  | JObj "(string \<times> json) list"

text \<open>The exceptions: 305 is a wrong use of \<^verbatim>\<open>operator[]\<close>, 302 a wrong conversion.\<close>

datatype json_error = ParseError | TypeError302 | TypeError305 | RuntimeError

text \<open>
  \<open>json_read\<close> is \<^verbatim>\<open>stream >> json\<close> (which accepts trailing text), \<open>json_parse\<close> is
  \<^verbatim>\<open>json::parse\<close> (which does not), \<open>None\<close> is a thrown \<^verbatim>\<open>parse_error\<close>. \<open>json_dump\<close> is
  \<^verbatim>\<open>dump()\<close>, \<open>None\<close> the \<^verbatim>\<open>type_error\<close> it throws on a string that is not UTF-8.
\<close>

record json_lib =
  json_read :: "string \<Rightarrow> json option"
  json_parse :: "string \<Rightarrow> json option"
  json_dump :: "json \<Rightarrow> string option"

section \<open>Access\<close>

text \<open>
  \<^verbatim>\<open>j["key"]\<close> on a non-const value: null becomes an object, a missing member is created as
  null, anything but an object is an error.
\<close>

fun json_index :: "json \<Rightarrow> string \<Rightarrow> json_error + json" where
  "json_index JNull k = Inr JNull"
| "json_index (JObj kvs) k = Inr (case map_of kvs k of None \<Rightarrow> JNull | Some v \<Rightarrow> v)"
| "json_index _ k = Inl TypeError305"

fun json_string :: "json \<Rightarrow> json_error + string" where
  "json_string (JStr s) = Inr s"
| "json_string _ = Inl TypeError302"

fun json_bool :: "json \<Rightarrow> json_error + bool" where
  "json_bool (JBool b) = Inr b"
| "json_bool _ = Inl TypeError302"

text \<open>Rounding towards zero, as the conversion of a floating-point value does.\<close>

definition trunc_rat :: "rat \<Rightarrow> int" where
  "trunc_rat q = (if 0 \<le> q then \<lfloor>q\<rfloor> else \<lceil>q\<rceil>)"

text \<open>
  Conversion to \<^verbatim>\<open>int\<close>: integers of any width are narrowed, a boolean counts as 0 or 1.
  (A floating-point value outside the range of \<^verbatim>\<open>int\<close> is undefined behaviour; the model
  narrows it like an integer.)
\<close>

fun json_int :: "json \<Rightarrow> json_error + int" where
  "json_int (JInt n) = Inr (to_int32 n)"
| "json_int (JFloat q) = Inr (to_int32 (trunc_rat q))"
| "json_int (JBool b) = Inr (if b then 1 else 0)"
| "json_int _ = Inl TypeError302"

text \<open>
  The values \<^verbatim>\<open>for (auto entry : json)\<close> visits: the elements of an array, the member values
  of an object, nothing for null, and any other value once.
\<close>

fun json_elems :: "json \<Rightarrow> json list" where
  "json_elems (JArr xs) = xs"
| "json_elems (JObj kvs) = map snd kvs"
| "json_elems JNull = []"
| "json_elems j = [j]"

definition json_field_string :: "json \<Rightarrow> string \<Rightarrow> json_error + string" where
  "json_field_string j k = bind_err (json_index j k) json_string"

lemma json_field_string_Inr:
  "json_field_string j k = Inr s \<longleftrightarrow> (\<exists>kvs. j = JObj kvs \<and> map_of kvs k = Some (JStr s))"
proof
  assume "json_field_string j k = Inr s"
  then obtain v where v: "json_index j k = Inr v" "json_string v = Inr s"
    by (auto simp: json_field_string_def elim!: bind_err_InrE)
  then have "v = JStr s" by (cases v) auto
  with v show "\<exists>kvs. j = JObj kvs \<and> map_of kvs k = Some (JStr s)"
    by (cases j) (auto split: option.splits)
qed (auto simp: json_field_string_def)

lemma json_field_string_hit [simp]:
  "map_of kvs k = Some (JStr s) \<Longrightarrow> json_field_string (JObj kvs) k = Inr s"
  by (simp add: json_field_string_Inr)

section \<open>Text\<close>

text \<open>
  What the protocol relies on: the text \<^verbatim>\<open>dump()\<close> makes of an object whose members are
  strings is not empty and parses to an object with the same members.
\<close>

definition string_members :: "(string \<times> json) list \<Rightarrow> bool" where
  "string_members kvs \<longleftrightarrow>
     sorted_wrt (<) (map fst kvs) \<and> list_all (\<lambda>(k, v). case v of JStr s \<Rightarrow> True | _ \<Rightarrow> False) kvs"

definition json_ok :: "json_lib \<Rightarrow> bool" where
  "json_ok J \<longleftrightarrow>
     (\<forall>kvs txt. string_members kvs \<longrightarrow> json_dump J (JObj kvs) = Some txt \<longrightarrow>
        txt \<noteq> '''' \<and> (\<exists>kvs'. json_parse J txt = Some (JObj kvs') \<and> map_of kvs' = map_of kvs))"

lemma json_okD:
  assumes "json_ok J" "string_members kvs" "json_dump J (JObj kvs) = Some txt"
  obtains kvs' where "txt \<noteq> ''''" "json_parse J txt = Some (JObj kvs')" "map_of kvs' = map_of kvs"
  using assms unfolding json_ok_def by blast

end
