(* ===== verification/JsonLexer.thy ===== *)
theory JsonLexer
  imports JsonModel
begin

unbundle bit_operations_syntax

text \<open>
  The lexer of nlohmann's JSON library (\<^verbatim>\<open>class lexer\<close> in
  \<^verbatim>\<open>common-cpp/deps/headers/json.hpp\<close>): the characters still to read, the one character of
  push-back, the position kept for error messages, and the scanners for strings, numbers,
  literals and comments. The scanner's \<^verbatim>\<open>goto\<close> labels are one definition each, a step of a
  \<^verbatim>\<open>while\<close> loop is one definition, and the loops are recursions that terminate because
  every turn takes a character off the input.
\<close>

section \<open>Tokens\<close>

datatype token_type =
    uninitialized | literal_true | literal_false | literal_null | value_string
  | value_unsigned | value_integer | value_float | begin_array | begin_object
  | end_array | end_object | name_separator | value_separator | parse_error
  | end_of_input | literal_or_value

fun token_type_name :: "token_type \<Rightarrow> string" where
  "token_type_name uninitialized = ''<uninitialized>''"
| "token_type_name literal_true = ''true literal''"
| "token_type_name literal_false = ''false literal''"
| "token_type_name literal_null = ''null literal''"
| "token_type_name value_string = ''string literal''"
| "token_type_name value_unsigned = ''number literal''"
| "token_type_name value_integer = ''number literal''"
| "token_type_name value_float = ''number literal''"
| "token_type_name begin_array = [CHR 0x27, CHR ''['', CHR 0x27]"
| "token_type_name begin_object = [CHR 0x27, CHR ''{'', CHR 0x27]"
| "token_type_name end_array = [CHR 0x27, CHR '']'', CHR 0x27]"
| "token_type_name end_object = [CHR 0x27, CHR ''}'', CHR 0x27]"
| "token_type_name name_separator = [CHR 0x27, CHR '':'', CHR 0x27]"
| "token_type_name value_separator = [CHR 0x27, CHR '','', CHR 0x27]"
| "token_type_name parse_error = ''<parse error>''"
| "token_type_name end_of_input = ''end of input''"
| "token_type_name literal_or_value =
     [CHR 0x27, CHR ''['', CHR 0x27] @ '', '' @ [CHR 0x27, CHR ''{'', CHR 0x27] @ '', or a literal''"

section \<open>State\<close>

text \<open>
  \<open>ia\<close> is what the input adapter has still to deliver; \<open>current\<close> is \<open>None\<close> for
  \<^verbatim>\<open>eof()\<close>. A floating-point value that is not finite is \<open>None\<close>.
\<close>

record lexer =
  ia :: string
  ignore_comments :: bool
  decimal_point_char :: char
  current :: "char option"
  next_unget :: bool
  chars_read_total :: nat
  chars_read_current_line :: nat
  lines_read :: nat
  token_string :: string
  token_buffer :: string
  error_message :: string
  lex_integer :: int
  lex_unsigned :: int
  lex_float :: "rat option"

text \<open>
  What the C library contributes: the decimal point of the current locale and the value
  \<^verbatim>\<open>strtod\<close> gives a number text (\<open>None\<close> when the result is infinite).
\<close>

record c_library =
  decimal_point :: "char option"
  strtod :: "string \<Rightarrow> rat option"

definition get_decimal_point :: "c_library \<Rightarrow> char" where
  "get_decimal_point C = (case decimal_point C of None \<Rightarrow> CHR ''.'' | Some c \<Rightarrow> c)"

definition lexer_new :: "c_library \<Rightarrow> bool \<Rightarrow> string \<Rightarrow> lexer" where
  "lexer_new C ignore txt =
     \<lparr>ia = txt, ignore_comments = ignore, decimal_point_char = get_decimal_point C, current = None,
      next_unget = False, chars_read_total = 0, chars_read_current_line = 0, lines_read = 0,
      token_string = '''', token_buffer = '''', error_message = '''', lex_integer = 0,
      lex_unsigned = 0, lex_float = Some 0\<rparr>"

section \<open>Input management\<close>

abbreviation code :: "char \<Rightarrow> int" where
  "code c \<equiv> of_char c"

abbreviation quote :: char where "quote \<equiv> CHR 0x22"
abbreviation backslash :: char where "backslash \<equiv> CHR 0x5C"

text \<open>The cast of \<^verbatim>\<open>eof()\<close>, which is -1, to a character.\<close>

definition to_char_type :: "char option \<Rightarrow> char" where
  "to_char_type c = (case c of None \<Rightarrow> CHR 0xFF | Some c \<Rightarrow> c)"

definition reset :: "lexer \<Rightarrow> lexer" where
  "reset lx = lx\<lparr>token_buffer := '''', token_string := [to_char_type (current lx)]\<rparr>"

definition fetch :: "lexer \<Rightarrow> lexer" where
  "fetch lx =
     (if next_unget lx then lx\<lparr>next_unget := False\<rparr>
      else case ia lx of
        [] \<Rightarrow> lx\<lparr>current := None\<rparr>
      | c # cs \<Rightarrow> lx\<lparr>current := Some c, ia := cs\<rparr>)"

definition get :: "lexer \<Rightarrow> lexer" where
  "get lx =
     (let lx = fetch (lx\<lparr>chars_read_total := chars_read_total lx + 1,
                        chars_read_current_line := chars_read_current_line lx + 1\<rparr>);
          lx = (case current lx of
                  None \<Rightarrow> lx
                | Some c \<Rightarrow> lx\<lparr>token_string := token_string lx @ [c]\<rparr>)
      in if current lx = Some (CHR 0x0A)
         then lx\<lparr>lines_read := lines_read lx + 1, chars_read_current_line := 0\<rparr>
         else lx)"

definition unget :: "lexer \<Rightarrow> lexer" where
  "unget lx =
     (let lx = lx\<lparr>next_unget := True, chars_read_total := chars_read_total lx - 1\<rparr>;
          lx = (if chars_read_current_line lx = 0
                then if lines_read lx > 0 then lx\<lparr>lines_read := lines_read lx - 1\<rparr> else lx
                else lx\<lparr>chars_read_current_line := chars_read_current_line lx - 1\<rparr>)
      in if current lx \<noteq> None then lx\<lparr>token_string := butlast (token_string lx)\<rparr> else lx)"

definition add :: "char \<Rightarrow> lexer \<Rightarrow> lexer" where
  "add c lx = lx\<lparr>token_buffer := token_buffer lx @ [c]\<rparr>"

definition add_current :: "lexer \<Rightarrow> lexer" where
  "add_current lx = add (to_char_type (current lx)) lx"

text \<open>Control characters in the text quoted by an error message.\<close>

definition hex_upper :: "int \<Rightarrow> char" where
  "hex_upper d = ''0123456789ABCDEF'' ! nat d"

definition shown_char :: "char \<Rightarrow> string" where
  "shown_char c =
     (if code c \<le> 0x1F
      then ''<U+00'' @ [hex_upper (code c div 16), hex_upper (code c mod 16)] @ ''>''
      else [c])"

definition get_token_string :: "lexer \<Rightarrow> string" where
  "get_token_string lx = concat (map shown_char (token_string lx))"

text \<open>
  The characters the scanner has still to see: a character that was put back, then the rest
  of the input.
\<close>

definition remaining :: "lexer \<Rightarrow> string" where
  "remaining lx =
     (if next_unget lx then (case current lx of None \<Rightarrow> [] | Some c \<Rightarrow> [c]) else []) @ ia lx"

text \<open>A lexer that has put \<^verbatim>\<open>eof()\<close> back has no input left.\<close>

definition lexer_wf :: "lexer \<Rightarrow> bool" where
  "lexer_wf lx \<longleftrightarrow> (next_unget lx \<longrightarrow> current lx = None \<longrightarrow> ia lx = [])"

lemma current_reset [simp]: "current (reset lx) = current lx"
  by (simp add: reset_def)

lemma remaining_reset [simp]: "remaining (reset lx) = remaining lx"
  by (simp add: reset_def remaining_def)

lemma token_buffer_reset [simp]: "token_buffer (reset lx) = ''''"
  by (simp add: reset_def)

lemma current_add [simp]: "current (add c lx) = current lx"
  by (simp add: add_def)

lemma remaining_add [simp]: "remaining (add c lx) = remaining lx"
  by (simp add: add_def remaining_def)

lemma token_buffer_add [simp]: "token_buffer (add c lx) = token_buffer lx @ [c]"
  by (simp add: add_def)

lemma remaining_error_message [simp]: "remaining (lx\<lparr>error_message := m\<rparr>) = remaining lx"
  by (simp add: remaining_def)

text \<open>Reading a character is \<open>fetch\<close> as far as the rest of the input is concerned.\<close>

lemma fetch_keeps:
  "chars_read_total (fetch lx) = chars_read_total lx" "ignore_comments (fetch lx) = ignore_comments lx"
  by (cases "next_unget lx"; cases "ia lx"; simp add: fetch_def)+

lemma fetch_count:
  "current (fetch (lx\<lparr>chars_read_total := m, chars_read_current_line := n\<rparr>)) = current (fetch lx)"
  "ia (fetch (lx\<lparr>chars_read_total := m, chars_read_current_line := n\<rparr>)) = ia (fetch lx)"
  "token_buffer (fetch (lx\<lparr>chars_read_total := m, chars_read_current_line := n\<rparr>)) = token_buffer lx"
  "\<not> next_unget (fetch (lx\<lparr>chars_read_total := m, chars_read_current_line := n\<rparr>))"
  by (cases "next_unget lx"; cases "ia lx"; simp add: fetch_def)+

lemma get_fetch:
  "current (get lx) = current (fetch lx)"
  "ia (get lx) = ia (fetch lx)"
  "token_buffer (get lx) = token_buffer lx"
  "\<not> next_unget (get lx)"
  unfolding get_def Let_def by (simp_all add: fetch_count split: option.split)

lemma get_keeps [simp]:
  "chars_read_total (get lx) = chars_read_total lx + 1" "ignore_comments (get lx) = ignore_comments lx"
  unfolding get_def Let_def by (simp_all add: fetch_keeps split: option.split)

lemma unget_keeps [simp]:
  "chars_read_total (unget lx) = chars_read_total lx - 1" "ignore_comments (unget lx) = ignore_comments lx"
  by (simp_all add: unget_def Let_def)

lemma remaining_get: "remaining (get lx) = ia (fetch lx)"
  by (simp add: remaining_def get_fetch)

lemma get_shrinks: "current (get lx) = Some c \<Longrightarrow> length (remaining (get lx)) < length (remaining lx)"
  by (cases "ia lx") (auto simp: get_fetch remaining_get fetch_def remaining_def split: if_split_asm)

lemma get_le: "length (remaining (get lx)) \<le> length (remaining lx)"
  by (cases "ia lx") (auto simp: get_fetch remaining_get fetch_def remaining_def)

lemma token_buffer_get [simp]: "token_buffer (get lx) = token_buffer lx"
  by (rule get_fetch)

lemma get_not_unget [simp]: "\<not> next_unget (get lx)"
  by (rule get_fetch)

lemma get_remaining:
  assumes "remaining lx = c # cs" "lexer_wf lx"
  shows "current (get lx) = Some c" "remaining (get lx) = cs"
  using assms
  by (cases "ia lx"; auto simp: get_fetch remaining_get fetch_def remaining_def lexer_wf_def
      split: if_split_asm option.split_asm)+

lemma get_end:
  assumes "remaining lx = []" "lexer_wf lx"
  shows "current (get lx) = None" "remaining (get lx) = []"
  using assms
  by (cases "ia lx"; auto simp: get_fetch remaining_get fetch_def remaining_def lexer_wf_def
      split: if_split_asm option.split_asm)+

lemma lexer_wf_fresh [simp]: "\<not> next_unget lx \<Longrightarrow> lexer_wf lx"
  by (simp add: lexer_wf_def)

lemma unget_remaining:
  assumes "\<not> next_unget lx"
  shows "remaining (unget lx) = (case current lx of None \<Rightarrow> [] | Some c \<Rightarrow> [c]) @ remaining lx"
    and "current (unget lx) = current lx" "token_buffer (unget lx) = token_buffer lx"
  using assms by (simp_all add: unget_def remaining_def Let_def)

lemma ia_unget [simp]: "ia (unget lx) = ia lx"
  by (simp add: unget_def Let_def)

lemma unget_get_wf: "lexer_wf lx \<Longrightarrow> lexer_wf (unget (get lx))"
  using unget_remaining(2) [of "get lx"]
  by (cases "ia lx") (auto simp: lexer_wf_def get_fetch fetch_def)

section \<open>Strings\<close>

text \<open>The value of a hexadecimal digit; the three branches subtract 0x30, 0x37 and 0x57.\<close>

definition hex_value :: "char \<Rightarrow> int option" where
  "hex_value c =
     (if 0x30 \<le> code c \<and> code c \<le> 0x39 then Some (code c - 0x30)
      else if 0x41 \<le> code c \<and> code c \<le> 0x46 then Some (code c - 0x37)
      else if 0x61 \<le> code c \<and> code c \<le> 0x66 then Some (code c - 0x57)
      else None)"

fun codepoint_loop :: "nat list \<Rightarrow> int \<Rightarrow> lexer \<Rightarrow> int \<times> lexer" where
  "codepoint_loop [] codepoint lx = (codepoint, lx)"
| "codepoint_loop (factor # factors) codepoint lx =
     (let lx = get lx
      in case Option.bind (current lx) hex_value of
           None \<Rightarrow> (-1, lx)
         | Some d \<Rightarrow> codepoint_loop factors (codepoint + push_bit factor d) lx)"

definition get_codepoint :: "lexer \<Rightarrow> int \<times> lexer" where
  "get_codepoint lx = codepoint_loop [12, 8, 4, 0] 0 lx"

fun range_loop :: "(int \<times> int) list \<Rightarrow> lexer \<Rightarrow> bool \<times> lexer" where
  "range_loop [] lx = (True, lx)"
| "range_loop ((lo, hi) # ranges) lx =
     (let lx = get lx
      in case current lx of
           Some c \<Rightarrow>
             if lo \<le> code c \<and> code c \<le> hi then range_loop ranges (add c lx)
             else (False, lx\<lparr>error_message := ''invalid string: ill-formed UTF-8 byte''\<rparr>)
         | None \<Rightarrow> (False, lx\<lparr>error_message := ''invalid string: ill-formed UTF-8 byte''\<rparr>))"

definition next_byte_in_range :: "(int \<times> int) list \<Rightarrow> lexer \<Rightarrow> bool \<times> lexer" where
  "next_byte_in_range ranges lx = range_loop ranges (add_current lx)"

text \<open>A token of a string scanner turn: \<open>None\<close> goes round the loop again.\<close>

definition fail :: "string \<Rightarrow> lexer \<Rightarrow> token_type option \<times> lexer" where
  "fail msg lx = (Some parse_error, lx\<lparr>error_message := msg\<rparr>)"

text \<open>The bytes of a code point.\<close>

definition codepoint_bytes :: "int \<Rightarrow> int list" where
  "codepoint_bytes cp =
     (if cp < 0x80 then [cp]
      else if cp \<le> 0x7FF then [0xC0 OR drop_bit 6 cp, 0x80 OR (cp AND 0x3F)]
      else if cp \<le> 0xFFFF then
        [0xE0 OR drop_bit 12 cp, 0x80 OR (drop_bit 6 cp AND 0x3F), 0x80 OR (cp AND 0x3F)]
      else
        [0xF0 OR drop_bit 18 cp, 0x80 OR (drop_bit 12 cp AND 0x3F),
         0x80 OR (drop_bit 6 cp AND 0x3F), 0x80 OR (cp AND 0x3F)])"

definition add_codepoint :: "int \<Rightarrow> lexer \<Rightarrow> lexer" where
  "add_codepoint cp lx = fold (\<lambda>b. add (char_of b)) (codepoint_bytes cp) lx"

text \<open>The second half of a surrogate pair.\<close>

definition low_surrogate :: "int \<Rightarrow> lexer \<Rightarrow> token_type option \<times> lexer" where
  "low_surrogate codepoint1 lx =
     (let lx = get lx;
          lx' = get lx
      in if current lx = Some backslash \<and> current lx' = Some (CHR ''u'') then
           (case get_codepoint lx' of (codepoint2, lx) \<Rightarrow>
                if codepoint2 = -1 then
                  fail (''invalid string: '' @ [CHR 0x27, backslash] @ ''u'' @ [CHR 0x27] @
                        '' must be followed by 4 hex digits'') lx
                else if 0xDC00 \<le> codepoint2 \<and> codepoint2 \<le> 0xDFFF
                then (None, add_codepoint (push_bit 10 codepoint1 + codepoint2 - 0x35FDC00) lx)
                else fail ''invalid string: surrogate U+D800..U+DBFF must be followed by U+DC00..U+DFFF'' lx)
         else
           fail ''invalid string: surrogate U+D800..U+DBFF must be followed by U+DC00..U+DFFF''
             (if current lx = Some backslash then lx' else lx))"

definition unicode_escape :: "lexer \<Rightarrow> token_type option \<times> lexer" where
  "unicode_escape lx =
     (case get_codepoint lx of (codepoint1, lx) \<Rightarrow>
          if codepoint1 = -1 then
            fail (''invalid string: '' @ [CHR 0x27, backslash] @ ''u'' @ [CHR 0x27] @
                  '' must be followed by 4 hex digits'') lx
          else if 0xD800 \<le> codepoint1 \<and> codepoint1 \<le> 0xDBFF then low_surrogate codepoint1 lx
          else if 0xDC00 \<le> codepoint1 \<and> codepoint1 \<le> 0xDFFF then
            fail ''invalid string: surrogate U+DC00..U+DFFF must follow U+D800..U+DBFF'' lx
          else (None, add_codepoint codepoint1 lx))"

text \<open>The escapes of one letter and the characters they stand for.\<close>

definition escape_table :: "(char \<times> char) list" where
  "escape_table =
     [(quote, quote), (backslash, backslash), (CHR ''/'', CHR ''/''), (CHR ''b'', CHR 0x08),
      (CHR ''f'', CHR 0x0C), (CHR ''n'', CHR 0x0A), (CHR ''r'', CHR 0x0D), (CHR ''t'', CHR 0x09)]"

definition string_escape :: "lexer \<Rightarrow> token_type option \<times> lexer" where
  "string_escape lx =
     (let lx = get lx
      in case current lx of
           None \<Rightarrow> fail ''invalid string: forbidden character after backslash'' lx
         | Some c \<Rightarrow>
             (case map_of escape_table c of
                Some d \<Rightarrow> (None, add d lx)
              | None \<Rightarrow>
                  if c = CHR ''u'' then unicode_escape lx
                  else fail ''invalid string: forbidden character after backslash'' lx))"

text \<open>Control characters must be escaped; the message names the character.\<close>

definition control_names :: "string list" where
  "control_names =
     [''NUL'', ''SOH'', ''STX'', ''ETX'', ''EOT'', ''ENQ'', ''ACK'', ''BEL'', ''BS'', ''HT'', ''LF'',
      ''VT'', ''FF'', ''CR'', ''SO'', ''SI'', ''DLE'', ''DC1'', ''DC2'', ''DC3'', ''DC4'', ''NAK'',
      ''SYN'', ''ETB'', ''CAN'', ''EM'', ''SUB'', ''ESC'', ''FS'', ''GS'', ''RS'', ''US'']"

definition short_escape :: "int \<Rightarrow> string" where
  "short_escape n =
     (if n = 0x08 then '' or '' @ [backslash] @ ''b''
      else if n = 0x09 then '' or '' @ [backslash] @ ''t''
      else if n = 0x0A then '' or '' @ [backslash] @ ''n''
      else if n = 0x0C then '' or '' @ [backslash] @ ''f''
      else if n = 0x0D then '' or '' @ [backslash] @ ''r''
      else '''')"

definition control_error :: "int \<Rightarrow> string" where
  "control_error n =
     (let hex = ''00'' @ [hex_upper (n div 16), hex_upper (n mod 16)]
      in ''invalid string: control character U+'' @ hex @ '' ('' @ control_names ! nat n @
         '') must be escaped to '' @ [backslash] @ ''u'' @ hex @ short_escape n)"

text \<open>The ranges of the bytes that may follow a lead byte; \<open>None\<close> for an ill-formed one.\<close>

definition utf8_ranges :: "int \<Rightarrow> (int \<times> int) list option" where
  "utf8_ranges b =
     (if 0xC2 \<le> b \<and> b \<le> 0xDF then Some [(0x80, 0xBF)]
      else if b = 0xE0 then Some [(0xA0, 0xBF), (0x80, 0xBF)]
      else if 0xE1 \<le> b \<and> b \<le> 0xEC \<or> b = 0xEE \<or> b = 0xEF then Some [(0x80, 0xBF), (0x80, 0xBF)]
      else if b = 0xED then Some [(0x80, 0x9F), (0x80, 0xBF)]
      else if b = 0xF0 then Some [(0x90, 0xBF), (0x80, 0xBF), (0x80, 0xBF)]
      else if 0xF1 \<le> b \<and> b \<le> 0xF3 then Some [(0x80, 0xBF), (0x80, 0xBF), (0x80, 0xBF)]
      else if b = 0xF4 then Some [(0x80, 0x8F), (0x80, 0xBF), (0x80, 0xBF)]
      else None)"

definition plain_ascii :: "int \<Rightarrow> bool" where
  "plain_ascii b \<longleftrightarrow> 0x20 \<le> b \<and> b \<le> 0x7F \<and> b \<noteq> 0x22 \<and> b \<noteq> 0x5C"

definition string_multibyte :: "char \<Rightarrow> lexer \<Rightarrow> token_type option \<times> lexer" where
  "string_multibyte c lx =
     (case utf8_ranges (code c) of
        None \<Rightarrow> fail ''invalid string: ill-formed UTF-8 byte'' lx
      | Some ranges \<Rightarrow>
          (case next_byte_in_range ranges lx of
             (True, lx) \<Rightarrow> (None, lx)
           | (False, lx) \<Rightarrow> (Some parse_error, lx)))"

text \<open>One turn of the string scanner's loop.\<close>

definition string_turn :: "lexer \<Rightarrow> token_type option \<times> lexer" where
  "string_turn lx =
     (let lx = get lx
      in case current lx of
           None \<Rightarrow> fail ''invalid string: missing closing quote'' lx
         | Some c \<Rightarrow>
             if c = quote then (Some value_string, lx)
             else if c = backslash then string_escape lx
             else if code c \<le> 0x1F then fail (control_error (code c)) lx
             else if plain_ascii (code c) then (None, add_current lx)
             else string_multibyte c lx)"

lemma remaining_add_current [simp]: "remaining (add_current lx) = remaining lx"
  by (simp add: add_current_def)

lemma remaining_fold_add: "remaining (fold (\<lambda>b. add (f b)) bs lx) = remaining lx"
  by (induction bs arbitrary: lx) simp_all

lemma remaining_add_codepoint [simp]: "remaining (add_codepoint cp lx) = remaining lx"
  by (simp add: add_codepoint_def remaining_fold_add)

lemma codepoint_loop_le: "length (remaining (snd (codepoint_loop fs cp lx))) \<le> length (remaining lx)"
proof (induction fs cp lx rule: codepoint_loop.induct)
  case (2 f fs cp lx)
  then show ?case using get_le [of lx] by (force simp: Let_def split: option.split)
qed simp

lemma get_codepoint_le: "get_codepoint lx = (r, lx') \<Longrightarrow> length (remaining lx') \<le> length (remaining lx)"
  using codepoint_loop_le [of "[12, 8, 4, 0]" 0 lx] by (simp add: get_codepoint_def)

lemma range_loop_le: "length (remaining (snd (range_loop rs lx))) \<le> length (remaining lx)"
proof (induction rs lx rule: range_loop.induct)
  case (2 lo hi rs lx)
  then show ?case using get_le [of lx] by (force simp: Let_def split: option.split)
qed simp

lemma low_surrogate_le: "length (remaining (snd (low_surrogate cp lx))) \<le> length (remaining lx)"
proof -
  have "length (remaining (get (get lx))) \<le> length (remaining lx)" "length (remaining (get lx)) \<le> length (remaining lx)"
    using get_le [of lx] get_le [of "get lx"] by linarith+
  then show ?thesis
    by (auto simp: low_surrogate_def fail_def Let_def split: option.split prod.split dest!: get_codepoint_le)
qed

lemma unicode_escape_le: "length (remaining (snd (unicode_escape lx))) \<le> length (remaining lx)"
  by (auto simp: unicode_escape_def fail_def split: option.split prod.split dest!: get_codepoint_le
      intro: order_trans [OF low_surrogate_le])

lemma string_escape_le: "length (remaining (snd (string_escape lx))) \<le> length (remaining lx)"
  using get_le [of lx]
  by (auto simp: string_escape_def fail_def Let_def split: option.split intro: order_trans [OF unicode_escape_le])

lemma string_multibyte_le: "length (remaining (snd (string_multibyte c lx))) \<le> length (remaining lx)"
  using range_loop_le [of _ "add_current lx"]
  by (auto simp: string_multibyte_def fail_def next_byte_in_range_def split: option.split prod.split bool.split)
     (metis snd_conv remaining_add_current)+

lemma string_turn_shrinks:
  assumes "string_turn lx = (None, lx')"
  shows "length (remaining lx') < length (remaining lx)"
proof (cases "current (get lx)")
  case None
  with assms show ?thesis by (simp add: string_turn_def fail_def)
next
  case (Some c)
  have "length (remaining lx') \<le> length (remaining (get lx))"
    using assms Some string_escape_le [of "get lx"] string_multibyte_le [of c "get lx"]
    by (auto simp: string_turn_def fail_def Let_def split: if_split_asm)
  with get_shrinks [OF Some] show ?thesis by linarith
qed

function scan_string_loop :: "lexer \<Rightarrow> token_type \<times> lexer" where
  "scan_string_loop lx =
     (case string_turn lx of
        (Some t, lx') \<Rightarrow> (t, lx')
      | (None, lx') \<Rightarrow> scan_string_loop lx')"
  by pat_completeness auto

termination
  by (relation "measure (\<lambda>lx. length (remaining lx))") (auto dest: string_turn_shrinks [OF sym])

declare scan_string_loop.simps [simp del]

definition scan_string :: "lexer \<Rightarrow> token_type \<times> lexer" where
  "scan_string lx = scan_string_loop (reset lx)"

section \<open>Numbers\<close>

text \<open>
  The labels of the scanner's state machine. A step is the code under one label: it reads a
  character and gives the label to go to (\<open>None\<close> for a parse error), the type of the number
  so far, and the lexer.
\<close>

datatype number_label =
    number_minus | number_zero | number_any1 | number_decimal1 | number_decimal2
  | number_exponent | number_sign | number_any2 | number_done

type_synonym number_step = "number_label option \<times> token_type \<times> lexer"

definition is_digit :: "char option \<Rightarrow> bool" where
  "is_digit c = (case c of None \<Rightarrow> False | Some c \<Rightarrow> 0x30 \<le> code c \<and> code c \<le> 0x39)"

definition number_fail :: "string \<Rightarrow> token_type \<Rightarrow> lexer \<Rightarrow> number_step" where
  "number_fail msg nt lx = (None, nt, lx\<lparr>error_message := ''invalid number; '' @ msg\<rparr>)"

definition scan_number_minus :: "lexer \<Rightarrow> number_step" where
  "scan_number_minus lx =
     (let nt = value_integer; lx = get lx
      in if current lx = Some (CHR ''0'') then (Some number_zero, nt, add_current lx)
         else if is_digit (current lx) then (Some number_any1, nt, add_current lx)
         else number_fail (''expected digit after '' @ [CHR 0x27, CHR ''-'', CHR 0x27]) nt lx)"

definition is_exponent :: "char option \<Rightarrow> bool" where
  "is_exponent c \<longleftrightarrow> c = Some (CHR ''e'') \<or> c = Some (CHR ''E'')"

definition scan_number_zero :: "token_type \<Rightarrow> lexer \<Rightarrow> number_step" where
  "scan_number_zero nt lx =
     (let lx = get lx
      in if current lx = Some (CHR ''.'') then (Some number_decimal1, nt, add (decimal_point_char lx) lx)
         else if is_exponent (current lx) then (Some number_exponent, nt, add_current lx)
         else (Some number_done, nt, lx))"

definition scan_number_any1 :: "token_type \<Rightarrow> lexer \<Rightarrow> number_step" where
  "scan_number_any1 nt lx =
     (let lx = get lx
      in if is_digit (current lx) then (Some number_any1, nt, add_current lx)
         else if current lx = Some (CHR ''.'') then (Some number_decimal1, nt, add (decimal_point_char lx) lx)
         else if is_exponent (current lx) then (Some number_exponent, nt, add_current lx)
         else (Some number_done, nt, lx))"

definition scan_number_decimal1 :: "lexer \<Rightarrow> number_step" where
  "scan_number_decimal1 lx =
     (let nt = value_float; lx = get lx
      in if is_digit (current lx) then (Some number_decimal2, nt, add_current lx)
         else number_fail (''expected digit after '' @ [CHR 0x27, CHR ''.'', CHR 0x27]) nt lx)"

definition scan_number_decimal2 :: "token_type \<Rightarrow> lexer \<Rightarrow> number_step" where
  "scan_number_decimal2 nt lx =
     (let lx = get lx
      in if is_digit (current lx) then (Some number_decimal2, nt, add_current lx)
         else if is_exponent (current lx) then (Some number_exponent, nt, add_current lx)
         else (Some number_done, nt, lx))"

definition scan_number_exponent :: "lexer \<Rightarrow> number_step" where
  "scan_number_exponent lx =
     (let nt = value_float; lx = get lx
      in if current lx = Some (CHR ''+'') \<or> current lx = Some (CHR ''-'') then (Some number_sign, nt, add_current lx)
         else if is_digit (current lx) then (Some number_any2, nt, add_current lx)
         else number_fail (''expected '' @ [CHR 0x27, CHR ''+'', CHR 0x27] @ '', '' @
                [CHR 0x27, CHR ''-'', CHR 0x27] @ '', or digit after exponent'') nt lx)"

definition scan_number_sign :: "token_type \<Rightarrow> lexer \<Rightarrow> number_step" where
  "scan_number_sign nt lx =
     (let lx = get lx
      in if is_digit (current lx) then (Some number_any2, nt, add_current lx)
         else number_fail ''expected digit after exponent sign'' nt lx)"

definition scan_number_any2 :: "token_type \<Rightarrow> lexer \<Rightarrow> number_step" where
  "scan_number_any2 nt lx =
     (let lx = get lx
      in if is_digit (current lx) then (Some number_any2, nt, add_current lx)
         else (Some number_done, nt, lx))"

fun number_goto :: "number_label \<Rightarrow> token_type \<Rightarrow> lexer \<Rightarrow> number_step" where
  "number_goto number_minus nt lx = scan_number_minus lx"
| "number_goto number_zero nt lx = scan_number_zero nt lx"
| "number_goto number_any1 nt lx = scan_number_any1 nt lx"
| "number_goto number_decimal1 nt lx = scan_number_decimal1 lx"
| "number_goto number_decimal2 nt lx = scan_number_decimal2 nt lx"
| "number_goto number_exponent nt lx = scan_number_exponent lx"
| "number_goto number_sign nt lx = scan_number_sign nt lx"
| "number_goto number_any2 nt lx = scan_number_any2 nt lx"
| "number_goto number_done nt lx = (Some number_done, nt, lx)"

text \<open>
  \<^verbatim>\<open>strtoull\<close> and \<^verbatim>\<open>strtoll\<close> in base 10 on a text the scanner has checked: digits, after
  a minus sign for the second; \<open>None\<close> when they set \<^verbatim>\<open>errno\<close> to \<^verbatim>\<open>ERANGE\<close>.
\<close>

definition dec_value :: "string \<Rightarrow> int" where
  "dec_value s = foldl (\<lambda>n c. 10 * n + (code c - 0x30)) 0 s"

definition strtoull :: "string \<Rightarrow> int option" where
  "strtoull s = (let x = dec_value s in if x < 2 ^ 64 then Some x else None)"

definition strtoll :: "string \<Rightarrow> int option" where
  "strtoll s =
     (let x = - (dec_value (drop 1 s)) in if - (2 ^ 63) \<le> x then Some x else None)"

definition scan_number_done :: "c_library \<Rightarrow> token_type \<Rightarrow> lexer \<Rightarrow> token_type \<times> lexer" where
  "scan_number_done C nt lx =
     (let lx = unget lx;
          as_float = (value_float, lx\<lparr>lex_float := strtod C (token_buffer lx)\<rparr>)
      in if nt = value_unsigned then
           (case strtoull (token_buffer lx) of
              Some x \<Rightarrow> (value_unsigned, lx\<lparr>lex_unsigned := x\<rparr>) | None \<Rightarrow> as_float)
         else if nt = value_integer then
           (case strtoll (token_buffer lx) of
              Some x \<Rightarrow> (value_integer, lx\<lparr>lex_integer := x\<rparr>) | None \<Rightarrow> as_float)
         else as_float)"

lemma number_goto_shrinks:
  assumes "number_goto l nt lx = (Some l', nt', lx')" "l' \<noteq> number_done"
  shows "length (remaining lx') < length (remaining lx)"
proof -
  have "length (remaining (get lx)) < length (remaining lx)" if "current (get lx) \<noteq> None"
    using that get_shrinks by blast
  moreover have "current (get lx) \<noteq> None \<and> remaining lx' = remaining (get lx)"
    using assms
    by (cases l) (auto simp: scan_number_minus_def scan_number_zero_def scan_number_any1_def
        scan_number_decimal1_def scan_number_decimal2_def scan_number_exponent_def scan_number_sign_def
        scan_number_any2_def number_fail_def is_digit_def is_exponent_def Let_def
        split: if_split_asm option.split_asm)
  ultimately show ?thesis by simp
qed

function scan_number_from ::
  "c_library \<Rightarrow> number_label \<Rightarrow> token_type \<Rightarrow> lexer \<Rightarrow> token_type \<times> lexer" where
  "scan_number_from C l nt lx =
     (case number_goto l nt lx of
        (None, _, lx') \<Rightarrow> (parse_error, lx')
      | (Some l', nt', lx') \<Rightarrow>
          if l' = number_done then scan_number_done C nt' lx' else scan_number_from C l' nt' lx')"
  by pat_completeness auto

termination
  by (relation "measure (\<lambda>(C, l, nt, lx). length (remaining lx))")
    (auto dest: number_goto_shrinks [OF sym] simp del: number_goto.simps)

declare scan_number_from.simps [simp del]

definition scan_number :: "c_library \<Rightarrow> lexer \<Rightarrow> token_type \<times> lexer" where
  "scan_number C lx =
     (let lx = add_current (reset lx)
      in if current lx = Some (CHR ''-'') then scan_number_from C number_minus value_unsigned lx
         else if current lx = Some (CHR ''0'') then scan_number_from C number_zero value_unsigned lx
         else if is_digit (current lx) then scan_number_from C number_any1 value_unsigned lx
         else scan_number_from C number_minus value_unsigned lx)"

section \<open>Literals and comments\<close>

fun literal_loop :: "string \<Rightarrow> lexer \<Rightarrow> bool \<times> lexer" where
  "literal_loop [] lx = (True, lx)"
| "literal_loop (c # cs) lx =
     (let lx = get lx
      in if to_char_type (current lx) \<noteq> c then (False, lx\<lparr>error_message := ''invalid literal''\<rparr>)
         else literal_loop cs lx)"

definition scan_literal :: "string \<Rightarrow> token_type \<Rightarrow> lexer \<Rightarrow> token_type \<times> lexer" where
  "scan_literal literal_text return_type lx =
     (case literal_loop (tl literal_text) lx of
        (True, lx) \<Rightarrow> (return_type, lx) | (False, lx) \<Rightarrow> (parse_error, lx))"

function line_comment :: "lexer \<Rightarrow> lexer" where
  "line_comment lx =
     (case current (get lx) of
        None \<Rightarrow> get lx
      | Some c \<Rightarrow> if c \<in> {CHR 0x0A, CHR 0x0D, CHR 0x00} then get lx else line_comment (get lx))"
  by pat_completeness auto

termination
  by (relation "measure (\<lambda>lx. length (remaining lx))") (auto dest: get_shrinks)

text \<open>
  After a star that no slash follows the character is put back, so that the star of a second
  \<^verbatim>\<open>**/\<close> is seen.
\<close>

lemma remaining_unget_get:
  "length (remaining (unget (get lx))) \<le> length (remaining lx)"
proof (cases "current (get lx)")
  case None
  then show ?thesis using get_le [of lx] by (simp add: unget_remaining(1))
next
  case (Some c)
  then show ?thesis using get_shrinks [OF Some] by (simp add: unget_remaining(1))
qed

lemma comment_shrinks:
  assumes "current (get lx) = Some c"
  shows "length (remaining (unget (get (get lx)))) < length (remaining lx)"
  using remaining_unget_get [of "get lx"] get_shrinks [OF assms] by linarith

function block_comment :: "lexer \<Rightarrow> bool \<times> lexer" where
  "block_comment lx =
     (let lx' = get lx
      in case current lx' of
           None \<Rightarrow> (False, lx'\<lparr>error_message := ''invalid comment; missing closing '' @ [CHR 0x27] @ ''*/'' @ [CHR 0x27]\<rparr>)
         | Some c \<Rightarrow>
             if c = CHR 0x00 then
               (False, lx'\<lparr>error_message := ''invalid comment; missing closing '' @ [CHR 0x27] @ ''*/'' @ [CHR 0x27]\<rparr>)
             else if c = CHR ''*'' then
               (if current (get lx') = Some (CHR ''/'') then (True, get lx')
                else block_comment (unget (get lx')))
             else block_comment lx')"
  by pat_completeness auto

termination
  by (relation "measure (\<lambda>lx. length (remaining lx))") (auto dest: get_shrinks comment_shrinks)

declare line_comment.simps [simp del] block_comment.simps [simp del]

definition scan_comment :: "lexer \<Rightarrow> bool \<times> lexer" where
  "scan_comment lx =
     (let lx = get lx
      in if current lx = Some (CHR ''/'') then (True, line_comment lx)
         else if current lx = Some (CHR ''*'') then block_comment lx
         else (False, lx\<lparr>error_message := ''invalid comment; expecting '' @ [CHR 0x27] @ ''/'' @ [CHR 0x27] @
                 '' or '' @ [CHR 0x27] @ ''*'' @ [CHR 0x27] @ '' after '' @ [CHR 0x27] @ ''/'' @ [CHR 0x27]\<rparr>))"

section \<open>The scanner\<close>

definition skip_bom :: "lexer \<Rightarrow> bool \<times> lexer" where
  "skip_bom lx =
     (let lx1 = get lx
      in if current lx1 = Some (CHR 0xEF) then
           let lx2 = get lx1
           in if current lx2 = Some (CHR 0xBB) then
                let lx3 = get lx2 in (current lx3 = Some (CHR 0xBF), lx3)
              else (False, lx2)
         else (True, unget lx1))"

definition is_blank :: "char option \<Rightarrow> bool" where
  "is_blank c \<longleftrightarrow> c = Some (CHR '' '') \<or> c = Some (CHR 0x09) \<or> c = Some (CHR 0x0A) \<or> c = Some (CHR 0x0D)"

function skip_whitespace :: "lexer \<Rightarrow> lexer" where
  "skip_whitespace lx =
     (let lx' = get lx in if is_blank (current lx') then skip_whitespace lx' else lx')"
  by pat_completeness auto

termination
  by (relation "measure (\<lambda>lx. length (remaining lx))") (auto simp: is_blank_def dest: get_shrinks)

declare skip_whitespace.simps [simp del]

lemma skip_whitespace_le: "length (remaining (skip_whitespace lx)) \<le> length (remaining lx)"
proof (induction lx rule: skip_whitespace.induct)
  case (1 lx)
  then show ?case
    using get_le [of lx] by (subst skip_whitespace.simps) (fastforce simp: Let_def)
qed

lemma line_comment_le: "length (remaining (line_comment lx)) \<le> length (remaining lx)"
proof (induction lx rule: line_comment.induct)
  case (1 lx)
  then show ?case
    using get_le [of lx] by (subst line_comment.simps) (fastforce split: option.split)
qed

lemma block_comment_le: "length (remaining (snd (block_comment lx))) \<le> length (remaining lx)"
proof (induction lx rule: block_comment.induct)
  case (1 lx)
  show ?case
  proof (cases "current (get lx)")
    case None
    then show ?thesis using get_le [of lx] by (subst block_comment.simps) (simp add: Let_def)
  next
    case (Some c)
    then show ?thesis
      using 1 [OF refl Some] get_shrinks [OF Some] comment_shrinks [OF Some] get_le [of "get lx"]
      by (subst block_comment.simps) (auto simp: Let_def)
  qed
qed

lemma scan_comment_le: "scan_comment lx = (b, lx') \<Longrightarrow> length (remaining lx') \<le> length (remaining lx)"
  using get_le [of lx] line_comment_le [of "get lx"] block_comment_le [of "get lx"]
  by (auto simp: scan_comment_def Let_def split: if_split_asm)

lemma skip_whitespace_shrinks:
  "current (skip_whitespace lx) = Some c \<Longrightarrow> length (remaining (skip_whitespace lx)) < length (remaining lx)"
proof (induction lx rule: skip_whitespace.induct)
  case (1 lx)
  then show ?case
    using get_le [of lx] get_shrinks [of lx]
    by (subst (asm) skip_whitespace.simps, subst skip_whitespace.simps)
       (fastforce simp: Let_def split: if_split_asm)
qed

lemma comment_blank_shrinks:
  assumes "scan_comment lx = (True, lx')" "current (skip_whitespace lx') = Some c"
  shows "length (remaining (skip_whitespace lx')) < length (remaining lx)"
  using skip_whitespace_shrinks [OF assms(2)] scan_comment_le [OF assms(1)] by linarith

text \<open>\<^verbatim>\<open>while (ignore_comments && current == '/')\<close>\<close>

function skip_comments :: "lexer \<Rightarrow> bool \<times> lexer" where
  "skip_comments lx =
     (if ignore_comments lx \<and> current lx = Some (CHR ''/'') then
        (case scan_comment lx of
           (False, lx') \<Rightarrow> (False, lx')
         | (True, lx') \<Rightarrow>
             (let lx'' = skip_whitespace lx'
              in if current lx'' = None then (True, lx'') else skip_comments lx''))
      else (True, lx))"
  by pat_completeness auto

termination
  by (relation "measure (\<lambda>lx. length (remaining lx))") (auto dest: comment_blank_shrinks [OF sym])

declare skip_comments.simps [simp del]

definition scan_literals :: "(char \<times> string \<times> token_type) list" where
  "scan_literals =
     [(CHR ''t'', ''true'', literal_true), (CHR ''f'', ''false'', literal_false), (CHR ''n'', ''null'', literal_null)]"

definition structural :: "(char \<times> token_type) list" where
  "structural =
     [(CHR ''['', begin_array), (CHR '']'', end_array), (CHR ''{'', begin_object), (CHR ''}'', end_object),
      (CHR '':'', name_separator), (CHR '','', value_separator)]"

text \<open>The \<^verbatim>\<open>switch\<close> on the first character of a token.\<close>

definition scan_token :: "c_library \<Rightarrow> lexer \<Rightarrow> token_type \<times> lexer" where
  "scan_token C lx =
     (case current lx of
        None \<Rightarrow> (end_of_input, lx)
      | Some c \<Rightarrow>
          (case map_of structural c of
             Some t \<Rightarrow> (t, lx)
           | None \<Rightarrow>
               (case map_of scan_literals c of
                  Some (txt, t) \<Rightarrow> scan_literal txt t lx
                | None \<Rightarrow>
                    if c = quote then scan_string lx
                    else if c = CHR ''-'' \<or> is_digit (Some c) then scan_number C lx
                    else if c = CHR 0x00 then (end_of_input, lx)
                    else (parse_error, lx\<lparr>error_message := ''invalid literal''\<rparr>))))"

definition scan :: "c_library \<Rightarrow> lexer \<Rightarrow> token_type \<times> lexer" where
  "scan C lx =
     (case if chars_read_total lx = 0 then skip_bom lx else (True, lx) of
        (False, lx) \<Rightarrow>
          (parse_error, lx\<lparr>error_message := ''invalid BOM; must be 0xEF 0xBB 0xBF if given''\<rparr>)
      | (True, lx) \<Rightarrow>
          (case skip_comments (skip_whitespace lx) of
             (False, lx) \<Rightarrow> (parse_error, lx)
           | (True, lx) \<Rightarrow> scan_token C lx))"

section \<open>Progress\<close>

text \<open>
  No scanner gives input back that it did not take, and a scan that delivers a token has
  taken at least one character: the measure of the parser's loop.
\<close>

lemma scan_string_loop_le: "length (remaining (snd (scan_string_loop lx))) \<le> length (remaining lx)"
proof (induction lx rule: scan_string_loop.induct)
  case (1 lx)
  obtain t lx' where r: "string_turn lx = (t, lx')" by (cases "string_turn lx")
  show ?case
  proof (cases t)
    case None
    with 1 r string_turn_shrinks [of lx lx'] show ?thesis
      by (subst scan_string_loop.simps) simp
  next
    case (Some u)
    have "length (remaining lx') \<le> length (remaining lx)"
      using r get_le [of lx] string_escape_le [of "get lx"] string_multibyte_le [of _ "get lx"]
      by (auto simp: string_turn_def fail_def Let_def split: if_split_asm option.split_asm)
         (metis le_trans snd_conv)+
    with r Some show ?thesis by (subst scan_string_loop.simps) simp
  qed
qed

lemma number_goto_get: "number_goto l nt lx = (r, nt', lx') \<Longrightarrow> l \<noteq> number_done \<Longrightarrow> remaining lx' = remaining (get lx)"
  by (cases l) (auto simp: scan_number_minus_def scan_number_zero_def scan_number_any1_def
      scan_number_decimal1_def scan_number_decimal2_def scan_number_exponent_def scan_number_sign_def
      scan_number_any2_def number_fail_def Let_def split: if_split_asm)

lemma number_goto_done: "number_goto l nt lx = (Some number_done, nt', lx') \<Longrightarrow> l \<noteq> number_done \<Longrightarrow> lx' = get lx"
  by (cases l) (auto simp: scan_number_minus_def scan_number_zero_def scan_number_any1_def
      scan_number_decimal1_def scan_number_decimal2_def scan_number_exponent_def scan_number_sign_def
      scan_number_any2_def number_fail_def Let_def split: if_split_asm)

lemma remaining_number_done [simp]: "remaining (snd (scan_number_done C nt lx)) = remaining (unget lx)"
  by (simp add: scan_number_done_def remaining_def Let_def split: option.split)

lemma scan_number_from_le:
  "l \<noteq> number_done \<Longrightarrow> length (remaining (snd (scan_number_from C l nt lx))) \<le> length (remaining lx)"
proof (induction C l nt lx rule: scan_number_from.induct)
  case (1 C l nt lx)
  obtain r nt' lx' where r: "number_goto l nt lx = (r, nt', lx')" by (cases "number_goto l nt lx")
  have le: "length (remaining lx') \<le> length (remaining lx)"
    using number_goto_get [OF r "1.prems"] get_le by metis
  show ?case
  proof (cases r)
    case None
    with r le show ?thesis by (subst scan_number_from.simps) simp
  next
    case (Some l')
    show ?thesis
    proof (cases "l' = number_done")
      case True
      then have "lx' = get lx" using number_goto_done r Some "1.prems" by simp
      with True r Some show ?thesis
        by (subst scan_number_from.simps) (simp add: remaining_unget_get)
    next
      case False
      with "1.IH" r Some le show ?thesis
        by (subst scan_number_from.simps) (fastforce simp del: number_goto.simps)
    qed
  qed
qed

lemma literal_loop_le: "length (remaining (snd (literal_loop cs lx))) \<le> length (remaining lx)"
proof (induction cs arbitrary: lx)
  case (Cons c cs)
  then show ?case using get_le [of lx] by (auto simp: Let_def intro: order_trans)
qed simp

lemma scan_token_le: "scan_token C lx = (t, lx') \<Longrightarrow> length (remaining lx') \<le> length (remaining lx)"
proof -
  have "length (remaining (snd (scan_literal l u lx))) \<le> length (remaining lx)" for l u
    using literal_loop_le [of "tl l" lx] by (auto simp: scan_literal_def split: prod.split bool.split)
  moreover have "length (remaining (snd (scan_string lx))) \<le> length (remaining lx)"
    using scan_string_loop_le [of "reset lx"] by (simp add: scan_string_def)
  moreover have "length (remaining (snd (scan_number C lx))) \<le> length (remaining lx)"
    using scan_number_from_le [of _ C value_unsigned "add_current (reset lx)"] by (simp add: scan_number_def Let_def)
  ultimately show "scan_token C lx = (t, lx') \<Longrightarrow> length (remaining lx') \<le> length (remaining lx)"
    by (auto simp: scan_token_def split: option.split_asm if_split_asm prod.split_asm) (metis snd_conv)+
qed

lemma skip_comments_le:
  "length (remaining (snd (skip_comments lx))) \<le> length (remaining lx)"
proof (induction lx rule: skip_comments.induct)
  case (1 lx)
  obtain b lx' where r: "scan_comment lx = (b, lx')" by (cases "scan_comment lx")
  have "length (remaining (skip_whitespace lx')) \<le> length (remaining lx)"
    using skip_whitespace_le [of lx'] scan_comment_le [OF r] by linarith
  then show ?case using 1 r scan_comment_le [OF r]
    by (subst skip_comments.simps) (fastforce simp: Let_def split: bool.split)
qed

lemma skip_bom_le: "skip_bom lx = (b, lx') \<Longrightarrow> length (remaining lx') \<le> length (remaining lx)"
  using get_le [of lx] get_le [of "get lx"] get_le [of "get (get lx)"] remaining_unget_get [of lx]
  by (auto simp: skip_bom_def Let_def split: if_split_asm)

lemma skip_comments_shrinks:
  assumes "skip_comments lx = (True, lx')" "current lx' = Some c"
  shows "lx' = lx \<or> length (remaining lx') < length (remaining lx)"
  using assms
proof (induction lx arbitrary: lx' rule: skip_comments.induct)
  case (1 lx)
  obtain b lx1 where r: "scan_comment lx = (b, lx1)" by (cases "scan_comment lx")
  show ?case
  proof (cases "ignore_comments lx \<and> current lx = Some (CHR ''/'') \<and> b \<and> current (skip_whitespace lx1) \<noteq> None")
    case True
    then obtain d where d: "current (skip_whitespace lx1) = Some d" by auto
    from True have "skip_comments (skip_whitespace lx1) = (True, lx')"
      using "1.prems"(1) r d by (subst (asm) skip_comments.simps) (simp add: Let_def)
    then have "length (remaining lx') \<le> length (remaining (skip_whitespace lx1))"
      using skip_comments_le [of "skip_whitespace lx1"] by simp
    with comment_blank_shrinks [of lx lx1 d] r True d show ?thesis by simp
  next
    case False
    with "1.prems" r show ?thesis
      by (subst (asm) skip_comments.simps) (auto simp: Let_def split: if_split_asm bool.split_asm)
  qed
qed

lemma scan_token_current:
  "scan_token C lx = (t, lx') \<Longrightarrow> t \<noteq> end_of_input \<Longrightarrow> t \<noteq> parse_error \<Longrightarrow> current lx \<noteq> None"
  by (cases "current lx") (simp_all add: scan_token_def)

lemma scan_progress:
  assumes "scan C lx = (t, lx')"
  shows "length (remaining lx') \<le> length (remaining lx)"
    and "t \<noteq> end_of_input \<Longrightarrow> t \<noteq> parse_error \<Longrightarrow> length (remaining lx') < length (remaining lx)"
proof -
  define lx0 where "lx0 = (if chars_read_total lx = 0 then snd (skip_bom lx) else lx)"
  define lx1 where "lx1 = snd (skip_comments (skip_whitespace lx0))"
  have 0: "length (remaining lx0) \<le> length (remaining lx)"
    by (simp add: lx0_def skip_bom_le [of lx "fst (skip_bom lx)"])
  have 1: "length (remaining lx1) \<le> length (remaining (skip_whitespace lx0))"
    by (simp add: lx1_def skip_comments_le)
  have 2: "length (remaining (skip_whitespace lx0)) \<le> length (remaining lx0)"
    by (rule skip_whitespace_le)
  have cases: "t = parse_error \<and> (remaining lx' = remaining lx0 \<or> remaining lx' = remaining lx1)
      \<or> skip_comments (skip_whitespace lx0) = (True, lx1) \<and> scan_token C lx1 = (t, lx')"
    using assms unfolding scan_def lx0_def lx1_def
    by (auto split: if_split_asm prod.split_asm bool.split_asm)
  show "length (remaining lx') \<le> length (remaining lx)"
    using cases 0 1 2 scan_token_le [of C lx1 t lx'] by auto
  show "length (remaining lx') < length (remaining lx)" if t: "t \<noteq> end_of_input" "t \<noteq> parse_error"
  proof -
    from cases t have s: "skip_comments (skip_whitespace lx0) = (True, lx1)" "scan_token C lx1 = (t, lx')" by auto
    then obtain c where "current lx1 = Some c" using scan_token_current t by blast
    then have "length (remaining lx1) < length (remaining lx0)"
      using skip_comments_shrinks [OF s(1)] skip_whitespace_shrinks [of lx0 c] 2 by auto
    then show ?thesis using scan_token_le [OF s(2)] 0 by linarith
  qed
qed

end
