(* ===== verification/JsonParser.thy ===== *)
theory JsonParser
  imports JsonLexer
begin

text \<open>
  The parser of nlohmann's JSON library (\<^verbatim>\<open>class parser\<close> and \<^verbatim>\<open>json_sax_dom_parser\<close> in
  \<^verbatim>\<open>common-cpp/deps/headers/json.hpp\<close>). The parser keeps no recursion: a stack of Booleans
  says which containers are open, and the loop alternates between reading a value and
  deciding what may follow it. One turn of the loop is \<open>sax_value\<close> followed, unless the code
  says \<^verbatim>\<open>continue\<close>, by \<open>sax_state\<close>. A thrown exception is an \<open>Inl\<close>.

  The handler builds the value. Where the code keeps pointers into the tree that grows, the
  model keeps the open containers themselves on the stack and writes each to its place when
  it is closed.
\<close>

section \<open>Exceptions\<close>

text \<open>A decimal number, as \<^verbatim>\<open>std::to_string\<close> prints it.\<close>

fun to_string :: "nat \<Rightarrow> string" where
  "to_string n = (if n < 10 then '''' else to_string (n div 10)) @ [char_of (0x30 + n mod 10)]"

declare to_string.simps [simp del]

text \<open>The byte counted by a \<^verbatim>\<open>parse_error\<close> and the text \<^verbatim>\<open>what()\<close> returns.\<close>

datatype json_exception =
    ParseErrorAt nat string
  | OutOfRangeError string

definition exception_name :: "string \<Rightarrow> nat \<Rightarrow> string" where
  "exception_name ename exn_id = ''[json.exception.'' @ ename @ ''.'' @ to_string exn_id @ ''] ''"

definition position_string :: "lexer \<Rightarrow> string" where
  "position_string lx =
     '' at line '' @ to_string (lines_read lx + 1) @ '', column '' @ to_string (chars_read_current_line lx)"

definition parse_error_create :: "nat \<Rightarrow> lexer \<Rightarrow> string \<Rightarrow> json_exception" where
  "parse_error_create exn_id lx what_arg =
     ParseErrorAt (chars_read_total lx)
       (exception_name ''parse_error'' exn_id @ ''parse error'' @ position_string lx @ '': '' @ what_arg)"

definition out_of_range_create :: "nat \<Rightarrow> string \<Rightarrow> json_exception" where
  "out_of_range_create exn_id what_arg = OutOfRangeError (exception_name ''out_of_range'' exn_id @ what_arg)"

section \<open>Building the value\<close>

text \<open>
  The members of an object are a \<^verbatim>\<open>std::map\<close> with \<^verbatim>\<open>std::less<>\<close>: ordered by the bytes of
  the key, read as unsigned.
\<close>

fun obj_put :: "string \<Rightarrow> json \<Rightarrow> (string \<times> json) list \<Rightarrow> (string \<times> json) list" where
  "obj_put k v [] = [(k, v)]"
| "obj_put k v ((k', v') # kvs) =
     (if k = k' then (k, v) # kvs
      else if k < k' then (k, v) # (k', v') # kvs
      else (k', v') # obj_put k v kvs)"

text \<open>
  An open array, or an open object with the key of the member \<^verbatim>\<open>object_element\<close> points to.
\<close>

datatype container =
    OpenArray "json list"
  | OpenObject "(string \<times> json) list" "string option"

record json_sax_dom =
  root :: json
  ref_stack :: "container list"

definition handle_value :: "json \<Rightarrow> json_sax_dom \<Rightarrow> json_sax_dom" where
  "handle_value v d =
     (case ref_stack d of
        [] \<Rightarrow> d\<lparr>root := v\<rparr>
      | OpenArray xs # st \<Rightarrow> d\<lparr>ref_stack := OpenArray (xs @ [v]) # st\<rparr>
      | OpenObject kvs (Some k) # st \<Rightarrow> d\<lparr>ref_stack := OpenObject (obj_put k v kvs) (Some k) # st\<rparr>
      | OpenObject kvs None # st \<Rightarrow> d)"

definition start_object :: "json_sax_dom \<Rightarrow> json_sax_dom" where
  "start_object d = d\<lparr>ref_stack := OpenObject [] None # ref_stack d\<rparr>"

definition handle_key :: "string \<Rightarrow> json_sax_dom \<Rightarrow> json_sax_dom" where
  "handle_key k d =
     (case ref_stack d of
        OpenObject kvs _ # st \<Rightarrow>
          d\<lparr>ref_stack := OpenObject (if map_of kvs k = None then obj_put k JNull kvs else kvs) (Some k) # st\<rparr>
      | _ \<Rightarrow> d)"

definition start_array :: "json_sax_dom \<Rightarrow> json_sax_dom" where
  "start_array d = d\<lparr>ref_stack := OpenArray [] # ref_stack d\<rparr>"

definition end_container :: "json_sax_dom \<Rightarrow> json_sax_dom" where
  "end_container d =
     (case ref_stack d of
        [] \<Rightarrow> d
      | OpenArray xs # st \<Rightarrow> handle_value (JArr xs) (d\<lparr>ref_stack := st\<rparr>)
      | OpenObject kvs _ # st \<Rightarrow> handle_value (JObj kvs) (d\<lparr>ref_stack := st\<rparr>))"

section \<open>The parser\<close>

record parser =
  last_token :: token_type
  m_lexer :: lexer

definition get_token :: "c_library \<Rightarrow> parser \<Rightarrow> parser" where
  "get_token C p = (case scan C (m_lexer p) of (t, lx) \<Rightarrow> \<lparr>last_token = t, m_lexer = lx\<rparr>)"

definition parser_new :: "c_library \<Rightarrow> bool \<Rightarrow> string \<Rightarrow> parser" where
  "parser_new C ignoring txt =
     get_token C \<lparr>last_token = uninitialized, m_lexer = lexer_new C ignoring txt\<rparr>"

definition exception_message :: "token_type \<Rightarrow> string \<Rightarrow> parser \<Rightarrow> string" where
  "exception_message expected ctxt p =
     ''syntax error '' @ (if ctxt \<noteq> '''' then ''while parsing '' @ ctxt @ '' '' else '''') @ ''- '' @
     (if last_token p = parse_error
      then error_message (m_lexer p) @ ''; last read: '' @ [CHR 0x27] @ get_token_string (m_lexer p) @ [CHR 0x27]
      else ''unexpected '' @ token_type_name (last_token p)) @
     (if expected \<noteq> uninitialized then ''; expected '' @ token_type_name expected else '''')"

definition syntax_error :: "token_type \<Rightarrow> string \<Rightarrow> parser \<Rightarrow> json_exception" where
  "syntax_error expected ctxt p =
     parse_error_create 101 (m_lexer p) (exception_message expected ctxt p)"

type_synonym sax_state = "parser \<times> json_sax_dom \<times> bool list"

text \<open>A key, the colon after it and the first token of its value.\<close>

definition sax_key :: "c_library \<Rightarrow> parser \<Rightarrow> json_sax_dom \<Rightarrow> json_exception + parser \<times> json_sax_dom" where
  "sax_key C p d =
     (if last_token p \<noteq> value_string then Inl (syntax_error value_string ''object key'' p)
      else
        let d = handle_key (token_buffer (m_lexer p)) d; p = get_token C p
        in if last_token p \<noteq> name_separator
           then Inl (syntax_error name_separator ''object separator'' p)
           else Inr (get_token C p, d))"

text \<open>
  The \<^verbatim>\<open>switch\<close> on the last token. The Boolean is True when the code goes on with the next
  turn of the loop, False when it has read a whole value.
\<close>

definition sax_value :: "c_library \<Rightarrow> sax_state \<Rightarrow> json_exception + bool \<times> sax_state" where
  "sax_value C = (\<lambda>(p, d, states).
     (let done = (\<lambda>v. Inr (False, p, handle_value v d, states)) in
      case last_token p of
        begin_object \<Rightarrow>
          let d = start_object d; p = get_token C p
          in if last_token p = end_object then Inr (False, p, end_container d, states)
             else bind_err (sax_key C p d) (\<lambda>(p, d). Inr (True, p, d, False # states))
      | begin_array \<Rightarrow>
          let d = start_array d; p = get_token C p
          in if last_token p = end_array then Inr (False, p, end_container d, states)
             else Inr (True, p, d, True # states)
      | value_float \<Rightarrow>
          (case lex_float (m_lexer p) of
             None \<Rightarrow> Inl (out_of_range_create 406
                       (''number overflow parsing '' @ [CHR 0x27] @ get_token_string (m_lexer p) @ [CHR 0x27]))
           | Some q \<Rightarrow> done (JFloat q))
      | literal_false \<Rightarrow> done (JBool False)
      | literal_null \<Rightarrow> done JNull
      | literal_true \<Rightarrow> done (JBool True)
      | value_integer \<Rightarrow> done (JInt (lex_integer (m_lexer p)))
      | value_string \<Rightarrow> done (JStr (token_buffer (m_lexer p)))
      | value_unsigned \<Rightarrow> done (JInt (lex_unsigned (m_lexer p)))
      | parse_error \<Rightarrow> Inl (syntax_error uninitialized ''value'' p)
      | end_of_input \<Rightarrow>
          if chars_read_total (m_lexer p) = 1
          then Inl (parse_error_create 101 (m_lexer p)
                 ''attempting to parse an empty input; check that your input string or stream contains the expected JSON'')
          else Inl (syntax_error literal_or_value ''value'' p)
      | _ \<Rightarrow> Inl (syntax_error literal_or_value ''value'' p)))"

text \<open>What may follow a value in the innermost open container; the Boolean is
  \<^verbatim>\<open>skip_to_state_evaluation\<close>.\<close>

definition sax_state :: "c_library \<Rightarrow> sax_state \<Rightarrow> json_exception + bool \<times> sax_state" where
  "sax_state C = (\<lambda>(p, d, states).
     (let p = get_token C p in
      if hd states then
        if last_token p = value_separator then Inr (False, get_token C p, d, states)
        else if last_token p = end_array then Inr (True, p, end_container d, tl states)
        else Inl (syntax_error end_array ''array'' p)
      else
        if last_token p = value_separator then
          bind_err (sax_key C (get_token C p) d) (\<lambda>(p, d). Inr (False, p, d, states))
        else if last_token p = end_object then Inr (True, p, end_container d, tl states)
        else Inl (syntax_error end_object ''object'' p)))"

section \<open>Termination\<close>

definition token_ends :: "token_type \<Rightarrow> bool" where
  "token_ends t \<longleftrightarrow> t = end_of_input \<or> t = parse_error"

definition fuel_of :: "parser \<Rightarrow> nat" where
  "fuel_of p = 2 * length (remaining (m_lexer p)) + (if token_ends (last_token p) then 0 else 1)"

lemma get_token_fuel: "fuel_of (get_token C p) \<le> 2 * length (remaining (m_lexer p))"
proof -
  obtain t lx where s: "scan C (m_lexer p) = (t, lx)" by (cases "scan C (m_lexer p)")
  then show ?thesis
    using scan_progress [OF s] by (cases "token_ends t") (auto simp: get_token_def fuel_of_def token_ends_def)
qed

lemma get_token_taken:
  "\<not> token_ends (last_token (get_token C p)) \<Longrightarrow>
   length (remaining (m_lexer (get_token C p))) < length (remaining (m_lexer p))"
  using get_token_fuel [of C p] by (simp add: fuel_of_def)

lemma sax_key_fuel:
  "sax_key C p d = Inr (p', d') \<Longrightarrow> fuel_of p' < fuel_of p"
  using get_token_taken [of C p] get_token_fuel [of C "get_token C p"]
  by (auto simp: sax_key_def Let_def fuel_of_def token_ends_def split: if_split_asm)

lemma sax_state_fuel:
  assumes "sax_state C (p, d, states) = Inr (skip, st)"
  shows "fuel_of (fst st) < fuel_of p"
proof -
  obtain p' d' states' where st: "st = (p', d', states')" by (rule prod_cases3)
  let ?p = "get_token C p"
  have t: "\<not> token_ends (last_token ?p)"
    using assms by (auto simp: sax_state_def Let_def token_ends_def split: if_split_asm)
  have "p' = ?p \<or> p' = get_token C ?p \<or> (\<exists>d d'. sax_key C (get_token C ?p) d = Inr (p', d'))"
    using assms by (auto simp: st sax_state_def Let_def bind_err_Inr split: if_split_asm)
  moreover have "fuel_of ?p \<le> 2 * length (remaining (m_lexer ?p)) + 1"
    by (simp add: fuel_of_def)
  ultimately have "fuel_of p' \<le> 2 * length (remaining (m_lexer ?p)) + 1"
    using get_token_fuel [of C ?p] by (auto dest: sax_key_fuel)
  also have "\<dots> < fuel_of p"
    using get_token_taken [OF t] by (simp add: fuel_of_def)
  finally show ?thesis by (simp add: st)
qed

lemma sax_value_fuel:
  assumes "sax_value C (p, d, states) = Inr (again, p', d', states')"
  shows "fuel_of p' \<le> fuel_of p" and "again \<Longrightarrow> fuel_of p' < fuel_of p"
proof -
  let ?p = "get_token C p"
  have cases: "\<not> again \<and> p' = p \<or> \<not> token_ends (last_token p) \<and>
      (p' = ?p \<or> again \<and> (\<exists>d. sax_key C ?p d = Inr (p', d')))"
    using assms
    by (auto simp: sax_value_def Let_def bind_err_Inr token_ends_def
        split: token_type.split_asm option.split_asm if_split_asm)
  have "fuel_of ?p < fuel_of p" if "\<not> token_ends (last_token p)"
    using that get_token_fuel [of C p] by (simp add: fuel_of_def)
  with cases show "fuel_of p' \<le> fuel_of p" "again \<Longrightarrow> fuel_of p' < fuel_of p"
    by (auto dest: sax_key_fuel)
qed

text \<open>
  The loop. \<open>skip\<close> is \<^verbatim>\<open>skip_to_state_evaluation\<close>; the turn without it reads a value first.
\<close>

definition sax_turn :: "c_library \<Rightarrow> bool \<Rightarrow> sax_state \<Rightarrow> json_exception + bool \<times> sax_state" where
  "sax_turn C skip st = (if skip then Inr (False, st) else sax_value C st)"

lemma sax_turn_fuel:
  assumes "sax_turn C skip st = Inr (again, st')"
  shows "fuel_of (fst st') \<le> fuel_of (fst st)" and "again \<Longrightarrow> fuel_of (fst st') < fuel_of (fst st)"
  using assms sax_value_fuel [of C "fst st" "fst (snd st)" "snd (snd st)" again "fst st'" "fst (snd st')" "snd (snd st')"]
  by (auto simp: sax_turn_def split: if_split_asm)

function sax_loop :: "c_library \<Rightarrow> bool \<Rightarrow> sax_state \<Rightarrow> json_exception + parser \<times> json_sax_dom" where
  "sax_loop C skip st =
     (case sax_turn C skip st of
        Inl e \<Rightarrow> Inl e
      | Inr (True, st') \<Rightarrow> sax_loop C False st'
      | Inr (False, (p, d, states)) \<Rightarrow>
          if states = [] then Inr (p, d)
          else
            (case sax_state C (p, d, states) of
               Inl e \<Rightarrow> Inl e
             | Inr (skip', st'') \<Rightarrow> sax_loop C skip' st''))"
  by pat_completeness auto

termination
proof (relation "measure (\<lambda>(C, skip, st). fuel_of (fst st))", goal_cases)
  case 1
  show ?case by simp
next
  case (2 C skip st)
  then show ?case by (auto dest: sax_turn_fuel(2))
next
  case (3 C skip st)
  then show ?case by (auto dest!: sax_turn_fuel(1) sax_state_fuel)
qed

declare sax_loop.simps [simp del]

definition sax_parse_internal :: "c_library \<Rightarrow> parser \<Rightarrow> json_exception + parser \<times> json_sax_dom" where
  "sax_parse_internal C p = sax_loop C False (p, \<lparr>root = JNull, ref_stack = []\<rparr>, [])"

text \<open>\<^verbatim>\<open>parser::parse\<close> without a callback and with exceptions.\<close>

definition parser_parse :: "c_library \<Rightarrow> bool \<Rightarrow> parser \<Rightarrow> json_exception + json" where
  "parser_parse C strict p =
     bind_err (sax_parse_internal C p) (\<lambda>(p, d).
       if strict \<and> last_token (get_token C p) \<noteq> end_of_input
       then Inl (syntax_error end_of_input ''value'' (get_token C p))
       else Inr (root d))"

text \<open>\<^verbatim>\<open>json::parse\<close> and \<^verbatim>\<open>stream >> json\<close>.\<close>

definition parse :: "c_library \<Rightarrow> string \<Rightarrow> json_exception + json" where
  "parse C txt = parser_parse C True (parser_new C False txt)"

definition parse_stream :: "c_library \<Rightarrow> string \<Rightarrow> json_exception + json" where
  "parse_stream C txt = parser_parse C False (parser_new C False txt)"

end
