(* ===== verification/JsonPrinter.thy ===== *)
theory JsonPrinter
  imports JsonParser
begin

text \<open>
  The printer of nlohmann's JSON library (\<^verbatim>\<open>class serializer\<close> in
  \<^verbatim>\<open>common-cpp/deps/headers/json.hpp\<close>): the UTF-8 automaton, the escaping of strings through
  a buffer of 512 bytes, integers in pairs of digits, and the layout of arrays and objects,
  compact or indented. A thrown \<^verbatim>\<open>type_error\<close> is an \<open>Inl\<close>. The text of a floating-point
  number (the Grisu2 code of the library) is a parameter.
\<close>

section \<open>The UTF-8 automaton\<close>

definition utf8d :: "nat list" where
  "utf8d =
     [0,0,0,0,0,0,0,0,0,0,0,0,0,0,0,0,0,0,0,0,0,0,0,0,0,0,0,0,0,0,0,0,
      0,0,0,0,0,0,0,0,0,0,0,0,0,0,0,0,0,0,0,0,0,0,0,0,0,0,0,0,0,0,0,0,
      0,0,0,0,0,0,0,0,0,0,0,0,0,0,0,0,0,0,0,0,0,0,0,0,0,0,0,0,0,0,0,0,
      0,0,0,0,0,0,0,0,0,0,0,0,0,0,0,0,0,0,0,0,0,0,0,0,0,0,0,0,0,0,0,0,
      1,1,1,1,1,1,1,1,1,1,1,1,1,1,1,1,9,9,9,9,9,9,9,9,9,9,9,9,9,9,9,9,
      7,7,7,7,7,7,7,7,7,7,7,7,7,7,7,7,7,7,7,7,7,7,7,7,7,7,7,7,7,7,7,7,
      8,8,2,2,2,2,2,2,2,2,2,2,2,2,2,2,2,2,2,2,2,2,2,2,2,2,2,2,2,2,2,2,
      10,3,3,3,3,3,3,3,3,3,3,3,3,4,3,3,11,6,6,6,5,8,8,8,8,8,8,8,8,8,8,8,
      0,1,2,3,5,8,7,1,1,1,4,6,1,1,1,1,1,1,1,1,1,1,1,1,1,1,1,1,1,1,1,1,
      1,0,1,1,1,1,1,0,1,0,1,1,1,1,1,1,1,2,1,1,1,1,1,2,1,2,1,1,1,1,1,1,
      1,1,1,1,1,1,1,2,1,1,1,1,1,1,1,1,1,2,1,1,1,1,1,1,1,2,1,1,1,1,1,1,
      1,1,1,1,1,1,1,3,1,3,1,1,1,1,1,1,1,3,1,1,1,1,1,3,1,3,1,1,1,1,1,1,
      1,3,1,1,1,1,1,1,1,1,1,1,1,1,1,1]"

definition UTF8_ACCEPT :: nat where "UTF8_ACCEPT = 0"
definition UTF8_REJECT :: nat where "UTF8_REJECT = 1"

text \<open>The state and the code point after one more byte.\<close>

definition decode :: "nat \<times> int \<Rightarrow> int \<Rightarrow> nat \<times> int" where
  "decode = (\<lambda>(state, codep) byte.
     (let type = utf8d ! nat byte;
          codep = (if state \<noteq> UTF8_ACCEPT then (byte AND 0x3F) OR push_bit 6 codep
                   else drop_bit type 0xFF AND byte)
      in (utf8d ! (256 + state * 16 + type), codep)))"

section \<open>Strings\<close>

datatype error_handler_t = strict | replace | ignore

record dump_options =
  pretty_print :: bool
  ensure_ascii :: bool
  indent_step :: nat
  error_handler :: error_handler_t

text \<open>
  \<open>string_buffer\<close> holds the \<^verbatim>\<open>bytes\<close> characters written to the buffer so far, \<open>dumped\<close> what
  has gone to the output.
\<close>

record escaper =
  dumped :: string
  string_buffer :: string
  bytes_after_last_accept :: nat
  undumped_chars :: nat
  utf8_state :: nat
  codepoint :: int

definition string_buffer_size :: nat where "string_buffer_size = 512"

definition hex_lower :: "int \<Rightarrow> char" where
  "hex_lower d = ''0123456789abcdef'' ! nat d"

text \<open>\<^verbatim>\<open>%04x\<close> of a 16-bit value.\<close>

definition hex4 :: "int \<Rightarrow> string" where
  "hex4 n = [hex_lower (n div 4096 mod 16), hex_lower (n div 256 mod 16),
             hex_lower (n div 16 mod 16), hex_lower (n mod 16)]"

definition hex_bytes :: "int \<Rightarrow> string" where
  "hex_bytes byte = [hex_upper (byte div 16), hex_upper (byte mod 16)]"

definition type_error_316 :: "string \<Rightarrow> string" where
  "type_error_316 what_arg = exception_name ''type_error'' 316 @ what_arg"

text \<open>The characters an accepted code point adds to the buffer; \<open>c\<close> is its last byte.\<close>

definition escape_codepoint :: "bool \<Rightarrow> int \<Rightarrow> char \<Rightarrow> string" where
  "escape_codepoint ascii cp c =
     (if cp = 0x08 then [backslash, CHR ''b'']
      else if cp = 0x09 then [backslash, CHR ''t'']
      else if cp = 0x0A then [backslash, CHR ''n'']
      else if cp = 0x0C then [backslash, CHR ''f'']
      else if cp = 0x0D then [backslash, CHR ''r'']
      else if cp = 0x22 then [backslash, quote]
      else if cp = 0x5C then [backslash, backslash]
      else if cp \<le> 0x1F \<or> ascii \<and> 0x7F \<le> cp then
        if cp \<le> 0xFFFF then [backslash, CHR ''u''] @ hex4 cp
        else [backslash, CHR ''u''] @ hex4 (0xD7C0 + drop_bit 10 cp) @
             [backslash, CHR ''u''] @ hex4 (0xDC00 + (cp AND 0x3FF))
      else [c])"

text \<open>Thirteen bytes must stay free in the buffer, the most one code point writes.\<close>

definition flush_if_full :: "escaper \<Rightarrow> escaper" where
  "flush_if_full e =
     (if string_buffer_size - length (string_buffer e) < 13
      then e\<lparr>dumped := dumped e @ string_buffer e, string_buffer := ''''\<rparr> else e)"

definition dump_accept :: "bool \<Rightarrow> char \<Rightarrow> escaper \<Rightarrow> escaper" where
  "dump_accept ascii c e =
     (let e = flush_if_full (e\<lparr>string_buffer := string_buffer e @ escape_codepoint ascii (codepoint e) c\<rparr>)
      in e\<lparr>bytes_after_last_accept := length (string_buffer e), undumped_chars := 0\<rparr>)"

definition replacement :: "bool \<Rightarrow> string" where
  "replacement ascii =
     (if ascii then [backslash] @ ''ufffd'' else [CHR 0xEF, CHR 0xBF, CHR 0xBD])"

text \<open>
  An ill-formed byte under the handlers that do not throw: what was not accepted is dropped
  from the buffer; the Boolean says that the byte is to be read again.
\<close>

definition dump_reject :: "dump_options \<Rightarrow> escaper \<Rightarrow> bool \<times> escaper" where
  "dump_reject opts e =
     (let again = undumped_chars e > 0;
          e = e\<lparr>string_buffer := take (bytes_after_last_accept e) (string_buffer e)\<rparr>;
          e = (if error_handler opts = replace then
                 let e = flush_if_full (e\<lparr>string_buffer := string_buffer e @ replacement (ensure_ascii opts)\<rparr>)
                 in e\<lparr>bytes_after_last_accept := length (string_buffer e)\<rparr>
               else e)
      in (again, e\<lparr>undumped_chars := 0, utf8_state := UTF8_ACCEPT\<rparr>))"

text \<open>One turn of the loop over the bytes of the string.\<close>

definition dump_byte :: "dump_options \<Rightarrow> nat \<Rightarrow> char \<Rightarrow> escaper \<Rightarrow> string + bool \<times> escaper" where
  "dump_byte opts i c e =
     (let (state, cp) = decode (utf8_state e, codepoint e) (code c);
          e = e\<lparr>utf8_state := state, codepoint := cp\<rparr>
      in if state = UTF8_ACCEPT then Inr (False, dump_accept (ensure_ascii opts) c e)
         else if state = UTF8_REJECT then
           (if error_handler opts = strict
            then Inl (type_error_316 (''invalid UTF-8 byte at index '' @ to_string i @ '': 0x'' @ hex_bytes (code c)))
            else Inr (dump_reject opts e))
         else
           Inr (False, e\<lparr>string_buffer := (if ensure_ascii opts then string_buffer e else string_buffer e @ [c]),
                         undumped_chars := undumped_chars e + 1\<rparr>))"

lemma dump_byte_again:
  "dump_byte opts i c e = Inr (True, e') \<Longrightarrow> undumped_chars e > 0 \<and> undumped_chars e' = 0"
  by (auto simp: dump_byte_def dump_reject_def Let_def split: prod.split_asm if_split_asm)

function dump_loop :: "dump_options \<Rightarrow> nat \<Rightarrow> string \<Rightarrow> escaper \<Rightarrow> string + escaper" where
  "dump_loop opts i [] e = Inr e"
| "dump_loop opts i (c # cs) e =
     (case dump_byte opts i c e of
        Inl msg \<Rightarrow> Inl msg
      | Inr (True, e') \<Rightarrow> dump_loop opts i (c # cs) e'
      | Inr (False, e') \<Rightarrow> dump_loop opts (i + 1) cs e')"
  by pat_completeness auto

termination
  by (relation "measures [\<lambda>(opts, i, s, e). length s, \<lambda>(opts, i, s, e). undumped_chars e]")
     (auto dest: dump_byte_again)

declare dump_loop.simps(2) [simp del]

definition escaper_new :: escaper where
  "escaper_new = \<lparr>dumped = '''', string_buffer = '''', bytes_after_last_accept = 0, undumped_chars = 0,
                  utf8_state = UTF8_ACCEPT, codepoint = 0\<rparr>"

text \<open>After the last byte: the rest of the buffer, or an incomplete code point.\<close>

definition dump_finish :: "dump_options \<Rightarrow> string \<Rightarrow> escaper \<Rightarrow> string + string" where
  "dump_finish opts s e =
     (if utf8_state e = UTF8_ACCEPT then Inr (dumped e @ string_buffer e)
      else
        (case error_handler opts of
           strict \<Rightarrow> Inl (type_error_316 (''incomplete UTF-8 string; last byte: 0x'' @ hex_bytes (code (last s))))
         | ignore \<Rightarrow> Inr (dumped e @ take (bytes_after_last_accept e) (string_buffer e))
         | replace \<Rightarrow> Inr (dumped e @ take (bytes_after_last_accept e) (string_buffer e) @
                          replacement (ensure_ascii opts))))"

definition dump_escaped :: "dump_options \<Rightarrow> string \<Rightarrow> string + string" where
  "dump_escaped opts s = bind_err (dump_loop opts 0 s escaper_new) (dump_finish opts s)"

section \<open>Integers\<close>

function count_digits_loop :: "int \<Rightarrow> nat \<Rightarrow> nat" where
  "count_digits_loop x n_digits =
     (if x < 10 then n_digits
      else if x < 100 then n_digits + 1
      else if x < 1000 then n_digits + 2
      else if x < 10000 then n_digits + 3
      else count_digits_loop (x div 10000) (n_digits + 4))"
  by pat_completeness auto

termination
  by (relation "measure (\<lambda>(x, n). nat x)") auto

declare count_digits_loop.simps [simp del]

definition count_digits :: "int \<Rightarrow> nat" where
  "count_digits x = count_digits_loop x 1"

definition remove_sign :: "int \<Rightarrow> int" where
  "remove_sign x = - (x + 1) + 1"

text \<open>The two digits of a number below 100.\<close>

definition digits_to_99 :: "int \<Rightarrow> char \<times> char" where
  "digits_to_99 n = (char_of (0x30 + n div 10), char_of (0x30 + n mod 10))"

text \<open>The digits are written from the end of the number towards its front.\<close>

function fill_digits :: "int \<Rightarrow> nat \<Rightarrow> string \<Rightarrow> string" where
  "fill_digits abs_value buffer_ptr buffer =
     (if 100 \<le> abs_value then
        (let (d0, d1) = digits_to_99 (abs_value mod 100)
         in fill_digits (abs_value div 100) (buffer_ptr - 2) (buffer[buffer_ptr - 1 := d1, buffer_ptr - 2 := d0]))
      else if 10 \<le> abs_value then
        (let (d0, d1) = digits_to_99 abs_value in buffer[buffer_ptr - 1 := d1, buffer_ptr - 2 := d0])
      else buffer[buffer_ptr - 1 := char_of (0x30 + abs_value)])"
  by pat_completeness auto

termination
  by (relation "measure (\<lambda>(x, p, b). nat x)") auto

declare fill_digits.simps [simp del]

text \<open>\<open>buffer\<close> is \<^verbatim>\<open>number_buffer\<close>, 64 characters with whatever the last number left in it.\<close>

definition dump_integer :: "string \<Rightarrow> int \<Rightarrow> string" where
  "dump_integer buffer x =
     (if x = 0 then ''0''
      else if x < 0 then
        let abs_value = remove_sign x; n_chars = 1 + count_digits abs_value
        in take n_chars (fill_digits abs_value n_chars (buffer[0 := CHR ''-'']))
      else let n_chars = count_digits x in take n_chars (fill_digits x n_chars buffer))"

definition number_buffer :: string where
  "number_buffer = replicate 64 (CHR 0x00)"

section \<open>Values\<close>

text \<open>
  What can go wrong: the \<^verbatim>\<open>type_error\<close> of a string, and a read past the end of
  \<^verbatim>\<open>indent_string\<close>, which is doubled at most once per level.
\<close>

datatype dump_error = DumpTypeError string | IndentOverrun

definition write_indent :: "string \<Rightarrow> nat \<Rightarrow> dump_error + string" where
  "write_indent indent_string n =
     (if n \<le> length indent_string then Inr (take n indent_string) else Inl IndentOverrun)"

definition grow_indent :: "string \<Rightarrow> nat \<Rightarrow> string" where
  "grow_indent indent_string new_indent =
     (if length indent_string < new_indent
      then indent_string @ replicate (length indent_string) (CHR '' '') else indent_string)"

definition write_escaped :: "dump_options \<Rightarrow> string \<Rightarrow> dump_error + string" where
  "write_escaped opts s = (case dump_escaped opts s of Inl msg \<Rightarrow> Inl (DumpTypeError msg) | Inr t \<Rightarrow> Inr t)"

abbreviation newline :: char where "newline \<equiv> CHR 0x0A"

text \<open>
  \<open>F\<close> is the text of a floating-point number. The result is the text written and
  \<^verbatim>\<open>indent_string\<close>, which the levels below may have grown.
\<close>

fun dump :: "(rat \<Rightarrow> string) \<Rightarrow> dump_options \<Rightarrow> nat \<Rightarrow> string \<Rightarrow> json \<Rightarrow> dump_error + string \<times> string"
  and dump_object :: "(rat \<Rightarrow> string) \<Rightarrow> dump_options \<Rightarrow> nat \<Rightarrow> string \<Rightarrow> (string \<times> json) list \<Rightarrow> dump_error + string \<times> string"
  and dump_array :: "(rat \<Rightarrow> string) \<Rightarrow> dump_options \<Rightarrow> nat \<Rightarrow> string \<Rightarrow> json list \<Rightarrow> dump_error + string \<times> string"
where
  "dump F opts current_indent ind (JObj kvs) =
     (if kvs = [] then Inr (''{}'', ind)
      else if pretty_print opts then
        let new_indent = (current_indent + indent_step opts) mod 2 ^ 32;
            ind = grow_indent ind new_indent
        in bind_err (dump_object F opts new_indent ind kvs) (\<lambda>(txt, ind).
           bind_err (write_indent ind current_indent) (\<lambda>pad.
             Inr (''{'' @ [newline] @ txt @ [newline] @ pad @ ''}'', ind)))
      else
        bind_err (dump_object F opts current_indent ind kvs) (\<lambda>(txt, ind). Inr (''{'' @ txt @ ''}'', ind)))"
| "dump F opts current_indent ind (JArr xs) =
     (if xs = [] then Inr (''[]'', ind)
      else if pretty_print opts then
        let new_indent = (current_indent + indent_step opts) mod 2 ^ 32;
            ind = grow_indent ind new_indent
        in bind_err (dump_array F opts new_indent ind xs) (\<lambda>(txt, ind).
           bind_err (write_indent ind current_indent) (\<lambda>pad.
             Inr (''['' @ [newline] @ txt @ [newline] @ pad @ '']'', ind)))
      else
        bind_err (dump_array F opts current_indent ind xs) (\<lambda>(txt, ind). Inr (''['' @ txt @ '']'', ind)))"
| "dump F opts current_indent ind (JStr s) =
     bind_err (write_escaped opts s) (\<lambda>txt. Inr ([quote] @ txt @ [quote], ind))"
| "dump F opts current_indent ind (JBool b) = Inr (if b then ''true'' else ''false'', ind)"
| "dump F opts current_indent ind (JInt n) = Inr (dump_integer number_buffer n, ind)"
| "dump F opts current_indent ind (JFloat q) = Inr (F q, ind)"
| "dump F opts current_indent ind JNull = Inr (''null'', ind)"
| "dump_object F opts indent ind [] = Inr ('''', ind)"
| "dump_object F opts indent ind ((k, v) # kvs) =
     bind_err (if pretty_print opts then write_indent ind indent else Inr '''') (\<lambda>pad.
     bind_err (write_escaped opts k) (\<lambda>name.
     bind_err (dump F opts indent ind v) (\<lambda>(txt, ind).
       (let member = pad @ [quote] @ name @ [quote] @ (if pretty_print opts then '': '' else '':'') @ txt
        in if kvs = [] then Inr (member, ind)
           else bind_err (dump_object F opts indent ind kvs) (\<lambda>(rest, ind).
             Inr (member @ (if pretty_print opts then '','' @ [newline] else '','') @ rest, ind))))))"
| "dump_array F opts indent ind [] = Inr ('''', ind)"
| "dump_array F opts indent ind (v # xs) =
     bind_err (if pretty_print opts then write_indent ind indent else Inr '''') (\<lambda>pad.
     bind_err (dump F opts indent ind v) (\<lambda>(txt, ind).
       if xs = [] then Inr (pad @ txt, ind)
       else bind_err (dump_array F opts indent ind xs) (\<lambda>(rest, ind).
         Inr (pad @ txt @ (if pretty_print opts then '','' @ [newline] else '','') @ rest, ind))))"

text \<open>\<^verbatim>\<open>basic_json::dump\<close>; the code calls it with the default arguments.\<close>

definition basic_json_dump ::
  "(rat \<Rightarrow> string) \<Rightarrow> int \<Rightarrow> char \<Rightarrow> bool \<Rightarrow> error_handler_t \<Rightarrow> json \<Rightarrow> dump_error + string" where
  "basic_json_dump F indent indent_chr ascii handler j =
     bind_err
       (dump F \<lparr>pretty_print = 0 \<le> indent, ensure_ascii = ascii,
               indent_step = (if 0 \<le> indent then nat indent else 0), error_handler = handler\<rparr>
          0 (replicate 512 indent_chr) j)
       (\<lambda>(txt, _). Inr txt)"

definition dump_text :: "(rat \<Rightarrow> string) \<Rightarrow> json \<Rightarrow> dump_error + string" where
  "dump_text F j = basic_json_dump F (-1) (CHR '' '') False strict j"

end
