(* ===== verification/JsonUtf8.thy ===== *)
theory JsonUtf8
  imports JsonPrinter
begin

text \<open>
  Well-formed UTF-8 as the lexer's byte ranges define it, and what the printer's automaton
  and the lexer do on it: the automaton accepts exactly the well-formed strings, and the
  lexer reads an escaped string back.
\<close>

section \<open>Well-formed strings\<close>

fun take_ranges :: "(int \<times> int) list \<Rightarrow> string \<Rightarrow> string option" where
  "take_ranges [] cs = Some cs"
| "take_ranges (r # rs) [] = None"
| "take_ranges ((lo, hi) # rs) (c # cs) = (if lo \<le> code c \<and> code c \<le> hi then take_ranges rs cs else None)"

lemma take_ranges_length: "take_ranges rs cs = Some cs' \<Longrightarrow> length cs' \<le> length cs"
  by (induction rs cs rule: take_ranges.induct) (auto split: if_split_asm)

definition lead_ranges :: "char \<Rightarrow> (int \<times> int) list option" where
  "lead_ranges c = (if code c \<le> 0x7F then Some [] else utf8_ranges (code c))"

function valid_utf8 :: "string \<Rightarrow> bool" where
  "valid_utf8 [] = True"
| "valid_utf8 (c # cs) =
     (case Option.bind (lead_ranges c) (\<lambda>rs. take_ranges rs cs) of None \<Rightarrow> False | Some cs' \<Rightarrow> valid_utf8 cs')"
  by pat_completeness auto

termination
  by (relation "measure length") (auto simp: bind_eq_Some_conv dest!: take_ranges_length)

section \<open>The automaton\<close>

text \<open>The class of a byte and the moves between the states of the automaton.\<close>

definition byte_class :: "int \<Rightarrow> nat" where
  "byte_class b =
     (if b \<le> 0x7F then 0 else if b \<le> 0x8F then 1 else if b \<le> 0x9F then 9 else if b \<le> 0xBF then 7
      else if b \<le> 0xC1 then 8 else if b \<le> 0xDF then 2 else if b = 0xE0 then 10
      else if b = 0xED then 4 else if b \<le> 0xEF then 3 else if b = 0xF0 then 11
      else if b \<le> 0xF3 then 6 else if b = 0xF4 then 5 else 8)"

lemma utf8d_classes: "list_all (\<lambda>b. utf8d ! nat b = byte_class b) (upto 0 255)"
  by code_simp

lemma code_bounds: "0 \<le> code c" "code c \<le> 255"
proof -
  have "code c = int (of_char c)" by (simp only: of_nat_of_char)
  with of_char_less [of c] show "0 \<le> code c" "code c \<le> 255" by linarith+
qed

lemma code_in: "code c \<in> set (upto 0 255)"
  using code_bounds [of c] by simp

lemma utf8d_class: "utf8d ! nat (code c) = byte_class (code c)"
  using utf8d_classes code_in [of c] unfolding list_all_iff by blast

text \<open>The continuation bytes a state waits for.\<close>

definition pending :: "nat \<Rightarrow> (int \<times> int) list" where
  "pending s =
     (if s = 2 then [(0x80, 0xBF)]
      else if s = 3 then [(0x80, 0xBF), (0x80, 0xBF)]
      else if s = 4 then [(0xA0, 0xBF), (0x80, 0xBF)]
      else if s = 5 then [(0x80, 0x9F), (0x80, 0xBF)]
      else if s = 6 then [(0x90, 0xBF), (0x80, 0xBF), (0x80, 0xBF)]
      else if s = 7 then [(0x80, 0xBF), (0x80, 0xBF), (0x80, 0xBF)]
      else if s = 8 then [(0x80, 0x8F), (0x80, 0xBF), (0x80, 0xBF)]
      else [])"

definition next_state :: "nat \<Rightarrow> nat \<Rightarrow> nat" where
  "next_state s t =
     (if s = 2 \<and> t \<in> {1, 7, 9} then 0
      else if s = 3 \<and> t \<in> {1, 7, 9} then 2
      else if s = 4 \<and> t = 7 then 2
      else if s = 5 \<and> t \<in> {1, 9} then 2
      else if s = 6 \<and> t \<in> {7, 9} then 3
      else if s = 7 \<and> t \<in> {1, 7, 9} then 3
      else if s = 8 \<and> t = 1 then 3
      else 1)"

lemma utf8d_next: "list_all (\<lambda>s. list_all (\<lambda>t. utf8d ! (256 + s * 16 + t) = next_state s t) [0..<12]) [2..<9]"
  by code_simp

text \<open>
  A lower bound on the bits collected so far: a code point of several bytes is never one of
  the characters that are escaped.
\<close>

definition collected :: "nat \<Rightarrow> int" where
  "collected s = (if s = 2 then 2 else if s = 3 \<or> s = 5 \<or> s = 7 \<or> s = 8 then 1 else 0)"

definition lead_step_ok :: "int \<Rightarrow> bool" where
  "lead_step_ok b =
     (case decode (UTF8_ACCEPT, 0) b of (s, cp) \<Rightarrow>
        if b \<le> 0x7F then s = UTF8_ACCEPT \<and> cp = b
        else (case utf8_ranges b of
                None \<Rightarrow> s = UTF8_REJECT
              | Some rs \<Rightarrow> 2 \<le> s \<and> s \<le> 8 \<and> pending s = rs \<and> rs \<noteq> [] \<and> collected s \<le> cp))"

lemma lead_steps: "list_all lead_step_ok (upto 0 255)"
  by code_simp

definition next_step_ok :: "nat \<Rightarrow> int \<Rightarrow> bool" where
  "next_step_ok s b =
     (let s' = next_state s (byte_class b); (lo, hi) = hd (pending s); rs = tl (pending s)
      in if lo \<le> b \<and> b \<le> hi
         then (if rs = [] then s' = UTF8_ACCEPT
               else 2 \<le> s' \<and> s' \<le> 8 \<and> pending s' = rs \<and> collected s' \<le> b mod 64 + 64 * collected s)
         else s' = UTF8_REJECT)"

lemma next_steps: "list_all (\<lambda>s. list_all (next_step_ok s) (upto 0 255)) [2..<9]"
  by code_simp

lemma byte_classes: "list_all (\<lambda>b. byte_class b < 12) (upto 0 255)"
  by code_simp

lemma next_step:
  assumes "2 \<le> s" "s \<le> 8"
  shows "next_step_ok s (code c)"
    and "fst (decode (s, cp) (code c)) = next_state s (byte_class (code c))"
proof -
  have s: "s \<in> set [2..<9]" using assms by auto
  show "next_step_ok s (code c)"
    using next_steps s code_in [of c] unfolding list_all_iff by blast
  have "byte_class (code c) \<in> set [0..<12]"
    using byte_classes code_in [of c] unfolding list_all_iff by simp
  then have "utf8d ! (256 + s * 16 + byte_class (code c)) = next_state s (byte_class (code c))"
    using utf8d_next s unfolding list_all_iff by blast
  then show "fst (decode (s, cp) (code c)) = next_state s (byte_class (code c))"
    by (simp only: decode_def Let_def prod.case fst_conv utf8d_class)
qed

lemma and_low_bits: "b AND 0x3F = b mod (64 :: int)"
proof -
  have "b AND 0x3F = b AND mask 6" by (simp add: mask_eq_exp_minus_1)
  also have "\<dots> = b mod 64" by (simp only: take_bit_eq_mask [symmetric] take_bit_eq_mod) simp
  finally show ?thesis .
qed

lemma decode_collects:
  assumes "s \<noteq> UTF8_ACCEPT" "0 \<le> cp" "0 \<le> b"
  shows "b mod 64 \<le> snd (decode (s, cp) b)" "64 * cp \<le> snd (decode (s, cp) b)"
proof -
  have d: "snd (decode (s, cp) b) = (b mod 64) OR push_bit 6 cp"
    using assms by (simp add: decode_def Let_def and_low_bits)
  have p: "push_bit 6 cp = 64 * cp" by (simp add: push_bit_eq_mult)
  show "b mod 64 \<le> snd (decode (s, cp) b)"
    unfolding d by (rule or_greater_eq) (simp add: p assms)
  show "64 * cp \<le> snd (decode (s, cp) b)"
    unfolding d p or.commute [of "b mod 64"] by (rule or_greater_eq) simp
qed

lemma decode_lead:
  "decode (UTF8_ACCEPT, cp) b = decode (UTF8_ACCEPT, 0) b"
  by (simp add: decode_def Let_def)

lemma lead_step:
  assumes "decode (UTF8_ACCEPT, cp) (code c) = (s, cp')"
  shows "code c \<le> 0x7F \<Longrightarrow> s = UTF8_ACCEPT \<and> cp' = code c"
    and "\<not> code c \<le> 0x7F \<Longrightarrow> utf8_ranges (code c) = None \<Longrightarrow> s = UTF8_REJECT"
    and "\<not> code c \<le> 0x7F \<Longrightarrow> utf8_ranges (code c) = Some rs \<Longrightarrow>
           2 \<le> s \<and> s \<le> 8 \<and> pending s = rs \<and> rs \<noteq> [] \<and> collected s \<le> cp'"
proof -
  have "lead_step_ok (code c)" using lead_steps code_in [of c] unfolding list_all_iff by blast
  then have ok: "if code c \<le> 0x7F then s = UTF8_ACCEPT \<and> cp' = code c
      else (case utf8_ranges (code c) of None \<Rightarrow> s = UTF8_REJECT
            | Some rs \<Rightarrow> 2 \<le> s \<and> s \<le> 8 \<and> pending s = rs \<and> rs \<noteq> [] \<and> collected s \<le> cp')"
    unfolding lead_step_ok_def decode_lead [of cp, symmetric] assms by simp
  show "code c \<le> 0x7F \<Longrightarrow> s = UTF8_ACCEPT \<and> cp' = code c" using ok by simp
  show "\<not> code c \<le> 0x7F \<Longrightarrow> utf8_ranges (code c) = None \<Longrightarrow> s = UTF8_REJECT" using ok by simp
  show "\<not> code c \<le> 0x7F \<Longrightarrow> utf8_ranges (code c) = Some rs \<Longrightarrow>
          2 \<le> s \<and> s \<le> 8 \<and> pending s = rs \<and> rs \<noteq> [] \<and> collected s \<le> cp'" using ok by simp
qed

lemma continuation_step:
  assumes "2 \<le> s" "s \<le> 8" "collected s \<le> cp" "pending s = (lo, hi) # rs"
    and "decode (s, cp) (code c) = (s', cp')"
  shows "lo \<le> code c \<Longrightarrow> code c \<le> hi \<Longrightarrow> rs = [] \<Longrightarrow> s' = UTF8_ACCEPT \<and> 0x80 \<le> cp'"
    and "lo \<le> code c \<Longrightarrow> code c \<le> hi \<Longrightarrow> rs \<noteq> [] \<Longrightarrow>
           2 \<le> s' \<and> s' \<le> 8 \<and> pending s' = rs \<and> collected s' \<le> cp'"
    and "\<not> (lo \<le> code c \<and> code c \<le> hi) \<Longrightarrow> s' = UTF8_REJECT"
proof -
  have ok: "next_step_ok s (code c)" and s': "s' = next_state s (byte_class (code c))"
    using next_step(1) [OF assms(1,2), of c] next_step(2) [OF assms(1,2), of cp c] assms(5) by auto
  have cp: "0 \<le> cp" using assms(3) by (auto simp: collected_def split: if_split_asm)
  have c: "0 \<le> code c" "code c \<le> 255" by (rule code_bounds)+
  have s: "s \<noteq> UTF8_ACCEPT" using assms(1) by (simp add: UTF8_ACCEPT_def)
  have le: "code c mod 64 \<le> cp'" "64 * cp \<le> cp'"
    using decode_collects [OF s cp c(1)] assms(5) by auto
  show "\<not> (lo \<le> code c \<and> code c \<le> hi) \<Longrightarrow> s' = UTF8_REJECT"
    using ok by (simp add: next_step_ok_def assms(4) Let_def s')
  show "s' = UTF8_ACCEPT \<and> 0x80 \<le> cp'" if r: "lo \<le> code c" "code c \<le> hi" "rs = []"
  proof -
    have "s = 2" using r(3) assms(1,2,4) by (auto simp: pending_def split: if_split_asm)
    then have "2 \<le> cp" using assms(3) by (simp add: collected_def)
    with le r ok show ?thesis by (simp add: next_step_ok_def assms(4) Let_def s')
  qed
  show "2 \<le> s' \<and> s' \<le> 8 \<and> pending s' = rs \<and> collected s' \<le> cp'"
    if r: "lo \<le> code c" "code c \<le> hi" "rs \<noteq> []"
  proof -
    have n: "2 \<le> s'" "s' \<le> 8" "pending s' = rs" "collected s' \<le> code c mod 64 + 64 * collected s"
      using ok r by (simp_all add: next_step_ok_def assms(4) Let_def s')
    have k: "collected s = 0 \<or> collected s = 1" "s \<noteq> 2"
      using r(3) assms(4) by (auto simp: collected_def pending_def split: if_split_asm)
    have "collected s' \<le> 2" by (simp add: collected_def)
    then have "collected s' \<le> cp'" using k n(4) le assms(3) by auto
    with n show ?thesis by simp
  qed
qed

end
