(* ===== verification/JsonRoundtrip.thy ===== *)
theory JsonRoundtrip
  imports JsonUtf8
begin

text \<open>
  The text \<^verbatim>\<open>dump()\<close> writes and the value \<^verbatim>\<open>json::parse\<close> reads from it: what the escaper
  writes of a string, what the digits of an integer are, how the lexer takes them back, and
  the round trip of whole values.
\<close>

section \<open>Escaping\<close>

text \<open>The text of one byte of a well-formed string under the default options.\<close>

definition escaped_char :: "char \<Rightarrow> string" where
  "escaped_char c = (if code c \<le> 0x7F then escape_codepoint False (code c) c else [c])"

definition escaped :: "string \<Rightarrow> string" where
  "escaped s = concat (map escaped_char s)"

lemma escaped_simps [simp]:
  "escaped [] = ''''" "escaped (c # cs) = escaped_char c @ escaped cs" "escaped (cs @ ds) = escaped cs @ escaped ds"
  by (simp_all add: escaped_def)

definition plain_options :: dump_options where
  "plain_options = \<lparr>pretty_print = False, ensure_ascii = False, indent_step = 0, error_handler = strict\<rparr>"

text \<open>The text written and buffered so far.\<close>

definition written :: "escaper \<Rightarrow> string" where
  "written e = dumped e @ string_buffer e"

lemma written_flush [simp]: "written (flush_if_full e) = written e"
  by (simp add: written_def flush_if_full_def)

lemma state_flush [simp]: "utf8_state (flush_if_full e) = utf8_state e"
  by (simp add: flush_if_full_def)

lemma dump_accept_fields:
  "written (dump_accept ascii c e) = written e @ escape_codepoint ascii (codepoint e) c"
  "utf8_state (dump_accept ascii c e) = utf8_state e"
proof -
  have "written (e'\<lparr>bytes_after_last_accept := m, undumped_chars := n\<rparr>) = written e'" for e' m n
    by (simp add: written_def)
  moreover have "written (e\<lparr>string_buffer := string_buffer e @ t\<rparr>) = written e @ t" for t
    by (simp add: written_def)
  ultimately show "written (dump_accept ascii c e) = written e @ escape_codepoint ascii (codepoint e) c"
    by (simp add: dump_accept_def Let_def)
  show "utf8_state (dump_accept ascii c e) = utf8_state e"
    by (simp add: dump_accept_def Let_def)
qed

lemma dump_byte_cases:
  assumes "decode (utf8_state e, codepoint e) (code c) = (st, cp)"
  shows "st = UTF8_ACCEPT \<Longrightarrow> \<exists>e'. dump_byte plain_options i c e = Inr (False, e') \<and>
           written e' = written e @ escape_codepoint False cp c \<and> utf8_state e' = UTF8_ACCEPT"
    and "st = UTF8_REJECT \<Longrightarrow> \<exists>msg. dump_byte plain_options i c e = Inl msg"
    and "st \<noteq> UTF8_ACCEPT \<Longrightarrow> st \<noteq> UTF8_REJECT \<Longrightarrow> \<exists>e'. dump_byte plain_options i c e = Inr (False, e') \<and>
           written e' = written e @ [c] \<and> utf8_state e' = st \<and> codepoint e' = cp"
  using assms
  by (auto simp: dump_byte_def plain_options_def dump_accept_fields Let_def UTF8_ACCEPT_def UTF8_REJECT_def)
     (simp_all add: written_def)

lemma escape_multibyte: "0x80 \<le> cp \<Longrightarrow> escape_codepoint False cp c = [c]"
  by (simp add: escape_codepoint_def)

lemma utf8_ranges_high: "utf8_ranges b = Some rs \<Longrightarrow> rs \<noteq> [] \<and> (\<forall>(lo, hi) \<in> set rs. 0x80 \<le> lo)"
  by (auto simp: utf8_ranges_def split: if_split_asm)

text \<open>Reading the continuation bytes of a character, and then the rest of the string.\<close>

lemma dump_loop_pending:
  assumes "2 \<le> utf8_state e" "utf8_state e \<le> 8" "collected (utf8_state e) \<le> codepoint e"
    and "pending (utf8_state e) = rs" "rs \<noteq> []" "\<forall>(lo, hi) \<in> set rs. 0x80 \<le> lo"
  shows "(case take_ranges rs cs of
            None \<Rightarrow> (case dump_loop plain_options i cs e of Inl _ \<Rightarrow> True | Inr e' \<Rightarrow> utf8_state e' \<noteq> UTF8_ACCEPT)
          | Some cs' \<Rightarrow> \<exists>e' i' bs. cs = bs @ cs' \<and> escaped bs = bs \<and>
              dump_loop plain_options i cs e = dump_loop plain_options i' cs' e' \<and>
              written e' = written e @ bs \<and> utf8_state e' = UTF8_ACCEPT)"
  using assms
proof (induction rs cs arbitrary: e i rule: take_ranges.induct)
  case (3 lo hi rs c cs)
  obtain st cp where d: "decode (utf8_state e, codepoint e) (code c) = (st, cp)" by fastforce
  note step = continuation_step [OF "3.prems"(1-4) d] and byte = dump_byte_cases [OF d, of i]
  show ?case
  proof (cases "lo \<le> code c \<and> code c \<le> hi")
    case False
    then show ?thesis using step(3) byte(2) by (auto simp: dump_loop.simps(2))
  next
    case True
    have high: "\<not> code c \<le> 0x7F" using True "3.prems"(6) by auto
    then have esc: "escaped_char c = [c]" by (simp add: escaped_char_def)
    show ?thesis
    proof (cases "rs = []")
      case rs: True
      with step(1) True have "st = UTF8_ACCEPT" "0x80 \<le> cp" by auto
      with byte(1) obtain e' where "dump_byte plain_options i c e = Inr (False, e')"
        "written e' = written e @ [c]" "utf8_state e' = UTF8_ACCEPT" by (auto simp: escape_multibyte)
      then have "c # cs = [c] @ cs \<and> escaped [c] = [c] \<and>
          dump_loop plain_options i (c # cs) e = dump_loop plain_options (i + 1) cs e' \<and>
          written e' = written e @ [c] \<and> utf8_state e' = UTF8_ACCEPT"
        using esc by (simp add: dump_loop.simps(2))
      moreover have t: "take_ranges ((lo, hi) # rs) (c # cs) = Some cs" using True rs by simp
      ultimately show ?thesis unfolding t option.case by blast
    next
      case rs: False
      with step(2) True have st: "2 \<le> st" "st \<le> 8" "pending st = rs" "collected st \<le> cp" by auto
      then obtain e' where e': "dump_byte plain_options i c e = Inr (False, e')"
        "written e' = written e @ [c]" "utf8_state e' = st" "codepoint e' = cp"
        using byte(3) by (auto simp: UTF8_ACCEPT_def UTF8_REJECT_def)
      have IH: "case take_ranges rs cs of
            None \<Rightarrow> (case dump_loop plain_options (i + 1) cs e' of Inl _ \<Rightarrow> True | Inr e' \<Rightarrow> utf8_state e' \<noteq> UTF8_ACCEPT)
          | Some cs' \<Rightarrow> \<exists>e'' i' bs. cs = bs @ cs' \<and> escaped bs = bs \<and>
              dump_loop plain_options (i + 1) cs e' = dump_loop plain_options i' cs' e'' \<and>
              written e'' = written e' @ bs \<and> utf8_state e'' = UTF8_ACCEPT"
        using "3.IH" [OF True, of e' "i + 1"] st e' rs "3.prems"(6) by auto
      show ?thesis
      proof (cases "take_ranges rs cs")
        case None
        with IH True e' show ?thesis by (auto simp: dump_loop.simps(2))
      next
        case (Some cs')
        with IH obtain e'' i' bs where "cs = bs @ cs'" "escaped bs = bs"
          "dump_loop plain_options (i + 1) cs e' = dump_loop plain_options i' cs' e''"
          "written e'' = written e' @ bs" "utf8_state e'' = UTF8_ACCEPT" by auto
        then have "c # cs = (c # bs) @ cs' \<and> escaped (c # bs) = c # bs \<and>
            dump_loop plain_options i (c # cs) e = dump_loop plain_options i' cs' e'' \<and>
            written e'' = written e @ c # bs \<and> utf8_state e'' = UTF8_ACCEPT"
          using e' esc by (simp add: dump_loop.simps(2))
        moreover have t: "take_ranges ((lo, hi) # rs) (c # cs) = Some cs'" using True Some by simp
        ultimately show ?thesis unfolding t option.case by blast
      qed
    qed
  qed
qed (auto simp: UTF8_ACCEPT_def)

lemma dump_loop_utf8:
  assumes "utf8_state e = UTF8_ACCEPT"
  shows "(valid_utf8 s \<longrightarrow> (\<exists>e'. dump_loop plain_options i s e = Inr e' \<and>
            utf8_state e' = UTF8_ACCEPT \<and> written e' = written e @ escaped s)) \<and>
         (\<not> valid_utf8 s \<longrightarrow>
           (case dump_loop plain_options i s e of Inl _ \<Rightarrow> True | Inr e' \<Rightarrow> utf8_state e' \<noteq> UTF8_ACCEPT))"
  using assms
proof (induction s arbitrary: e i rule: valid_utf8.induct)
  case (2 c cs)
  obtain st cp where d: "decode (utf8_state e, codepoint e) (code c) = (st, cp)" by fastforce
  then have d': "decode (UTF8_ACCEPT, codepoint e) (code c) = (st, cp)" using "2.prems" by simp
  note lead = lead_step [OF d'] and byte = dump_byte_cases [OF d, of i]
  show ?case
  proof (cases "code c \<le> 0x7F")
    case True
    then have r: "Option.bind (lead_ranges c) (\<lambda>rs. take_ranges rs cs) = Some cs" by (simp add: lead_ranges_def)
    from True lead(1) have st: "st = UTF8_ACCEPT" "cp = code c" by auto
    then obtain e' where e': "dump_byte plain_options i c e = Inr (False, e')"
      "written e' = written e @ escaped_char c" "utf8_state e' = UTF8_ACCEPT"
      using byte(1) True by (auto simp: escaped_char_def)
    then show ?thesis using "2.IH" [OF r, of e' "i + 1"] r by (auto simp: dump_loop.simps(2))
  next
    case high: False
    show ?thesis
    proof (cases "utf8_ranges (code c)")
      case None
      then show ?thesis using high lead(2) byte(2) by (auto simp: lead_ranges_def dump_loop.simps(2))
    next
      case (Some rs)
      from lead(3) [OF high Some] have st: "2 \<le> st" "st \<le> 8" "pending st = rs" "rs \<noteq> []" "collected st \<le> cp"
        by auto
      then obtain e' where e': "dump_byte plain_options i c e = Inr (False, e')"
        "written e' = written e @ [c]" "utf8_state e' = st" "codepoint e' = cp"
        using byte(3) by (auto simp: UTF8_ACCEPT_def UTF8_REJECT_def)
      have esc: "escaped_char c = [c]" using high by (simp add: escaped_char_def)
      note rest = dump_loop_pending [where e = e' and rs = rs and cs = cs and i = "i + 1"]
      show ?thesis
      proof (cases "take_ranges rs cs")
        case None
        then show ?thesis using rest st e' utf8_ranges_high [OF Some] high Some
          by (auto simp: lead_ranges_def dump_loop.simps(2))
      next
        case (Some cs')
        then obtain e'' i' bs where w: "cs = bs @ cs'" "escaped bs = bs"
          "dump_loop plain_options (i + 1) cs e' = dump_loop plain_options i' cs' e''"
          "written e'' = written e' @ bs" "utf8_state e'' = UTF8_ACCEPT"
          using rest st e' utf8_ranges_high [OF \<open>utf8_ranges (code c) = Some rs\<close>] by auto
        have r: "Option.bind (lead_ranges c) (\<lambda>rs. take_ranges rs cs) = Some cs'"
          using high Some \<open>utf8_ranges (code c) = Some rs\<close> by (simp add: lead_ranges_def)
        have v: "valid_utf8 (c # cs) = valid_utf8 cs'" using r by simp
        have l: "dump_loop plain_options i (c # cs) e = dump_loop plain_options i' cs' e''"
          using e' w(3) by (simp add: dump_loop.simps(2))
        have x: "written e @ escaped (c # cs) = written e'' @ escaped cs'" using w e' esc by simp
        show ?thesis unfolding v l x using "2.IH" [OF r, of e'' i'] w(5) by blast
      qed
    qed
  qed
qed simp_all

lemma dump_escaped_valid: "valid_utf8 s \<Longrightarrow> dump_escaped plain_options s = Inr (escaped s)"
  using dump_loop_utf8 [where e = escaper_new and s = s and i = 0]
  by (auto simp: dump_escaped_def dump_finish_def escaper_new_def written_def)

lemma dump_escaped_invalid: "\<not> valid_utf8 s \<Longrightarrow> \<exists>msg. dump_escaped plain_options s = Inl msg"
  using dump_loop_utf8 [where e = escaper_new and s = s and i = 0]
  by (auto simp: dump_escaped_def dump_finish_def escaper_new_def plain_options_def bind_err_Inl split: sum.split_asm)

section \<open>Reading a string back\<close>

text \<open>
  A lexer inside a token: it has nothing put back, has read at least one character, and has
  the given rest of the input and token buffer.
\<close>

definition lexed :: "lexer \<Rightarrow> string \<Rightarrow> string \<Rightarrow> bool" where
  "lexed lx rest buf \<longleftrightarrow>
     \<not> next_unget lx \<and> \<not> ignore_comments lx \<and> 0 < chars_read_total lx \<and> remaining lx = rest \<and> token_buffer lx = buf"

lemma lexed_get:
  assumes "lexed lx (c # cs) buf"
  shows "lexed (get lx) cs buf" "current (get lx) = Some c"
  using assms get_remaining [of lx c cs] by (simp_all add: lexed_def)

lemma lexed_add: "lexed lx cs buf \<Longrightarrow> lexed (add c lx) cs (buf @ [c])"
  by (simp add: lexed_def) (simp add: add_def)

lemma lexed_add_current: "lexed lx cs buf \<Longrightarrow> current lx = Some c \<Longrightarrow> lexed (add_current lx) cs (buf @ [c])"
  by (simp add: add_current_def to_char_type_def lexed_add)

lemma range_loop_reads:
  assumes "take_ranges rs cs = Some cs'" "\<forall>(lo, hi) \<in> set rs. 0x80 \<le> lo"
  shows "\<exists>bs. cs = bs @ cs' \<and> escaped bs = bs \<and>
           (\<forall>lx rest buf. lexed lx (bs @ rest) buf \<longrightarrow>
              (\<exists>lx'. range_loop rs lx = (True, lx') \<and> lexed lx' rest (buf @ bs)))"
  using assms
proof (induction rs cs rule: take_ranges.induct)
  case (1 cs)
  then show ?case by simp
next
  case (3 lo hi rs c cs)
  then have c: "lo \<le> code c" "code c \<le> hi" "\<not> code c \<le> 0x7F" and t: "take_ranges rs cs = Some cs'"
    by (auto split: if_split_asm)
  then obtain bs where bs: "cs = bs @ cs'" "escaped bs = bs"
    "\<And>lx rest buf. lexed lx (bs @ rest) buf \<Longrightarrow> \<exists>lx'. range_loop rs lx = (True, lx') \<and> lexed lx' rest (buf @ bs)"
    using "3.IH" [OF _ t] "3.prems"(2) by auto
  have "\<exists>lx'. range_loop ((lo, hi) # rs) lx = (True, lx') \<and> lexed lx' rest (buf @ c # bs)"
    if "lexed lx (c # bs @ rest) buf" for lx rest buf
    using bs(3) [OF lexed_add [OF lexed_get(1) [OF that], of c]] lexed_get(2) [OF that] c by (auto simp: Let_def)
  with bs(1,2) c(3) show ?case by (intro exI [of _ "c # bs"]) (auto simp: escaped_char_def)
qed simp

lemma hex_value_lower: "list_all (\<lambda>d. hex_value (hex_lower d) = Some d) (upto 0 15)"
  by code_simp

lemma codepoint_loop_step:
  assumes "lexed lx (hex_lower d # cs) buf" "0 \<le> d" "d \<le> 15"
  shows "codepoint_loop (k # ks) cp lx = codepoint_loop ks (cp + push_bit k d) (get lx)"
    and "lexed (get lx) cs buf"
  using lexed_get [OF assms(1)] hex_value_lower assms(2,3) by (auto simp: list_all_iff Let_def)

lemma get_codepoint_hex4:
  assumes "lexed lx (hex4 n @ rest) buf" "0 \<le> n" "n \<le> 0xFFFF"
  shows "\<exists>lx'. get_codepoint lx = (n, lx') \<and> lexed lx' rest buf"
proof -
  have m: "0 \<le> a mod 16" "a mod 16 \<le> 15" for a :: int
    using pos_mod_bound [of 16 a] by simp_all
  have split: "a = 16 * (a div 16) + a mod 16" for a :: int by simp
  have q: "n div 256 = n div 16 div 16" "n div 4096 = n div 256 div 16"
    by (simp_all add: zdiv_zmult2_eq [symmetric])
  have "n div 4096 < 16" "0 \<le> n div 4096" using assms(2,3) by (simp_all add: div_less_iff_less_mult)
  then have h: "n div 4096 mod 16 = n div 4096" by simp
  have p: "push_bit 12 a = a * 4096" "push_bit 8 a = a * 256" "push_bit 4 a = a * 16" for a :: int
    by (simp_all add: push_bit_eq_mult)
  have sum: "push_bit 12 (n div 4096 mod 16) + push_bit 8 (n div 256 mod 16) + push_bit 4 (n div 16 mod 16) + n mod 16 = n"
    unfolding h p
    using split [of n] split [of "n div 16", folded q(1)] split [of "n div 256", folded q(2)] by linarith
  have 0: "lexed lx (hex_lower (n div 4096 mod 16) # hex_lower (n div 256 mod 16) #
                hex_lower (n div 16 mod 16) # hex_lower (n mod 16) # rest) buf"
    using assms(1) by (simp add: hex4_def)
  note 1 = codepoint_loop_step [OF 0 m]
  note 2 = codepoint_loop_step [OF 1(2) m]
  note 3 = codepoint_loop_step [OF 2(2) m]
  note 4 = codepoint_loop_step [OF 3(2) m]
  show ?thesis unfolding get_codepoint_def 1(1) 2(1) 3(1) 4(1) codepoint_loop.simps(1)
    using 4(2) sum by simp
qed

text \<open>One turn of the scanner over the text of one byte.\<close>

lemma string_turn_letter:
  assumes "lexed lx ([backslash, x] @ rest) buf" "map_of escape_table x = Some c"
  shows "\<exists>lx'. string_turn lx = (None, lx') \<and> lexed lx' rest (buf @ [c])"
proof -
  have 1: "lexed (get lx) (x # rest) buf" "current (get lx) = Some backslash"
    using assms(1) by (auto intro: lexed_get)
  note 2 = lexed_get [OF 1(1)]
  have "string_turn lx = (None, add c (get (get lx)))"
    using 1(2) 2(2) assms(2) by (simp add: string_turn_def string_escape_def Let_def)
  with lexed_add [OF 2(1)] show ?thesis by simp
qed

lemma string_turn_control:
  assumes "lexed lx ([backslash, CHR ''u''] @ hex4 (code c) @ rest) buf" "code c \<le> 0x1F"
  shows "\<exists>lx'. string_turn lx = (None, lx') \<and> lexed lx' rest (buf @ [c])"
proof -
  have 1: "lexed (get lx) (CHR ''u'' # hex4 (code c) @ rest) buf" "current (get lx) = Some backslash"
    using assms(1) by (auto intro: lexed_get)
  note 2 = lexed_get [OF 1(1)]
  obtain lx' where l: "get_codepoint (get (get lx)) = (code c, lx')" "lexed lx' rest buf"
    using get_codepoint_hex4 [OF 2(1)] assms(2) code_bounds [of c] by auto
  have u: "map_of escape_table (CHR ''u'') = None" by code_simp
  have "string_turn lx = (None, add_codepoint (code c) lx')"
    using 1(2) 2(2) l(1) assms(2) code_bounds [of c] u
    by (simp add: string_turn_def string_escape_def unicode_escape_def Let_def)
  with lexed_add [OF l(2), of c] assms(2) show ?thesis by (simp add: add_codepoint_def codepoint_bytes_def)
qed

lemma string_turn_plain:
  assumes "lexed lx (c # rest) buf" "plain_ascii (code c)"
  shows "\<exists>lx'. string_turn lx = (None, lx') \<and> lexed lx' rest (buf @ [c])"
proof -
  note 1 = lexed_get [OF assms(1)]
  have "c \<noteq> quote" "c \<noteq> backslash" "\<not> code c \<le> 0x1F" using assms(2) by (auto simp: plain_ascii_def)
  then have "string_turn lx = (None, add_current (get lx))"
    using 1(2) assms(2) by (simp add: string_turn_def Let_def)
  with lexed_add_current [OF 1] show ?thesis by simp
qed

definition short_escapes :: "(char \<times> char) list" where
  "short_escapes =
     [(CHR 0x08, CHR ''b''), (CHR 0x09, CHR ''t''), (CHR 0x0A, CHR ''n''), (CHR 0x0C, CHR ''f''),
      (CHR 0x0D, CHR ''r''), (quote, quote), (backslash, backslash)]"

lemma short_escapes_texts:
  "list_all (\<lambda>(c, x). escaped_char c = [backslash, x] \<and> map_of escape_table x = Some c) short_escapes"
  by code_simp

lemma ascii_texts:
  "list_all (\<lambda>b. case map_of short_escapes (char_of b) of
       Some x \<Rightarrow> True
     | None \<Rightarrow> (if b \<le> 0x1F then escaped_char (char_of b) = [backslash, CHR ''u''] @ hex4 b
                else plain_ascii b \<and> escaped_char (char_of b) = [char_of b])) (upto 0 127)"
  by code_simp

lemma string_turn_ascii:
  assumes "lexed lx (escaped_char c @ rest) buf" "code c \<le> 0x7F"
  shows "\<exists>lx'. string_turn lx = (None, lx') \<and> lexed lx' rest (buf @ [c])"
proof (cases "map_of short_escapes c")
  case (Some x)
  then have "(c, x) \<in> set short_escapes" by (rule map_of_SomeD)
  then have "escaped_char c = [backslash, x]" "map_of escape_table x = Some c"
    using short_escapes_texts unfolding list_all_iff by blast+
  with string_turn_letter assms(1) show ?thesis by metis
next
  case None
  have "code c \<in> set (upto 0 127)" using assms(2) code_bounds [of c] by simp
  then have "if code c \<le> 0x1F then escaped_char c = [backslash, CHR ''u''] @ hex4 (code c)
      else plain_ascii (code c) \<and> escaped_char c = [c]"
    using ascii_texts None unfolding list_all_iff by fastforce
  with string_turn_control [of lx c rest buf] string_turn_plain [of lx c rest buf] assms(1) show ?thesis
    by (simp split: if_split_asm)
qed

lemma string_turn_lead:
  assumes "utf8_ranges (code c) = Some rs" "\<not> code c \<le> 0x7F" "take_ranges rs cs = Some cs'"
  shows "\<exists>bs. cs = bs @ cs' \<and> escaped bs = bs \<and>
           (\<forall>lx rest buf. lexed lx (c # bs @ rest) buf \<longrightarrow>
              (\<exists>lx'. string_turn lx = (None, lx') \<and> lexed lx' rest (buf @ c # bs)))"
proof -
  obtain bs where bs: "cs = bs @ cs'" "escaped bs = bs"
    "\<And>lx rest buf. lexed lx (bs @ rest) buf \<Longrightarrow> \<exists>lx'. range_loop rs lx = (True, lx') \<and> lexed lx' rest (buf @ bs)"
    using range_loop_reads [OF assms(3)] utf8_ranges_high [OF assms(1)] by auto
  have "\<exists>lx'. string_turn lx = (None, lx') \<and> lexed lx' rest (buf @ c # bs)"
    if l: "lexed lx (c # bs @ rest) buf" for lx rest buf
  proof -
    note 1 = lexed_get [OF l]
    obtain lx' where "range_loop rs (add_current (get lx)) = (True, lx')" "lexed lx' rest ((buf @ [c]) @ bs)"
      using bs(3) [OF lexed_add_current [OF 1]] by blast
    moreover have "c \<noteq> quote" "c \<noteq> backslash" "\<not> plain_ascii (code c)" "\<not> code c \<le> 0x1F"
      using assms(2) by (auto simp: plain_ascii_def)
    ultimately show ?thesis
      using 1(2) assms(1) by (simp add: string_turn_def string_multibyte_def next_byte_in_range_def Let_def)
  qed
  with bs(1,2) show ?thesis by blast
qed

lemma scan_string_loop_reads:
  assumes "valid_utf8 s" "lexed lx (escaped s @ quote # rest) buf"
  shows "\<exists>lx'. scan_string_loop lx = (value_string, lx') \<and> lexed lx' rest (buf @ s)"
  using assms
proof (induction s arbitrary: lx buf rule: valid_utf8.induct)
  case 1
  then have l: "lexed lx (quote # rest) buf" by simp
  note lexed_get [OF l]
  then show ?case by (subst scan_string_loop.simps) (simp add: string_turn_def Let_def)
next
  case (2 c cs)
  then obtain cs' where r: "Option.bind (lead_ranges c) (\<lambda>rs. take_ranges rs cs) = Some cs'" "valid_utf8 cs'"
    by (auto split: option.split_asm)
  have "\<exists>bs lx'. c # cs = bs @ cs' \<and> string_turn lx = (None, lx') \<and>
          lexed lx' (escaped cs' @ quote # rest) (buf @ bs)"
  proof (cases "code c \<le> 0x7F")
    case True
    then have "cs' = cs" using r(1) by (simp add: lead_ranges_def)
    then show ?thesis using string_turn_ascii [OF _ True, of lx] "2.prems"(2)
      by (intro exI [of _ "[c]"]) simp
  next
    case False
    then obtain rs where rs: "utf8_ranges (code c) = Some rs" "take_ranges rs cs = Some cs'"
      using r(1) by (auto simp: lead_ranges_def bind_eq_Some_conv)
    obtain bs where bs: "cs = bs @ cs'" "escaped bs = bs"
      "\<And>lx rest buf. lexed lx (c # bs @ rest) buf \<Longrightarrow> \<exists>lx'. string_turn lx = (None, lx') \<and> lexed lx' rest (buf @ c # bs)"
      using string_turn_lead [OF rs(1) False rs(2)] by blast
    have "lexed lx (c # bs @ escaped cs' @ quote # rest) buf"
      using "2.prems"(2) bs(1,2) False by (simp add: escaped_char_def)
    from bs(3) [OF this] bs(1) show ?thesis by (metis append_Cons)
  qed
  then obtain bs lx' where t: "c # cs = bs @ cs'" "string_turn lx = (None, lx')"
    "lexed lx' (escaped cs' @ quote # rest) (buf @ bs)" by blast
  from "2.IH" [OF r t(3)] obtain lx'' where "scan_string_loop lx' = (value_string, lx'')"
    "lexed lx'' rest ((buf @ bs) @ cs')" by blast
  with t show ?case by (subst scan_string_loop.simps) simp
qed

lemma scan_string_reads:
  assumes "valid_utf8 s" "lexed lx (escaped s @ quote # rest) buf"
  shows "\<exists>lx'. scan_string lx = (value_string, lx') \<and> lexed lx' rest s"
proof -
  have "lexed (reset lx) (escaped s @ quote # rest) ''''"
    using assms(2) by (simp add: lexed_def) (simp add: reset_def)
  from scan_string_loop_reads [OF assms(1) this] show ?thesis by (simp add: scan_string_def)
qed

end
