(* ===== verification/JsonNumbers.thy ===== *)
theory JsonNumbers
  imports JsonRoundtrip
begin

text \<open>
  The integers of the printer and the lexer: \<^verbatim>\<open>dump_integer\<close> writes the decimal digits,
  \<^verbatim>\<open>scan_number\<close> takes exactly those digits back, and what \<^verbatim>\<open>strtoull\<close> and
  \<^verbatim>\<open>strtoll\<close> make of them is the number.
\<close>

section \<open>Decimal digits\<close>

abbreviation digits :: "int \<Rightarrow> string" where
  "digits n \<equiv> to_string (nat n)"

lemma char_of_digit: "char_of (0x30 + int d) = (char_of (0x30 + d) :: char)"
proof (rule of_char_eqI [where 'a = int])
  have "code (char_of (0x30 + d)) = int (of_char (char_of (0x30 + d) :: char))"
    by (simp only: of_nat_of_char)
  then show "code (char_of (0x30 + int d)) = code (char_of (0x30 + d))" by (simp add: zmod_int)
qed

lemma code_digit: "d < 10 \<Longrightarrow> code (char_of (0x30 + d)) = 0x30 + int d"
  by (simp add: char_of_digit [symmetric])

lemma char_of_zero: "char_of (48 :: nat) = CHR ''0''"
  by code_simp

lemma digits_small: "0 \<le> n \<Longrightarrow> n < 10 \<Longrightarrow> digits n = [char_of (0x30 + n)]"
  using char_of_digit [of "nat n"] by (simp add: to_string.simps)

lemma digits_step: "10 \<le> n \<Longrightarrow> digits n = digits (n div 10) @ [char_of (0x30 + n mod 10)]"
  using char_of_digit [of "nat n mod 10"]
  by (subst to_string.simps) (simp add: nat_div_distrib zmod_int nat_less_iff)

lemma digits_two: "100 \<le> n \<Longrightarrow>
    digits n = digits (n div 100) @ [char_of (0x30 + n mod 100 div 10), char_of (0x30 + n mod 100 mod 10)]"
proof -
  assume n: "100 \<le> n"
  have e1: "n div 10 div 10 = n div 100" by (simp add: zdiv_zmult2_eq [symmetric])
  have m: "n mod 100 = 10 * (n div 10 mod 10) + n mod 10"
    using zmod_zmult2_eq [of 10 n 10] by simp
  have e2: "n mod 100 div 10 = n div 10 mod 10" "n mod 100 mod 10 = n mod 10" unfolding m by simp_all
  have "10 \<le> n" "10 \<le> n div 10" using n by linarith+
  note d = this [THEN digits_step]
  show ?thesis by (simp only: e2 d(1) d(2) e1 append_assoc append_Cons append_Nil)
qed

lemma update_two:
  assumes "q + 2 \<le> length b"
  shows "b[Suc q := d1, q := d0] = take q b @ [d0, d1] @ drop (q + 2) b"
proof -
  obtain y z zs where d: "drop q b = y # z # zs"
    using assms Cons_nth_drop_Suc [of q b] Cons_nth_drop_Suc [of "Suc q" b]
    by (metis Suc_le_lessD Suc_lessD add_2_eq_Suc')
  have upd: "(xs @ y # z # zs)[Suc (length xs) := d1, length xs := d0] = xs @ [d0, d1] @ zs" for xs
    by (simp add: list_update_append)
  have b: "b = take q b @ y # z # zs" by (metis append_take_drop_id d)
  have "drop (q + 2) b = drop 2 (drop q b)" by (simp add: add.commute)
  then have "drop (q + 2) b = zs" by (simp add: d)
  then show ?thesis using upd [of "take q b"] assms by (simp add: b [symmetric])
qed

lemma digits_not_Nil [simp]: "to_string n \<noteq> []"
  by (subst to_string.simps) simp

lemma count_digits_loop_eq: "0 \<le> x \<Longrightarrow> count_digits_loop x k + 1 = k + length (digits x)"
proof (induction x k rule: count_digits_loop.induct)
  case (1 x k)
  have l: "length (digits y) = length (digits (y div 10)) + 1" if "10 \<le> y" for y
    using digits_step [OF that] by simp
  have s: "length (digits y) = 1" if "0 \<le> y" "y < 10" for y
    using digits_small [OF that] by simp
  have d: "x div 10 div 10 = x div 100" "x div 100 div 10 = x div 1000" "x div 1000 div 10 = x div 10000"
    by (simp_all add: zdiv_zmult2_eq [symmetric])
  show ?case
  proof (cases "x < 10000")
    case True
    then show ?thesis
      using "1.prems" l [of x] l [of "x div 10"] l [of "x div 100"]
        s [of x] s [of "x div 10"] s [of "x div 100"] s [of "x div 1000"]
      by (subst count_digits_loop.simps) (simp add: d)
  next
    case False
    then show ?thesis
      using 1 l [of x] l [of "x div 10"] l [of "x div 100"] l [of "x div 1000"]
      by (subst count_digits_loop.simps) (simp add: d)
  qed
qed

lemma count_digits_eq: "0 \<le> x \<Longrightarrow> count_digits x = length (digits x)"
  using count_digits_loop_eq [of x 1] by (simp add: count_digits_def)

text \<open>The digits fill the places just before \<open>p\<close>; the rest of the buffer stays.\<close>

lemma fill_digits_eq:
  "0 \<le> a \<Longrightarrow> length (digits a) \<le> p \<Longrightarrow> p \<le> length b \<Longrightarrow>
   fill_digits a p b = take (p - length (digits a)) b @ digits a @ drop p b"
proof (induction a p b rule: fill_digits.induct)
  case (1 a p b)
  consider "100 \<le> a" | "10 \<le> a" "a < 100" | "a < 10" by linarith
  then show ?case
  proof cases
    case 1
    let ?d0 = "char_of (0x30 + a mod 100 div 10) :: char" and ?d1 = "char_of (0x30 + a mod 100 mod 10) :: char"
    let ?b = "b[p - 1 := ?d1, p - 2 := ?d0]" and ?n = "length (digits (a div 100))"
    have t: "digits a = digits (a div 100) @ [?d0, ?d1]" by (rule digits_two [OF 1])
    have p: "?n + 2 \<le> p" using "1.prems"(2) t by simp
    have "fill_digits a p b = fill_digits (a div 100) (p - 2) ?b"
      using 1 by (subst fill_digits.simps) (simp add: digits_to_99_def)
    also have "\<dots> = take (p - 2 - ?n) ?b @ digits (a div 100) @ drop (p - 2) ?b"
      by (rule "1.IH" [OF 1 refl digits_to_99_def [symmetric]]) (use 1 p "1.prems"(3) in simp_all)
    also have "?b = take (p - 2) b @ [?d0, ?d1] @ drop p b"
      using update_two [of "p - 2" b ?d1 ?d0] p "1.prems"(3) by (simp add: Suc_diff_Suc numeral_2_eq_2)
    also have "take (p - 2 - ?n) \<dots> @ digits (a div 100) @ drop (p - 2) \<dots>
        = take (p - 2 - ?n) b @ digits a @ drop p b"
      using p "1.prems"(3) by (simp add: t)
    finally show ?thesis by (simp add: t)
  next
    case 2
    let ?d0 = "char_of (0x30 + a div 10) :: char" and ?d1 = "char_of (0x30 + a mod 10) :: char"
    have t: "digits a = [?d0, ?d1]" using 2 digits_step [of a] digits_small [of "a div 10"] by simp
    have p: "2 \<le> p" using "1.prems"(2) t by simp
    have "fill_digits a p b = b[p - 1 := ?d1, p - 2 := ?d0]"
      using 2 by (subst fill_digits.simps) (simp add: digits_to_99_def)
    also have "\<dots> = take (p - 2) b @ [?d0, ?d1] @ drop p b"
      using update_two [of "p - 2" b ?d1 ?d0] p "1.prems"(3) by (simp add: Suc_diff_Suc numeral_2_eq_2)
    finally show ?thesis unfolding t by (simp add: numeral_2_eq_2)
  next
    case 3
    let ?d = "char_of (0x30 + a) :: char"
    have t: "digits a = [?d]" using 3 "1.prems"(1) by (simp add: digits_small)
    have p: "1 \<le> p" "p - 1 < length b" "Suc (p - 1) = p" using "1.prems"(2,3) t by auto
    have "fill_digits a p b = b[p - 1 := ?d]"
      using 3 by (subst fill_digits.simps) simp
    also have "\<dots> = take (p - 1) b @ [?d] @ drop p b"
      using p by (simp add: upd_conv_take_nth_drop)
    finally show ?thesis by (simp add: t)
  qed
qed

section \<open>Printing\<close>

definition int_text :: "int \<Rightarrow> string" where
  "int_text x = (if x < 0 then CHR ''-'' # digits (- x) else digits x)"

text \<open>At most twenty digits, so that the buffer of 64 characters is enough.\<close>

lemma length_to_string: "n < 10 ^ k \<Longrightarrow> 0 < k \<Longrightarrow> length (to_string n) \<le> k"
proof (induction k arbitrary: n)
  case (Suc k)
  show ?case
  proof (cases "n < 10")
    case True
    then show ?thesis by (simp add: to_string.simps)
  next
    case False
    then have k: "0 < k" using Suc.prems(1) by (cases k) auto
    have "n div 10 < 10 ^ k" using Suc.prems(1) by (simp add: less_mult_imp_div_less mult.commute)
    from Suc.IH [OF this k] False show ?thesis by (subst to_string.simps) simp
  qed
qed simp

lemma length_digits_64: "0 \<le> x \<Longrightarrow> x < 2 ^ 64 \<Longrightarrow> length (digits x) \<le> 20"
  by (rule length_to_string) (simp_all add: nat_less_iff)

lemma dump_integer_eq:
  assumes "- (2 ^ 63) \<le> x" "x < 2 ^ 64" "length buffer = 64"
  shows "dump_integer buffer x = int_text x"
proof -
  consider "x = 0" | "x < 0" | "0 < x" by linarith
  then show ?thesis
  proof cases
    case 1
    then show ?thesis by (simp add: dump_integer_def int_text_def to_string.simps char_of_zero)
  next
    case 2
    let ?a = "remove_sign x" and ?b = "buffer[0 := CHR ''-'']"
    have a: "?a = - x" "0 \<le> ?a" using 2 by (simp_all add: remove_sign_def)
    have l: "length (digits ?a) \<le> 20" using length_digits_64 [of ?a] assms(1) a by simp
    have hd: "take 1 ?b = ''-''" using assms(3) by (cases buffer) simp_all
    have "fill_digits ?a (1 + count_digits ?a) ?b = ''-'' @ digits ?a @ drop (1 + count_digits ?a) ?b"
      using fill_digits_eq [of ?a "1 + count_digits ?a" ?b] a(2) l assms(3) hd by (simp add: count_digits_eq)
    then show ?thesis using 2 a by (simp add: dump_integer_def int_text_def count_digits_eq Let_def)
  next
    case 3
    have l: "length (digits x) \<le> 20" using length_digits_64 [of x] assms(2) 3 by simp
    have "fill_digits x (count_digits x) buffer = digits x @ drop (count_digits x) buffer"
      using fill_digits_eq [of x "count_digits x" buffer] 3 l assms(3) by (simp add: count_digits_eq)
    then show ?thesis using 3 by (simp add: dump_integer_def int_text_def count_digits_eq Let_def)
  qed
qed

section \<open>Reading\<close>

lemma to_string_digits: "c \<in> set (to_string n) \<Longrightarrow> is_digit (Some c)"
proof (induction n rule: to_string.induct)
  case (1 n)
  have "n mod 10 < 10" by simp
  then have "is_digit (Some (char_of (0x30 + n mod 10)))"
    using code_digit [of "n mod 10"] by (simp add: is_digit_def)
  with 1 show ?case by (subst (asm) to_string.simps) (auto split: if_split_asm)
qed

lemma dec_value_snoc: "dec_value (s @ [c]) = 10 * dec_value s + (code c - 0x30)"
  by (simp add: dec_value_def)

lemma dec_value_to_string: "dec_value (to_string n) = int n"
proof (induction n rule: to_string.induct)
  case (1 n)
  have d: "code (char_of (0x30 + n mod 10)) = 0x30 + int (n mod 10)" by (simp add: code_digit)
  show ?case
  proof (cases "n < 10")
    case True
    then show ?thesis using d by (subst to_string.simps) (simp add: dec_value_def)
  next
    case False
    have "10 * int (n div 10) + int (n mod 10) = int n" by presburger
    then show ?thesis using 1 False d by (subst to_string.simps) (simp only: if_False dec_value_snoc, simp)
  qed
qed

text \<open>A character that ends a number: none of those the state machine goes on with.\<close>

definition number_ends :: "string \<Rightarrow> bool" where
  "number_ends rest \<longleftrightarrow> (case rest of [] \<Rightarrow> True | c # _ \<Rightarrow> \<not> is_digit (Some c) \<and> c \<noteq> CHR ''.'' \<and> \<not> is_exponent (Some c))"

text \<open>A lexer between two tokens.\<close>

definition ready :: "lexer \<Rightarrow> string \<Rightarrow> bool" where
  "ready lx rest \<longleftrightarrow> lexer_wf lx \<and> \<not> ignore_comments lx \<and> remaining lx = rest"

lemma lexed_ready: "lexed lx rest buf \<Longrightarrow> ready lx rest"
  by (simp add: lexed_def ready_def)

lemma ready_unget:
  assumes "lexed lx rest buf"
  shows "ready (unget (get lx)) rest" "0 < chars_read_total (unget (get lx))"
    "token_buffer (unget (get lx)) = buf"
proof -
  have wf: "lexer_wf lx" using assms by (simp add: lexed_def)
  have "remaining (unget (get lx)) = rest"
  proof (cases rest)
    case Nil
    then show ?thesis using get_end [of lx] assms wf by (simp add: lexed_def unget_remaining(1))
  next
    case (Cons c cs)
    then show ?thesis using get_remaining [of lx c cs] assms wf by (simp add: lexed_def unget_remaining(1))
  qed
  then show "ready (unget (get lx)) rest" "0 < chars_read_total (unget (get lx))"
    "token_buffer (unget (get lx)) = buf"
    using assms unget_get_wf [OF wf] by (simp_all add: lexed_def ready_def unget_remaining(3))
qed

lemma current_end:
  assumes "lexed lx rest buf" "number_ends rest"
  shows "\<not> is_digit (current (get lx))" "current (get lx) \<noteq> Some (CHR ''.'')" "\<not> is_exponent (current (get lx))"
proof -
  have wf: "lexer_wf lx" using assms by (simp add: lexed_def)
  have "current (get lx) = (case rest of [] \<Rightarrow> None | c # cs \<Rightarrow> Some c)"
    using assms(1) wf get_end(1) [of lx] get_remaining(1) [of lx] by (simp add: lexed_def split: list.split)
  then show "\<not> is_digit (current (get lx))" "current (get lx) \<noteq> Some (CHR ''.'')" "\<not> is_exponent (current (get lx))"
    using assms(2) by (auto simp: number_ends_def is_digit_def is_exponent_def split: list.splits)
qed

lemma scan_any1_reads:
  assumes "list_all (\<lambda>c. is_digit (Some c)) ds" "lexed lx (ds @ rest) buf" "number_ends rest"
  shows "\<exists>lx'. scan_number_from C number_any1 nt lx = scan_number_done C nt (get lx') \<and> lexed lx' rest (buf @ ds)"
  using assms
proof (induction ds arbitrary: lx buf)
  case Nil
  then show ?case using current_end [of lx rest buf]
    by (intro exI [of _ lx]) (simp add: scan_number_from.simps [of C number_any1] scan_number_any1_def Let_def)
next
  case (Cons d ds)
  then have l: "lexed lx (d # (ds @ rest)) buf" and d: "is_digit (Some d)" by simp_all
  note 1 = lexed_get [OF l]
  obtain lx' where "scan_number_from C number_any1 nt (add_current (get lx)) = scan_number_done C nt (get lx')"
    "lexed lx' rest ((buf @ [d]) @ ds)"
    using Cons.IH [OF _ lexed_add_current [OF 1] Cons.prems(3)] Cons.prems(1) by auto
  moreover have "scan_number_from C number_any1 nt lx = scan_number_from C number_any1 nt (add_current (get lx))"
    using 1(2) d by (subst scan_number_from.simps) (simp add: scan_number_any1_def Let_def)
  ultimately show ?case by auto
qed

lemma to_string_head: "0 < n \<Longrightarrow> hd (to_string n) \<noteq> CHR ''0''"
proof (induction n rule: to_string.induct)
  case (1 n)
  show ?case
  proof (cases "n < 10")
    case True
    then have "code (char_of (0x30 + n)) \<noteq> code (CHR ''0'')" using 1 by (simp add: code_digit)
    then have "char_of (0x30 + n) \<noteq> CHR ''0''" by metis
    with True show ?thesis by (subst to_string.simps) simp
  next
    case False
    then have "0 < n div 10" by simp
    with 1 False show ?thesis by (subst to_string.simps) simp
  qed
qed

lemma ready_update [simp]:
  "ready (lx\<lparr>lex_unsigned := x\<rparr>) rest = ready lx rest" "ready (lx\<lparr>lex_integer := x\<rparr>) rest = ready lx rest"
  by (simp_all add: ready_def lexer_wf_def remaining_def)

lemma scan_done_unsigned:
  assumes "lexed lx rest (digits x)" "0 \<le> x" "x < 2 ^ 64"
  shows "\<exists>lx'. scan_number_done C value_unsigned (get lx) = (value_unsigned, lx') \<and> ready lx' rest \<and>
           0 < chars_read_total lx' \<and> lex_unsigned lx' = x"
  using ready_unget [OF assms(1)] assms(2,3)
  by (simp add: scan_number_done_def Let_def strtoull_def dec_value_to_string)

lemma scan_done_integer:
  assumes "lexed lx rest (CHR ''-'' # digits (- x))" "x < 0" "- (2 ^ 63) \<le> x"
  shows "\<exists>lx'. scan_number_done C value_integer (get lx) = (value_integer, lx') \<and> ready lx' rest \<and>
           0 < chars_read_total lx' \<and> lex_integer lx' = x"
  using ready_unget [OF assms(1)] assms(2,3)
  by (simp add: scan_number_done_def Let_def strtoll_def dec_value_to_string)

lemma digits_all: "list_all (\<lambda>c. is_digit (Some c)) (to_string n)"
  using to_string_digits by (auto simp: list_all_iff)

lemma lexed_reset: "lexed lx rest buf \<Longrightarrow> lexed (reset lx) rest ''''"
  by (simp add: lexed_def) (simp add: reset_def)

text \<open>The scanner stands on the first character of the number.\<close>

lemma scan_number_reads:
  assumes "- (2 ^ 63) \<le> x" "x < 2 ^ 64" "lexed lx cs buf" "current lx = Some c"
    and "c # cs = int_text x @ rest" "number_ends rest"
  shows "\<exists>t lx'. scan_number C lx = (t, lx') \<and> ready lx' rest \<and> 0 < chars_read_total lx' \<and>
           (t = value_unsigned \<and> lex_unsigned lx' = x \<or> t = value_integer \<and> lex_integer lx' = x)"
proof -
  have l: "lexed (add_current (reset lx)) cs [c]"
    using lexed_add_current [OF lexed_reset [OF assms(3)], of c] assms(4) by simp
  have cur: "current (add_current (reset lx)) = Some c"
    using assms(4) by (simp add: add_current_def)
  let ?lx = "add_current (reset lx)"
  consider "x = 0" | "x < 0" | "0 < x" by linarith
  then show ?thesis
  proof cases
    case 1
    then have c: "c = CHR ''0''" "cs = rest"
      using assms(5) by (simp_all add: int_text_def to_string.simps char_of_zero)
    then have "scan_number C lx = scan_number_done C value_unsigned (get ?lx)"
      using cur current_end [OF l [unfolded c] assms(6)] c(1)
      by (simp add: scan_number_def Let_def scan_number_from.simps [of C number_zero] scan_number_zero_def)
    with scan_done_unsigned [of ?lx rest 0 C] l c 1 show ?thesis
      by (auto simp: to_string.simps char_of_zero)
  next
    case 2
    let ?ds = "digits (- x)"
    have c: "c = CHR ''-''" "cs = ?ds @ rest" using 2 assms(5) by (simp_all add: int_text_def)
    obtain d ds where ds: "?ds = d # ds" by (cases ?ds) auto
    have d: "is_digit (Some d)" "d \<noteq> CHR ''0''" "list_all (\<lambda>c. is_digit (Some c)) ds"
      using digits_all [of "nat (- x)"] to_string_head [of "nat (- x)"] 2 ds by auto
    have l': "lexed ?lx (d # ds @ rest) ''-''" using l c ds by simp
    note g = lexed_get [OF l']
    obtain lx' where "scan_number_from C number_any1 value_integer (add_current (get ?lx)) =
        scan_number_done C value_integer (get lx')" "lexed lx' rest ((''-'' @ [d]) @ ds)"
      using scan_any1_reads [OF d(3) lexed_add_current [OF g] assms(6)] by blast
    moreover have "scan_number C lx = scan_number_from C number_any1 value_integer (add_current (get ?lx))"
      using cur c(1) g(2) d(1,2)
      by (simp add: scan_number_def Let_def scan_number_from.simps [of C number_minus] scan_number_minus_def)
    ultimately show ?thesis
      using scan_done_integer [of lx' rest x C] 2 assms(1) ds by auto
  next
    case 3
    obtain d ds where ds: "digits x = d # ds" by (cases "digits x") auto
    have c: "c = d" "cs = ds @ rest" using 3 assms(5) ds by (simp_all add: int_text_def)
    have d: "is_digit (Some d)" "d \<noteq> CHR ''0''" "list_all (\<lambda>c. is_digit (Some c)) ds"
      using digits_all [of "nat x"] to_string_head [of "nat x"] 3 ds by auto
    have "d \<noteq> CHR ''-''" using d(1) by (auto simp: is_digit_def)
    then have "scan_number C lx = scan_number_from C number_any1 value_unsigned ?lx"
      using cur c(1) d(1,2) by (simp add: scan_number_def Let_def)
    moreover obtain lx' where "scan_number_from C number_any1 value_unsigned ?lx =
        scan_number_done C value_unsigned (get lx')" "lexed lx' rest ([c] @ ds)"
      using scan_any1_reads [OF d(3) _ assms(6)] l c by blast
    ultimately show ?thesis
      using scan_done_unsigned [of lx' rest x C] 3 assms(2) ds c by auto
  qed
qed

end
