(* ===== verification/JsonCorrect.thy ===== *)
theory JsonCorrect
  imports JsonNumbers
begin

text \<open>
  The parser reads what the printer writes. The texts of the values the code sends are
  given by a plain recursion, \<open>json_text\<close>; the printer is shown to write them and the
  parser's loop to take them back, whatever follows. The promise \<open>json_ok\<close> the protocol
  relies on is then a fact about the library.
\<close>

section \<open>Texts\<close>

fun json_text :: "json \<Rightarrow> string"
  and members_text :: "(string \<times> json) list \<Rightarrow> string"
  and elems_text :: "json list \<Rightarrow> string"
where
  "json_text (JObj kvs) = ''{'' @ members_text kvs @ ''}''"
| "json_text (JArr xs) = ''['' @ elems_text xs @ '']''"
| "json_text (JStr s) = [quote] @ escaped s @ [quote]"
| "json_text (JBool b) = (if b then ''true'' else ''false'')"
| "json_text (JInt n) = int_text n"
| "json_text (JFloat q) = ''''"
| "json_text JNull = ''null''"
| "members_text [] = ''''"
| "members_text ((k, v) # kvs) =
     [quote] @ escaped k @ [quote] @ '':'' @ json_text v @ (if kvs = [] then '''' else '','' @ members_text kvs)"
| "elems_text [] = ''''"
| "elems_text (v # xs) = json_text v @ (if xs = [] then '''' else '','' @ elems_text xs)"

text \<open>
  The values without floating-point numbers that have a text: integers that fit the
  library's types, well-formed strings, objects as its maps hold them.
\<close>

fun plain_json :: "json \<Rightarrow> bool"
  and plain_members :: "(string \<times> json) list \<Rightarrow> bool"
  and plain_elems :: "json list \<Rightarrow> bool"
where
  "plain_json (JObj kvs) \<longleftrightarrow> sorted_wrt (<) (map fst kvs) \<and> plain_members kvs"
| "plain_json (JArr xs) \<longleftrightarrow> plain_elems xs"
| "plain_json (JStr s) \<longleftrightarrow> valid_utf8 s"
| "plain_json (JBool b) \<longleftrightarrow> True"
| "plain_json (JInt n) \<longleftrightarrow> - (2 ^ 63) \<le> n \<and> n < 2 ^ 64"
| "plain_json (JFloat q) \<longleftrightarrow> False"
| "plain_json JNull \<longleftrightarrow> True"
| "plain_members [] \<longleftrightarrow> True"
| "plain_members ((k, v) # kvs) \<longleftrightarrow> valid_utf8 k \<and> plain_json v \<and> plain_members kvs"
| "plain_elems [] \<longleftrightarrow> True"
| "plain_elems (v # xs) \<longleftrightarrow> plain_json v \<and> plain_elems xs"

section \<open>The printer\<close>

lemma plain_options_fields [simp]:
  "\<not> pretty_print plain_options" "\<not> ensure_ascii plain_options" "error_handler plain_options = strict"
  by (simp_all add: plain_options_def)

lemma write_escaped_valid: "valid_utf8 s \<Longrightarrow> write_escaped plain_options s = Inr (escaped s)"
  by (simp add: write_escaped_def dump_escaped_valid)

lemma length_number_buffer [simp]: "length number_buffer = 64"
  by (simp add: number_buffer_def)

lemma dump_plain:
  "plain_json j \<Longrightarrow> dump F plain_options n ind j = Inr (json_text j, ind)"
  "plain_members kvs \<Longrightarrow> dump_object F plain_options n ind kvs = Inr (members_text kvs, ind)"
  "plain_elems xs \<Longrightarrow> dump_array F plain_options n ind xs = Inr (elems_text xs, ind)"
  by (induction j and kvs and xs rule: json_text_members_text_elems_text.induct)
     (auto simp: write_escaped_valid dump_integer_eq Let_def)

lemma dump_text_plain: "plain_json j \<Longrightarrow> dump_text F j = Inr (json_text j)"
  using dump_plain(1) [of j F 0 "replicate 512 (CHR '' '')"]
  by (simp add: dump_text_def basic_json_dump_def plain_options_def)

section \<open>Tokens\<close>

text \<open>A parser that has the given text before it; at the very start no byte order mark.\<close>

definition before :: "parser \<Rightarrow> string \<Rightarrow> bool" where
  "before p rest \<longleftrightarrow>
     ready (m_lexer p) rest \<and> (chars_read_total (m_lexer p) = 0 \<longrightarrow> rest \<noteq> [] \<and> hd rest \<noteq> CHR 0xEF)"

lemma scan_first:
  assumes "ready lx (c # cs)" "\<not> is_blank (Some c)" "chars_read_total lx = 0 \<Longrightarrow> c \<noteq> CHR 0xEF"
  shows "\<exists>lx' buf. scan C lx = scan_token C lx' \<and> lexed lx' cs buf \<and> current lx' = Some c"
proof -
  define lx0 where "lx0 = (if chars_read_total lx = 0 then unget (get lx) else lx)"
  have g: "current (get lx) = Some c" "remaining (get lx) = cs"
    using get_remaining [of lx c cs] assms(1) by (simp_all add: ready_def)
  have bom: "(if chars_read_total lx = 0 then skip_bom lx else (True, lx)) = (True, lx0)"
    using g assms(3) by (simp add: lx0_def skip_bom_def Let_def)
  have r0: "ready lx0 (c # cs)"
    using assms(1) g unget_get_wf [of lx] by (simp add: lx0_def ready_def unget_remaining(1))
  then have l: "lexed (get lx0) cs (token_buffer lx0)" "current (get lx0) = Some c"
    using get_remaining [of lx0 c cs] by (simp_all add: ready_def lexed_def)
  have "skip_whitespace lx0 = get lx0"
    using l(2) assms(2) by (subst skip_whitespace.simps) (simp add: Let_def)
  moreover have "skip_comments (get lx0) = (True, get lx0)"
    using l(1) by (subst skip_comments.simps) (simp add: lexed_def)
  ultimately have "scan C lx = scan_token C (get lx0)"
    unfolding scan_def bom by simp
  with l show ?thesis by blast
qed

lemma before_scan:
  assumes "before p (c # cs)" "\<not> is_blank (Some c)"
  obtains lx buf where "get_token C p = (case scan_token C lx of (t, lx) \<Rightarrow> \<lparr>last_token = t, m_lexer = lx\<rparr>)"
    "lexed lx cs buf" "current lx = Some c"
  using scan_first [of "m_lexer p" c cs C] assms by (auto simp: before_def get_token_def)

lemma lexed_before: "lexed lx rest buf \<Longrightarrow> before \<lparr>last_token = t, m_lexer = lx\<rparr> rest"
  using lexed_ready [of lx rest buf] by (simp add: before_def lexed_def)

lemma structural_not_blank: "list_all (\<lambda>(c, t). \<not> is_blank (Some c)) structural"
  by code_simp

lemma token_structural:
  assumes "before p (c # rest)" "map_of structural c = Some t"
  shows "last_token (get_token C p) = t" "before (get_token C p) rest"
proof -
  have "\<not> is_blank (Some c)"
    using map_of_SomeD [OF assms(2)] structural_not_blank unfolding list_all_iff by blast
  then obtain lx buf where g: "get_token C p = (case scan_token C lx of (t, lx) \<Rightarrow> \<lparr>last_token = t, m_lexer = lx\<rparr>)"
    and lx: "lexed lx rest buf" "current lx = Some c" using before_scan [OF assms(1), of C] by blast
  have "scan_token C lx = (t, lx)" using lx(2) assms(2) by (simp add: scan_token_def)
  with g lx show "last_token (get_token C p) = t" "before (get_token C p) rest"
    by (auto intro: lexed_before)
qed

lemma token_string:
  assumes "before p (quote # escaped s @ quote # rest)" "valid_utf8 s"
  shows "last_token (get_token C p) = value_string" "before (get_token C p) rest"
    "token_buffer (m_lexer (get_token C p)) = s"
proof -
  obtain lx buf where g: "get_token C p = (case scan_token C lx of (t, lx) \<Rightarrow> \<lparr>last_token = t, m_lexer = lx\<rparr>)"
    and lx: "lexed lx (escaped s @ quote # rest) buf" "current lx = Some quote"
    using before_scan [OF assms(1), of C] by (auto simp: is_blank_def)
  have "map_of structural quote = None" "map_of scan_literals quote = None" by code_simp+
  then have "scan_token C lx = scan_string lx" using lx(2) by (simp add: scan_token_def)
  moreover obtain lx' where lx': "scan_string lx = (value_string, lx')" "lexed lx' rest s"
    using scan_string_reads [OF assms(2) lx(1)] by blast
  ultimately have "get_token C p = \<lparr>last_token = value_string, m_lexer = lx'\<rparr>" using g by simp
  with lexed_before [OF lx'(2)] show "last_token (get_token C p) = value_string"
    "before (get_token C p) rest" "token_buffer (m_lexer (get_token C p)) = s"
    using lx'(2) by (simp_all add: lexed_def)
qed

lemma literal_loop_reads:
  assumes "lexed lx (cs @ rest) buf"
  shows "\<exists>lx'. literal_loop cs lx = (True, lx') \<and> lexed lx' rest buf"
  using assms
proof (induction cs arbitrary: lx)
  case (Cons c cs)
  then have l: "lexed lx (c # cs @ rest) buf" by simp
  note g = lexed_get [OF l]
  from Cons.IH [OF g(1)] g(2) show ?case by (simp add: Let_def to_char_type_def)
qed simp

lemma token_literal:
  assumes "before p (l @ rest)" "l = c # cs" "map_of scan_literals c = Some (l, t)"
  shows "last_token (get_token C p) = t" "before (get_token C p) rest"
proof -
  have "(c, l, t) \<in> set scan_literals" using assms(3) by (rule map_of_SomeD)
  then have s: "\<not> is_blank (Some c)" "map_of structural c = None"
    by (auto simp: scan_literals_def is_blank_def structural_def)
  have b: "before p (c # cs @ rest)" using assms(1,2) by simp
  obtain lx buf where g: "get_token C p = (case scan_token C lx of (t, lx) \<Rightarrow> \<lparr>last_token = t, m_lexer = lx\<rparr>)"
    and lx: "lexed lx (cs @ rest) buf" "current lx = Some c"
    using before_scan [OF b s(1), of C] by blast
  obtain lx' where "literal_loop cs lx = (True, lx')" "lexed lx' rest buf"
    using literal_loop_reads [OF lx(1)] by blast
  then have "scan_token C lx = (t, lx')"
    using lx(2) s(2) assms(2,3) by (simp add: scan_token_def scan_literal_def)
  with g \<open>lexed lx' rest buf\<close> show "last_token (get_token C p) = t" "before (get_token C p) rest"
    by (auto intro: lexed_before)
qed

lemma int_text_head:
  "\<exists>c cs. int_text x = c # cs \<and> (c = CHR ''-'' \<or> is_digit (Some c))"
proof (cases "x < 0")
  case False
  then show ?thesis using digits_all [of "nat x"] by (cases "digits x") (auto simp: int_text_def)
qed (simp add: int_text_def)

lemma number_start:
  "list_all (\<lambda>c. \<not> is_blank (Some c) \<and> map_of structural c = None \<and> map_of scan_literals c = None \<and>
     c \<noteq> quote) ''-0123456789''"
  by code_simp

lemma digit_chars: "is_digit (Some c) \<Longrightarrow> c \<in> set ''0123456789''"
proof -
  assume "is_digit (Some c)"
  then have "code c \<in> set (upto 0x30 0x39)" by (simp only: set_upto is_digit_def option.case atLeastAtMost_iff)
  moreover have "list_all (\<lambda>b. char_of b \<in> set ''0123456789'') (upto 0x30 0x39 :: int list)" by code_simp
  ultimately have "char_of (code c) \<in> set ''0123456789''" unfolding list_all_iff by blast
  then show ?thesis by simp
qed

lemma token_integer:
  assumes "before p (int_text x @ rest)" "number_ends rest" "- (2 ^ 63) \<le> x" "x < 2 ^ 64"
  shows "before (get_token C p) rest"
    "last_token (get_token C p) = value_unsigned \<and> lex_unsigned (m_lexer (get_token C p)) = x \<or>
     last_token (get_token C p) = value_integer \<and> lex_integer (m_lexer (get_token C p)) = x"
proof -
  obtain c cs where c: "int_text x = c # cs" "c = CHR ''-'' \<or> is_digit (Some c)"
    using int_text_head by blast
  then have "c \<in> set ''-0123456789''" using digit_chars by fastforce
  then have s: "\<not> is_blank (Some c)" "map_of structural c = None" "map_of scan_literals c = None" "c \<noteq> quote"
    using number_start unfolding list_all_iff by blast+
  have b: "before p (c # cs @ rest)" using assms(1) c(1) by simp
  obtain lx buf where g: "get_token C p = (case scan_token C lx of (t, lx) \<Rightarrow> \<lparr>last_token = t, m_lexer = lx\<rparr>)"
    and lx: "lexed lx (cs @ rest) buf" "current lx = Some c"
    using before_scan [OF b s(1), of C] by blast
  have "c # cs @ rest = int_text x @ rest" using c(1) by simp
  then obtain t lx' where r: "scan_number C lx = (t, lx')" "ready lx' rest" "0 < chars_read_total lx'"
    "t = value_unsigned \<and> lex_unsigned lx' = x \<or> t = value_integer \<and> lex_integer lx' = x"
    using scan_number_reads [OF assms(3,4) lx _ assms(2)] by blast
  have "scan_token C lx = (t, lx')"
    using lx(2) s c(2) r(1) by (simp add: scan_token_def)
  then have "get_token C p = \<lparr>last_token = t, m_lexer = lx'\<rparr>" using g by simp
  with r(2-4) show "before (get_token C p) rest"
    "last_token (get_token C p) = value_unsigned \<and> lex_unsigned (m_lexer (get_token C p)) = x \<or>
     last_token (get_token C p) = value_integer \<and> lex_integer (m_lexer (get_token C p)) = x"
    by (auto simp: before_def)
qed

section \<open>The parser's loop\<close>

lemma sax_loop_state:
  "sax_loop C True (p, d, states) =
     (if states = [] then Inr (p, d)
      else (case sax_state C (p, d, states) of Inl e \<Rightarrow> Inl e | Inr (skip, st) \<Rightarrow> sax_loop C skip st))"
  by (subst sax_loop.simps) (simp add: sax_turn_def)

lemma sax_loop_value:
  "sax_loop C False st =
     (case sax_value C st of
        Inl e \<Rightarrow> Inl e
      | Inr (True, st') \<Rightarrow> sax_loop C False st'
      | Inr (False, st') \<Rightarrow> sax_loop C True st')"
  by (subst (1) sax_loop.simps) (auto simp: sax_turn_def sax_loop_state split: sum.split bool.split)

text \<open>After a value and a comma, or a closing bracket, of an array.\<close>

lemma array_comma:
  assumes "before p ('','' @ rest)"
  shows "\<exists>q. before q rest \<and> sax_loop C True (p, d, True # st) = sax_loop C False (get_token C q, d, True # st)"
  using token_structural [of p "CHR '',''" rest value_separator C] assms
  by (intro exI [of _ "get_token C p"]) (simp add: sax_loop_state sax_state_def Let_def structural_def)

lemma array_close:
  assumes "before p ('']'' @ rest)"
  shows "\<exists>q. before q rest \<and> sax_loop C True (p, d, True # st) = sax_loop C True (q, end_container d, st)"
  using token_structural [of p "CHR '']''" rest end_array C] assms
  by (intro exI [of _ "get_token C p"]) (simp add: sax_loop_state sax_state_def Let_def structural_def)

lemma object_comma:
  assumes "before p ('','' @ rest)"
  shows "\<exists>q. before q rest \<and> sax_loop C True (p, d, False # st) =
           (case sax_key C (get_token C q) d of
              Inl e \<Rightarrow> Inl e | Inr (p, d) \<Rightarrow> sax_loop C False (p, d, False # st))"
  using token_structural [of p "CHR '',''" rest value_separator C] assms
  by (intro exI [of _ "get_token C p"])
     (simp add: sax_loop_state sax_state_def Let_def structural_def bind_err_def split: sum.split prod.split)

lemma object_close:
  assumes "before p (''}'' @ rest)"
  shows "\<exists>q. before q rest \<and> sax_loop C True (p, d, False # st) = sax_loop C True (q, end_container d, st)"
  using token_structural [of p "CHR ''}''" rest end_object C] assms
  by (intro exI [of _ "get_token C p"]) (simp add: sax_loop_state sax_state_def Let_def structural_def)

lemma sax_key_reads:
  assumes "before p ([quote] @ escaped k @ [quote] @ '':'' @ rest)" "valid_utf8 k"
  shows "\<exists>q. before q rest \<and> sax_key C (get_token C p) d = Inr (get_token C q, handle_key k d)"
proof -
  have b: "before p (quote # escaped k @ quote # CHR '':'' # rest)" using assms(1) by simp
  note t = token_string [OF b assms(2), of C]
  note s = token_structural [OF t(2), of name_separator C]
  have "map_of structural (CHR '':'') = Some name_separator" by code_simp
  with s t show ?thesis
    by (intro exI [of _ "get_token C (get_token C p)"]) (simp add: sax_key_def Let_def)
qed

section \<open>The round trip\<close>

text \<open>The parser has read one value and looks at what follows it.\<close>

definition value_read :: "c_library \<Rightarrow> parser \<Rightarrow> json_sax_dom \<Rightarrow> bool list \<Rightarrow> json \<Rightarrow> string \<Rightarrow> bool" where
  "value_read C p d st v rest \<longleftrightarrow> last_token (get_token C p) \<noteq> end_array \<and>
     (\<exists>q. sax_loop C False (get_token C p, d, st) = sax_loop C True (q, handle_value v d, st) \<and> before q rest)"

lemma value_readI:
  assumes "sax_value C (get_token C p, d, st) = Inr (False, q, handle_value v d, st)" "before q rest"
    and "last_token (get_token C p) \<noteq> end_array"
  shows "value_read C p d st v rest"
  using assms by (auto simp: value_read_def sax_loop_value)

lemma end_container_open [simp]:
  "end_container (d\<lparr>ref_stack := OpenArray xs # ref_stack d\<rparr>) = handle_value (JArr xs) d"
  "end_container (d\<lparr>ref_stack := OpenObject kvs m # ref_stack d\<rparr>) = handle_value (JObj kvs) d"
  by (simp_all add: end_container_def)

abbreviation in_array :: "json_sax_dom \<Rightarrow> json list \<Rightarrow> json_sax_dom" where
  "in_array d xs \<equiv> d\<lparr>ref_stack := OpenArray xs # ref_stack d\<rparr>"

abbreviation in_object :: "json_sax_dom \<Rightarrow> (string \<times> json) list \<Rightarrow> string option \<Rightarrow> json_sax_dom" where
  "in_object d kvs m \<equiv> d\<lparr>ref_stack := OpenObject kvs m # ref_stack d\<rparr>"

lemma handle_in_array: "handle_value v (in_array d xs) = in_array d (xs @ [v])"
  by (simp add: handle_value_def)

lemma obj_put_last: "\<forall>k' \<in> set (map fst kvs). k' < k \<Longrightarrow> obj_put k v kvs = kvs @ [(k, v)]"
  by (induction kvs) (auto simp: not_less_iff_gr_or_eq)

lemma obj_put_overwrite: "\<forall>k' \<in> set (map fst kvs). k' < k \<Longrightarrow> obj_put k v (kvs @ [(k, w)]) = kvs @ [(k, v)]"
  by (induction kvs) (auto simp: not_less_iff_gr_or_eq)

lemma key_in_object:
  assumes "\<forall>k' \<in> set (map fst kvs). k' < k"
  shows "handle_value v (handle_key k (in_object d kvs m)) = in_object d (kvs @ [(k, v)]) (Some k)"
proof -
  have "map_of kvs k = None" using assms by (auto simp: map_of_eq_None_iff)
  then show ?thesis
    using assms by (simp add: handle_key_def handle_value_def obj_put_last obj_put_overwrite)
qed

text \<open>
  Values, the members of an object and the elements of an array, by induction on the text;
  what is already in the open container stays before what is read.
\<close>

definition members_read :: "c_library \<Rightarrow> (string \<times> json) list \<Rightarrow> bool" where
  "members_read C kvs \<longleftrightarrow>
     (\<forall>p d st kvs0 m rest. before p (members_text kvs @ ''}'' @ rest) \<longrightarrow> sorted_wrt (<) (map fst (kvs0 @ kvs)) \<longrightarrow>
        (\<exists>p' d' q. sax_key C (get_token C p) (in_object d kvs0 m) = Inr (p', d') \<and>
           sax_loop C False (p', d', False # st) = sax_loop C True (q, handle_value (JObj (kvs0 @ kvs)) d, st) \<and>
           before q rest))"

definition elems_read :: "c_library \<Rightarrow> json list \<Rightarrow> bool" where
  "elems_read C xs \<longleftrightarrow>
     (\<forall>p d st xs0 rest. before p (elems_text xs @ '']'' @ rest) \<longrightarrow>
        last_token (get_token C p) \<noteq> end_array \<and>
        (\<exists>q. sax_loop C False (get_token C p, in_array d xs0, True # st) =
               sax_loop C True (q, handle_value (JArr (xs0 @ xs)) d, st) \<and> before q rest))"

lemma number_ends_structural: "c \<in> set '',]}'' \<Longrightarrow> number_ends (c # rest)"
  by (auto simp: number_ends_def is_digit_def is_exponent_def)

lemma members_read_cons:
  assumes "valid_utf8 k" "kvs \<noteq> [] \<Longrightarrow> members_read C kvs"
    and v: "\<And>p d st rest. before p (json_text v @ rest) \<Longrightarrow> number_ends rest \<Longrightarrow> value_read C p d st v rest"
  shows "members_read C ((k, v) # kvs)"
  unfolding members_read_def
proof (intro allI impI)
  fix p d st kvs0 m rest
  assume b: "before p (members_text ((k, v) # kvs) @ ''}'' @ rest)"
    and sorted: "sorted_wrt (<) (map fst (kvs0 @ (k, v) # kvs))"
  let ?more = "(if kvs = [] then '''' else '','' @ members_text kvs) @ ''}'' @ rest"
  have "before p ([quote] @ escaped k @ [quote] @ '':'' @ (json_text v @ ?more))" using b by simp
  from sax_key_reads [OF this assms(1), of C "in_object d kvs0 m"]
  obtain p1 where p1: "before p1 (json_text v @ ?more)"
    "sax_key C (get_token C p) (in_object d kvs0 m) = Inr (get_token C p1, handle_key k (in_object d kvs0 m))" by blast
  have "number_ends ?more" using number_ends_structural by simp
  from v [OF p1(1) this, of "handle_key k (in_object d kvs0 m)" "False # st"]
  obtain p2 where p2: "before p2 ?more"
    "sax_loop C False (get_token C p1, handle_key k (in_object d kvs0 m), False # st) =
     sax_loop C True (p2, handle_value v (handle_key k (in_object d kvs0 m)), False # st)"
    by (auto simp: value_read_def)
  have h: "handle_value v (handle_key k (in_object d kvs0 m)) = in_object d (kvs0 @ [(k, v)]) (Some k)"
    using sorted by (intro key_in_object) (auto simp: sorted_wrt_append)
  have "\<exists>q. sax_loop C True (p2, in_object d (kvs0 @ [(k, v)]) (Some k), False # st) =
      sax_loop C True (q, handle_value (JObj (kvs0 @ (k, v) # kvs)) d, st) \<and> before q rest"
  proof (cases "kvs = []")
    case True
    then have "before p2 (''}'' @ rest)" using p2(1) by simp
    from object_close [OF this, of C "in_object d (kvs0 @ [(k, v)]) (Some k)" st] True show ?thesis
      unfolding end_container_open by blast
  next
    case False
    then have "before p2 ('','' @ (members_text kvs @ ''}'' @ rest))" using p2(1) by simp
    from object_comma [OF this, of C "in_object d (kvs0 @ [(k, v)]) (Some k)" st]
    obtain p3 where p3: "before p3 (members_text kvs @ ''}'' @ rest)"
      "sax_loop C True (p2, in_object d (kvs0 @ [(k, v)]) (Some k), False # st) =
         (case sax_key C (get_token C p3) (in_object d (kvs0 @ [(k, v)]) (Some k)) of
            Inl e \<Rightarrow> Inl e | Inr (p, d) \<Rightarrow> sax_loop C False (p, d, False # st))" by blast
    have "sorted_wrt (<) (map fst ((kvs0 @ [(k, v)]) @ kvs))" using sorted by simp
    then obtain p' d' q where "sax_key C (get_token C p3) (in_object d (kvs0 @ [(k, v)]) (Some k)) = Inr (p', d')"
      "sax_loop C False (p', d', False # st) = sax_loop C True (q, handle_value (JObj ((kvs0 @ [(k, v)]) @ kvs)) d, st)"
      "before q rest"
      using assms(2) [OF False] p3(1) unfolding members_read_def by blast
    with p3(2) show ?thesis by auto
  qed
  then obtain q where q: "sax_loop C True (p2, in_object d (kvs0 @ [(k, v)]) (Some k), False # st) =
      sax_loop C True (q, handle_value (JObj (kvs0 @ (k, v) # kvs)) d, st)" "before q rest" by blast
  show "\<exists>p' d' q. sax_key C (get_token C p) (in_object d kvs0 m) = Inr (p', d') \<and>
      sax_loop C False (p', d', False # st) = sax_loop C True (q, handle_value (JObj (kvs0 @ (k, v) # kvs)) d, st) \<and>
      before q rest"
    by (intro exI conjI, rule p1(2), unfold p2(2) h, rule q(1), rule q(2))
qed

lemma elems_read_cons:
  assumes "xs \<noteq> [] \<Longrightarrow> elems_read C xs"
    and v: "\<And>p d st rest. before p (json_text v @ rest) \<Longrightarrow> number_ends rest \<Longrightarrow> value_read C p d st v rest"
  shows "elems_read C (v # xs)"
  unfolding elems_read_def
proof (intro allI impI)
  fix p d st xs0 rest
  assume b: "before p (elems_text (v # xs) @ '']'' @ rest)"
  let ?more = "(if xs = [] then '''' else '','' @ elems_text xs) @ '']'' @ rest"
  have p: "before p (json_text v @ ?more)" using b by simp
  have "number_ends ?more" using number_ends_structural by simp
  note r = v [OF p this, of "in_array d xs0" "True # st"]
  then obtain p2 where p2: "before p2 ?more"
    "sax_loop C False (get_token C p, in_array d xs0, True # st) =
     sax_loop C True (p2, in_array d (xs0 @ [v]), True # st)"
    by (auto simp: value_read_def handle_in_array)
  have "\<exists>q. sax_loop C False (get_token C p, in_array d xs0, True # st) =
      sax_loop C True (q, handle_value (JArr (xs0 @ v # xs)) d, st) \<and> before q rest"
  proof (cases "xs = []")
    case True
    then have "before p2 ('']'' @ rest)" using p2(1) by simp
    from array_close [OF this, of C "in_array d (xs0 @ [v])" st] True p2(2) show ?thesis
      unfolding end_container_open by auto
  next
    case False
    then have "before p2 ('','' @ (elems_text xs @ '']'' @ rest))" using p2(1) by simp
    from array_comma [OF this, of C "in_array d (xs0 @ [v])" st]
    obtain p3 where p3: "before p3 (elems_text xs @ '']'' @ rest)"
      "sax_loop C True (p2, in_array d (xs0 @ [v]), True # st) =
       sax_loop C False (get_token C p3, in_array d (xs0 @ [v]), True # st)" by blast
    then obtain q where "sax_loop C False (get_token C p3, in_array d (xs0 @ [v]), True # st) =
        sax_loop C True (q, handle_value (JArr ((xs0 @ [v]) @ xs)) d, st)" "before q rest"
      using assms(1) [OF False] unfolding elems_read_def by blast
    with p2(2) p3(2) show ?thesis by auto
  qed
  with r show "last_token (get_token C p) \<noteq> end_array \<and>
      (\<exists>q. sax_loop C False (get_token C p, in_array d xs0, True # st) =
        sax_loop C True (q, handle_value (JArr (xs0 @ v # xs)) d, st) \<and> before q rest)"
    by (simp add: value_read_def)
qed

lemma value_read_literal:
  assumes "before p (l @ rest)" "l = c # cs" "map_of scan_literals c = Some (l, t)"
    and "t = literal_true \<and> v = JBool True \<or> t = literal_false \<and> v = JBool False \<or> t = literal_null \<and> v = JNull"
  shows "value_read C p d st v rest"
  using token_literal [OF assms(1-3), of C] assms(4)
  by (intro value_readI [of C p d st "get_token C p"]) (auto simp: sax_value_def Let_def)

lemma object_read:
  assumes "before p (''{'' @ members_text kvs @ ''}'' @ rest)" "sorted_wrt (<) (map fst kvs)"
    and "kvs \<noteq> [] \<Longrightarrow> members_read C kvs"
  shows "value_read C p d st (JObj kvs) rest"
proof -
  let ?p = "get_token C p" and ?q = "get_token C (get_token C p)"
  have s: "map_of structural (CHR ''{'') = Some begin_object" "map_of structural (CHR ''}'') = Some end_object" by code_simp+
  have t: "last_token ?p = begin_object" "before ?p (members_text kvs @ ''}'' @ rest)"
    using token_structural [of p "CHR ''{''" _ begin_object C] assms(1) s(1) by simp_all
  have start: "start_object d = in_object d [] None" by (simp add: start_object_def)
  show ?thesis
  proof (cases "kvs = []")
    case True
    then have e: "last_token ?q = end_object" "before ?q rest"
      using token_structural [of ?p "CHR ''}''" rest end_object C] t(2) s(2) by simp_all
    have "sax_value C (?p, d, st) = Inr (False, ?q, handle_value (JObj kvs) d, st)"
      using t(1) e(1) True by (simp add: sax_value_def Let_def start)
    with e(2) t(1) show ?thesis by (intro value_readI) auto
  next
    case False
    then obtain p' d' q where r: "sax_key C ?q (in_object d [] None) = Inr (p', d')"
      "sax_loop C False (p', d', False # st) = sax_loop C True (q, handle_value (JObj ([] @ kvs)) d, st)"
      "before q rest"
      using assms(2,3) t(2) unfolding members_read_def by (metis append_Nil)
    from r(1) have "last_token ?q \<noteq> end_object" by (auto simp: sax_key_def split: if_split_asm)
    then have "sax_value C (?p, d, st) = Inr (True, p', d', False # st)"
      using t(1) r(1) by (simp add: sax_value_def Let_def start)
    then show ?thesis using r(2,3) t(1) by (auto simp: value_read_def sax_loop_value)
  qed
qed

lemma array_read:
  assumes "before p (''['' @ elems_text xs @ '']'' @ rest)" "xs \<noteq> [] \<Longrightarrow> elems_read C xs"
  shows "value_read C p d st (JArr xs) rest"
proof -
  let ?p = "get_token C p" and ?q = "get_token C (get_token C p)"
  have s: "map_of structural (CHR ''['') = Some begin_array" "map_of structural (CHR '']'') = Some end_array" by code_simp+
  have t: "last_token ?p = begin_array" "before ?p (elems_text xs @ '']'' @ rest)"
    using token_structural [of p "CHR ''[''" _ begin_array C] assms(1) s(1) by simp_all
  have start: "start_array d = in_array d []" by (simp add: start_array_def)
  show ?thesis
  proof (cases "xs = []")
    case True
    then have e: "last_token ?q = end_array" "before ?q rest"
      using token_structural [of ?p "CHR '']''" rest end_array C] t(2) s(2) by simp_all
    have "sax_value C (?p, d, st) = Inr (False, ?q, handle_value (JArr xs) d, st)"
      using t(1) e(1) True by (simp add: sax_value_def Let_def start)
    with e(2) t(1) show ?thesis by (intro value_readI) auto
  next
    case False
    then have "last_token ?q \<noteq> end_array" and
      "\<exists>q. sax_loop C False (?q, in_array d [], True # st) = sax_loop C True (q, handle_value (JArr ([] @ xs)) d, st) \<and>
         before q rest"
      using assms(2) t(2) unfolding elems_read_def by blast+
    moreover from this(1) have "sax_value C (?p, d, st) = Inr (True, ?q, in_array d [], True # st)"
      using t(1) by (simp add: sax_value_def Let_def start)
    ultimately show ?thesis using t(1) by (auto simp: value_read_def sax_loop_value)
  qed
qed

lemma text_read:
  "plain_json v \<Longrightarrow> before p (json_text v @ rest) \<Longrightarrow> number_ends rest \<Longrightarrow> value_read C p d st v rest"
  "plain_members kvs \<Longrightarrow> kvs \<noteq> [] \<Longrightarrow> members_read C kvs"
  "plain_elems xs \<Longrightarrow> xs \<noteq> [] \<Longrightarrow> elems_read C xs"
proof (induction v and kvs and xs arbitrary: p d st rest and p d st rest and p d st rest
    rule: json_text_members_text_elems_text.induct)
  case (1 kvs)
  then show ?case by (intro object_read) simp_all
next
  case (2 xs)
  then show ?case by (intro array_read) simp_all
next
  case (3 s)
  then have "before p (quote # escaped s @ quote # rest)" "valid_utf8 s" by simp_all
  note t = token_string [OF this, of C]
  then show ?case by (intro value_readI [of C p d st "get_token C p"]) (simp_all add: sax_value_def Let_def)
next
  case (4 b)
  have "map_of scan_literals (CHR ''t'') = Some (''true'', literal_true)"
    "map_of scan_literals (CHR ''f'') = Some (''false'', literal_false)" by code_simp+
  with 4 value_read_literal [of p "''true''" rest "CHR ''t''" "''rue''" literal_true "JBool True"]
    value_read_literal [of p "''false''" rest "CHR ''f''" "''alse''" literal_false "JBool False"]
    show ?case by (cases b) simp_all
next
  case (5 n)
  then have "before p (int_text n @ rest)" "- (2 ^ 63) \<le> n" "n < 2 ^ 64" by simp_all
  from token_integer [OF this(1) "5.prems"(3) this(2,3), of C] show ?case
    by (intro value_readI [of C p d st "get_token C p"]) (auto simp: sax_value_def Let_def)
next
  case 7
  have "map_of scan_literals (CHR ''n'') = Some (''null'', literal_null)" by code_simp
  with 7 show ?case
    by (auto intro!: value_read_literal [of p "''null''" rest "CHR ''n''" "''ull''" literal_null])
next
  case (9 k v kvs)
  then show ?case by (intro members_read_cons) simp_all
next
  case (11 v xs)
  then show ?case by (intro elems_read_cons) simp_all
qed simp_all

lemma json_text_head:
  "plain_json j \<Longrightarrow> \<exists>c cs. json_text j = c # cs \<and> c \<noteq> CHR 0xEF"
proof (cases j)
  case (JInt n)
  obtain c cs where c: "int_text n = c # cs" "c = CHR ''-'' \<or> is_digit (Some c)" using int_text_head by blast
  then have "c \<noteq> CHR 0xEF" by (auto simp: is_digit_def)
  with JInt c(1) show ?thesis by simp
qed auto

lemma token_end:
  assumes "before p ''''"
  shows "last_token (get_token C p) = end_of_input"
proof -
  let ?lx = "m_lexer p"
  have r: "ready ?lx ''''" "chars_read_total ?lx \<noteq> 0" using assms by (auto simp: before_def)
  then have "current (get ?lx) = None" using get_end [of ?lx] by (simp add: ready_def)
  then have w: "skip_whitespace ?lx = get ?lx" by (subst skip_whitespace.simps) (simp add: Let_def is_blank_def)
  have c: "skip_comments (get ?lx) = (True, get ?lx)"
    using r(1) by (subst skip_comments.simps) (simp add: ready_def)
  have "scan C ?lx = (end_of_input, get ?lx)"
    using r(2) \<open>current (get ?lx) = None\<close> by (simp add: scan_def w c scan_token_def)
  then show ?thesis by (simp add: get_token_def)
qed

lemma parse_text:
  assumes "plain_json j" "number_ends rest"
  shows "\<exists>p. sax_parse_internal C (parser_new C False (json_text j @ rest)) =
           Inr (p, \<lparr>root = j, ref_stack = []\<rparr>) \<and> before p rest"
proof -
  let ?p = "\<lparr>last_token = uninitialized, m_lexer = lexer_new C False (json_text j @ rest)\<rparr>"
  have "before ?p (json_text j @ rest)"
    using json_text_head [OF assms(1)]
    by (auto simp: before_def ready_def lexer_new_def lexer_wf_def remaining_def)
  from text_read(1) [OF assms(1) this assms(2), of C "\<lparr>root = JNull, ref_stack = []\<rparr>" "[]"]
  obtain q where "sax_loop C False (get_token C ?p, \<lparr>root = JNull, ref_stack = []\<rparr>, []) =
      sax_loop C True (q, handle_value j \<lparr>root = JNull, ref_stack = []\<rparr>, [])" "before q rest"
    by (auto simp: value_read_def)
  then show ?thesis
    by (simp add: sax_parse_internal_def parser_new_def sax_loop_state handle_value_def)
qed

lemma parse_json_text: "plain_json j \<Longrightarrow> parse C (json_text j) = Inr j"
  using parse_text [of j "''''" C] token_end by (auto simp: parse_def parser_parse_def number_ends_def)

lemma parse_stream_json_text: "plain_json j \<Longrightarrow> number_ends rest \<Longrightarrow> parse_stream C (json_text j @ rest) = Inr j"
  using parse_text [of j rest C] by (auto simp: parse_stream_def parser_parse_def)

end
