(* ===== verification/JsonLib.thy ===== *)
theory JsonLib
  imports JsonCorrect
begin

text \<open>
  The library as its clients see it: \<open>nlohmann C F\<close> gives the fields of \<open>json_lib\<close> the
  parser and the printer of the library, for any C library and any text of floating-point
  numbers. It keeps the promise the protocol relies on.
\<close>

definition of_result :: "'e + 'a \<Rightarrow> 'a option" where
  "of_result r = (case r of Inl _ \<Rightarrow> None | Inr x \<Rightarrow> Some x)"

definition nlohmann :: "c_library \<Rightarrow> (rat \<Rightarrow> string) \<Rightarrow> json_lib" where
  "nlohmann C F =
     \<lparr>json_read = (\<lambda>txt. of_result (parse_stream C txt)), json_parse = (\<lambda>txt. of_result (parse C txt)),
      json_dump = (\<lambda>j. of_result (dump_text F j))\<rparr>"

lemma of_result_simps [simp]:
  "of_result (Inl e) = None" "of_result (Inr x) = Some x"
  "of_result r = Some y \<longleftrightarrow> r = Inr y" "of_result r = None \<longleftrightarrow> (\<exists>e. r = Inl e)"
  by (simp_all add: of_result_def split: sum.split)

lemma nlohmann_fields [simp]:
  "json_read (nlohmann C F) txt = of_result (parse_stream C txt)"
  "json_parse (nlohmann C F) txt = of_result (parse C txt)"
  "json_dump (nlohmann C F) j = of_result (dump_text F j)"
  by (simp_all add: nlohmann_def)

text \<open>A string that is not well-formed UTF-8 makes \<^verbatim>\<open>dump()\<close> throw.\<close>

lemma write_escaped_Inr: "write_escaped plain_options s = Inr t \<longleftrightarrow> valid_utf8 s \<and> t = escaped s"
  using dump_escaped_invalid [of s]
  by (cases "valid_utf8 s") (auto simp: write_escaped_def dump_escaped_valid split: sum.split_asm)

text \<open>Values that fit the library's types, whatever the bytes of their strings.\<close>

fun typed_json :: "json \<Rightarrow> bool"
  and typed_members :: "(string \<times> json) list \<Rightarrow> bool"
  and typed_elems :: "json list \<Rightarrow> bool"
where
  "typed_json (JObj kvs) \<longleftrightarrow> sorted_wrt (<) (map fst kvs) \<and> typed_members kvs"
| "typed_json (JArr xs) \<longleftrightarrow> typed_elems xs"
| "typed_json (JInt n) \<longleftrightarrow> - (2 ^ 63) \<le> n \<and> n < 2 ^ 64"
| "typed_json (JFloat q) \<longleftrightarrow> False"
| "typed_json _ \<longleftrightarrow> True"
| "typed_members [] \<longleftrightarrow> True"
| "typed_members ((k, v) # kvs) \<longleftrightarrow> typed_json v \<and> typed_members kvs"
| "typed_elems [] \<longleftrightarrow> True"
| "typed_elems (v # xs) \<longleftrightarrow> typed_json v \<and> typed_elems xs"

lemma dump_plain_only:
  "typed_json j \<Longrightarrow> dump F plain_options n ind j = Inr r \<Longrightarrow> plain_json j"
  "typed_members kvs \<Longrightarrow> dump_object F plain_options n ind kvs = Inr r \<Longrightarrow> plain_members kvs"
  "typed_elems xs \<Longrightarrow> dump_array F plain_options n ind xs = Inr r \<Longrightarrow> plain_elems xs"
  by (induction j and kvs and xs arbitrary: r ind and r ind and r ind
      rule: json_text_members_text_elems_text.induct)
     (fastforce simp: write_escaped_Inr bind_err_Inr Let_def split: if_split_asm)+

lemma dump_text_iff:
  assumes "typed_json j"
  shows "dump_text F j = Inr txt \<longleftrightarrow> plain_json j \<and> txt = json_text j"
proof
  assume d: "dump_text F j = Inr txt"
  then obtain r where "dump F plain_options 0 (replicate 512 (CHR '' '')) j = Inr r"
    by (auto simp: dump_text_def basic_json_dump_def plain_options_def bind_err_Inr)
  with assms have "plain_json j" by (rule dump_plain_only(1))
  with d show "plain_json j \<and> txt = json_text j" by (simp add: dump_text_plain)
qed (simp add: dump_text_plain)

lemma string_members_typed:
  assumes "string_members kvs" shows "typed_json (JObj kvs)"
proof -
  have "list_all (\<lambda>(k, v). case v of JStr s \<Rightarrow> True | _ \<Rightarrow> False) kvs \<Longrightarrow> typed_members kvs"
    by (induction kvs) (auto split: json.split_asm)
  with assms show ?thesis by (simp add: string_members_def)
qed

lemma nlohmann_ok: "json_ok (nlohmann C F)"
proof (unfold json_ok_def, intro allI impI conjI)
  fix kvs t
  assume "string_members kvs" "json_dump (nlohmann C F) (JObj kvs) = Some t"
  then have p: "plain_json (JObj kvs)" "t = json_text (JObj kvs)"
    using dump_text_iff [OF string_members_typed, of kvs F t] by simp_all
  show "t \<noteq> ''''" unfolding p(2) by simp
  show "\<exists>kvs'. json_parse (nlohmann C F) t = Some (JObj kvs') \<and> map_of kvs' = map_of kvs"
    using parse_json_text [OF p(1), of C] by (simp add: p(2))
qed

lemma valid_ascii: "list_all (\<lambda>c. code c \<le> 0x7F) s \<Longrightarrow> valid_utf8 s"
  by (induction s) (simp_all add: lead_ranges_def)

text \<open>A library to evaluate on: the C locale, and a printer for the floating-point number 0.\<close>

definition demo_c :: c_library where
  "demo_c = \<lparr>decimal_point = Some (CHR ''.''), strtod = (\<lambda>_. Some 0)\<rparr>"

definition demo_json :: json_lib where
  "demo_json = nlohmann demo_c (\<lambda>_. ''0.0'')"

lemma demo_json_ok: "json_ok demo_json"
  by (simp add: demo_json_def nlohmann_ok)

lemma demo_json_dump: "plain_json j \<Longrightarrow> json_dump demo_json j = Some (json_text j)"
  by (simp add: demo_json_def dump_text_plain)

end
