(* ===== verification/JsonCanonical.thy ===== *)
theory JsonCanonical
  imports JsonLib
begin

text \<open>
  What the parser promises of every value it delivers, whatever the input: strings and keys
  are well-formed UTF-8, integers fit 64 bits, objects hold their members in the order of
  the keys without duplicates. So a value that was read can be printed again.
\<close>

section \<open>Canonical values\<close>

fun canonical :: "json \<Rightarrow> bool"
  and canonical_members :: "(string \<times> json) list \<Rightarrow> bool"
  and canonical_elems :: "json list \<Rightarrow> bool"
where
  "canonical (JObj kvs) \<longleftrightarrow> sorted_wrt (<) (map fst kvs) \<and> canonical_members kvs"
| "canonical (JArr xs) \<longleftrightarrow> canonical_elems xs"
| "canonical (JStr s) \<longleftrightarrow> valid_utf8 s"
| "canonical (JInt n) \<longleftrightarrow> - (2 ^ 63) \<le> n \<and> n < 2 ^ 64"
| "canonical (JBool b) \<longleftrightarrow> True"
| "canonical (JFloat q) \<longleftrightarrow> True"
| "canonical JNull \<longleftrightarrow> True"
| "canonical_members [] \<longleftrightarrow> True"
| "canonical_members ((k, v) # kvs) \<longleftrightarrow> valid_utf8 k \<and> canonical v \<and> canonical_members kvs"
| "canonical_elems [] \<longleftrightarrow> True"
| "canonical_elems (v # xs) \<longleftrightarrow> canonical v \<and> canonical_elems xs"

fun float_free :: "json \<Rightarrow> bool"
  and float_free_members :: "(string \<times> json) list \<Rightarrow> bool"
  and float_free_elems :: "json list \<Rightarrow> bool"
where
  "float_free (JObj kvs) \<longleftrightarrow> float_free_members kvs"
| "float_free (JArr xs) \<longleftrightarrow> float_free_elems xs"
| "float_free (JFloat q) \<longleftrightarrow> False"
| "float_free _ \<longleftrightarrow> True"
| "float_free_members [] \<longleftrightarrow> True"
| "float_free_members ((k, v) # kvs) \<longleftrightarrow> float_free v \<and> float_free_members kvs"
| "float_free_elems [] \<longleftrightarrow> True"
| "float_free_elems (v # xs) \<longleftrightarrow> float_free v \<and> float_free_elems xs"

lemma plain_canonical:
  "plain_json j \<longleftrightarrow> canonical j \<and> float_free j"
  "plain_members kvs \<longleftrightarrow> canonical_members kvs \<and> float_free_members kvs"
  "plain_elems xs \<longleftrightarrow> canonical_elems xs \<and> float_free_elems xs"
  by (induction j and kvs and xs rule: canonical_canonical_members_canonical_elems.induct) auto

lemma canonical_elems_snoc: "canonical_elems (xs @ [v]) \<longleftrightarrow> canonical_elems xs \<and> canonical v"
  by (induction xs) auto

lemma obj_put_keys: "x \<in> set (obj_put k v kvs) \<Longrightarrow> fst x = k \<or> x \<in> set kvs"
  by (induction kvs) (auto split: if_split_asm)

lemma canonical_put:
  assumes "canonical_members kvs" "sorted_wrt (<) (map fst kvs)" "valid_utf8 k" "canonical v"
  shows "canonical_members (obj_put k v kvs)" "sorted_wrt (<) (map fst (obj_put k v kvs))"
proof -
  show "canonical_members (obj_put k v kvs)" using assms by (induction kvs) auto
  show "sorted_wrt (<) (map fst (obj_put k v kvs))"
    using assms(2)
  proof (induction kvs)
    case (Cons kv kvs)
    obtain k' v' where kv: "kv = (k', v')" by fastforce
    from Cons have s: "sorted_wrt (<) (map fst (obj_put k v kvs))" "\<forall>x \<in> set (map fst kvs). k' < x"
      by (simp_all add: kv)
    consider "k = k'" | "k < k'" | "k' < k" by fastforce
    then show ?case
    proof cases
      case 3
      then show ?thesis using s obj_put_keys [of _ k v kvs] by (fastforce simp: kv)
    qed (use Cons.prems in \<open>auto simp: kv intro: less_trans\<close>)
  qed simp
qed

section \<open>Strings\<close>

lemma take_ranges_append: "take_ranges rs cs = Some cs' \<Longrightarrow> take_ranges rs (cs @ ds) = Some (cs' @ ds)"
  by (induction rs cs rule: take_ranges.induct) (auto split: if_split_asm)

lemma valid_utf8_append: "valid_utf8 s \<Longrightarrow> valid_utf8 t \<Longrightarrow> valid_utf8 (s @ t)"
proof (induction s rule: valid_utf8.induct)
  case (2 c cs)
  then obtain cs' where r: "Option.bind (lead_ranges c) (\<lambda>rs. take_ranges rs cs) = Some cs'" "valid_utf8 cs'"
    by (auto split: option.split_asm)
  then have "Option.bind (lead_ranges c) (\<lambda>rs. take_ranges rs (cs @ t)) = Some (cs' @ t)"
    by (auto simp: bind_eq_Some_conv take_ranges_append)
  with "2.IH" [OF r "2.prems"(2)] show ?case by simp
qed simp

lemma valid_utf8_ascii: "code c \<le> 0x7F \<Longrightarrow> valid_utf8 [c]"
  by (simp add: lead_ranges_def)

lemma range_loop_valid:
  "range_loop rs lx = (True, lx') \<Longrightarrow>
   \<exists>bs. token_buffer lx' = token_buffer lx @ bs \<and> take_ranges rs bs = Some []"
proof (induction rs lx rule: range_loop.induct)
  case (2 lo hi rs lx)
  then obtain c where c: "current (get lx) = Some c" "lo \<le> code c" "code c \<le> hi"
    "range_loop rs (add c (get lx)) = (True, lx')"
    by (auto simp: Let_def split: option.split_asm if_split_asm)
  from "2.IH" [OF refl c(1) _ c(4)] c(2,3) obtain bs where
    "token_buffer lx' = token_buffer (add c (get lx)) @ bs" "take_ranges rs bs = Some []" by auto
  with c(2,3) show ?case by (intro exI [of _ "c # bs"]) simp
qed simp

lemma string_multibyte_valid:
  assumes "string_multibyte c lx = (None, lx')" "current lx = Some c" "\<not> code c \<le> 0x7F" "valid_utf8 (token_buffer lx)"
  shows "valid_utf8 (token_buffer lx')"
proof -
  obtain rs where rs: "utf8_ranges (code c) = Some rs" "range_loop rs (add_current lx) = (True, lx')"
    using assms(1)
    by (auto simp: string_multibyte_def next_byte_in_range_def fail_def
        split: option.split_asm prod.split_asm bool.split_asm)
  from range_loop_valid [OF rs(2)] obtain bs where
    "token_buffer lx' = token_buffer (add_current lx) @ bs" "take_ranges rs bs = Some []" by blast
  then have b: "token_buffer lx' = token_buffer lx @ (c # bs)" "valid_utf8 (c # bs)"
    using assms(2,3) rs(1) by (simp_all add: add_current_def to_char_type_def lead_ranges_def)
  show ?thesis unfolding b(1) by (rule valid_utf8_append [OF assms(4) b(2)])
qed

text \<open>The bytes of a code point outside the surrogates.\<close>

lemma or_bits:
  "list_all (\<lambda>x. 0xC0 OR x = 0xC0 + x \<and> 0xE0 OR (x mod 16) = 0xE0 + x mod 16 \<and> 0xF0 OR (x mod 8) = 0xF0 + x mod 8)
     (upto 0 31 :: int list)"
  "list_all (\<lambda>x. 0x80 OR x = 0x80 + x) (upto 0 63 :: int list)"
  by code_simp+

lemma or_lead:
  fixes x :: int assumes "0 \<le> x"
  shows "x < 32 \<Longrightarrow> 0xC0 OR x = 0xC0 + x" "x < 16 \<Longrightarrow> 0xE0 OR x = 0xE0 + x" "x < 8 \<Longrightarrow> 0xF0 OR x = 0xF0 + x"
proof -
  have a: "0xC0 OR y = 0xC0 + y \<and> 0xE0 OR (y mod 16) = 0xE0 + y mod 16 \<and> 0xF0 OR (y mod 8) = 0xF0 + y mod 8"
    if "0 \<le> y" "y < 32" for y :: int
  proof -
    have "y \<in> set (upto 0 31)" unfolding set_upto atLeastAtMost_iff using that by linarith
    then show ?thesis using or_bits(1) unfolding list_all_iff by blast
  qed
  show "x < 32 \<Longrightarrow> 0xC0 OR x = 0xC0 + x" "x < 16 \<Longrightarrow> 0xE0 OR x = 0xE0 + x" "x < 8 \<Longrightarrow> 0xF0 OR x = 0xF0 + x"
    using a [of x] assms by simp_all
qed

lemma or_tail: "0x80 OR (n AND 0x3F) = 0x80 + n mod (64 :: int)"
proof -
  have "n mod 64 \<in> set (upto 0 63)" by (simp only: set_upto atLeastAtMost_iff) simp
  then show ?thesis using or_bits(2) unfolding and_low_bits list_all_iff by blast
qed

definition code_point :: "int \<Rightarrow> bool" where
  "code_point cp \<longleftrightarrow> 0 \<le> cp \<and> cp \<le> 0x10FFFF \<and> \<not> (0xD800 \<le> cp \<and> cp \<le> 0xDFFF)"

lemma bytes_in_range:
  assumes "list_all2 (\<lambda>b r. fst r \<le> b \<and> b \<le> snd r) bs rs" "\<forall>b \<in> set bs. 0 \<le> b \<and> b \<le> 255"
  shows "take_ranges rs (map char_of bs) = Some []"
  using assms by (induction bs rs rule: list_all2_induct) auto

lemma valid_bytes:
  assumes "\<not> b \<le> 0x7F" "b \<le> 255" "utf8_ranges b = Some rs"
    and "list_all2 (\<lambda>b r. fst r \<le> b \<and> b \<le> snd r) bs rs" "\<forall>b \<in> set bs. 0 \<le> b \<and> b \<le> 255"
  shows "valid_utf8 (map char_of (b # bs))"
proof -
  have "code (char_of b) = b" using assms(1,2) by simp
  with assms(1,3) have "lead_ranges (char_of b) = Some rs" by (simp add: lead_ranges_def)
  with bytes_in_range [OF assms(4,5)] show ?thesis by simp
qed

lemma three_bytes:
  fixes a b c :: int
  assumes "0 \<le> a" "a < 16" "a = 0 \<longrightarrow> 0x20 \<le> b" "a = 13 \<longrightarrow> b \<le> 0x1F" "0 \<le> b" "b \<le> 63" "0 \<le> c" "c \<le> 63"
  shows "valid_utf8 (map char_of [0xE0 + a, 0x80 + b, 0x80 + c])"
proof -
  obtain rs where "utf8_ranges (0xE0 + a) = Some rs"
    "list_all2 (\<lambda>b r. fst r \<le> b \<and> b \<le> snd r) [0x80 + b, 0x80 + c] rs"
  proof (cases "a = 0 \<or> a = 13")
    case True
    then show thesis using assms that by (auto simp: utf8_ranges_def)
  next
    case False
    then have "a \<le> 12 \<or> a = 14 \<or> a = 15" using assms(2) by linarith
    with False have "utf8_ranges (0xE0 + a) = Some [(0x80, 0xBF), (0x80, 0xBF)]"
      using assms(1) by (auto simp: utf8_ranges_def)
    then show thesis using assms that by simp
  qed
  then show ?thesis using assms by (intro valid_bytes) auto
qed

lemma four_bytes:
  fixes a b c d :: int
  assumes "0 \<le> a" "a \<le> 4" "a = 0 \<longrightarrow> 0x10 \<le> b" "a = 4 \<longrightarrow> b \<le> 0x0F" "0 \<le> b" "b \<le> 63"
    "0 \<le> c" "c \<le> 63" "0 \<le> d" "d \<le> 63"
  shows "valid_utf8 (map char_of [0xF0 + a, 0x80 + b, 0x80 + c, 0x80 + d])"
proof -
  obtain rs where "utf8_ranges (0xF0 + a) = Some rs"
    "list_all2 (\<lambda>b r. fst r \<le> b \<and> b \<le> snd r) [0x80 + b, 0x80 + c, 0x80 + d] rs"
  proof (cases "a = 0 \<or> a = 4")
    case True
    then show thesis using assms that by (auto simp: utf8_ranges_def)
  next
    case False
    then have "utf8_ranges (0xF0 + a) = Some [(0x80, 0xBF), (0x80, 0xBF), (0x80, 0xBF)]"
      using assms(1,2) by (simp add: utf8_ranges_def)
    then show thesis using assms that by simp
  qed
  then show ?thesis using assms by (intro valid_bytes) auto
qed

lemma codepoint_bytes_valid:
  assumes "code_point cp"
  shows "valid_utf8 (map char_of (codepoint_bytes cp))"
proof -
  have cp: "0 \<le> cp" "cp \<le> 0x10FFFF" "\<not> (0xD800 \<le> cp \<and> cp \<le> 0xDFFF)"
    using assms by (auto simp: code_point_def)
  have d: "drop_bit 6 cp = cp div 64" "drop_bit 12 cp = cp div 4096" "drop_bit 18 cp = cp div 262144"
    by (simp_all add: drop_bit_eq_div)
  have m: "0 \<le> n mod 64" "n mod 64 \<le> 63" for n :: int using pos_mod_bound [of 64 n] by simp_all
  have split: "n = 64 * (n div 64) + n mod 64" for n :: int by simp
  have q: "cp div 4096 = cp div 64 div 64" "cp div 262144 = cp div 64 div 64 div 64"
    by (simp_all add: zdiv_zmult2_eq [symmetric])
  have s64: "cp = 64 * (cp div 64) + cp mod 64" by (rule split)
  have s4k: "cp div 64 = 64 * (cp div 4096) + cp div 64 mod 64" unfolding q(1) by (rule split)
  have s256k: "cp div 4096 = 64 * (cp div 262144) + cp div 4096 mod 64" unfolding q by (rule split)
  consider "cp < 0x80" | "0x80 \<le> cp" "cp \<le> 0x7FF" | "0x7FF < cp" "cp \<le> 0xFFFF" | "0xFFFF < cp" by linarith
  then show ?thesis
  proof cases
    case 1
    then have "code (char_of cp) = cp" using cp(1) by simp
    then have "lead_ranges (char_of cp) = Some []" using 1 by (simp add: lead_ranges_def)
    then show ?thesis using 1 by (simp add: codepoint_bytes_def)
  next
    case 2
    let ?a = "cp div 64"
    have a: "2 \<le> ?a" "?a < 32" using 2 by linarith+
    have b: "codepoint_bytes cp = [0xC0 + ?a, 0x80 + cp mod 64]"
      using 2 a or_lead(1) [of ?a] by (simp add: codepoint_bytes_def d or_tail)
    show ?thesis unfolding b
      using a m [of cp] by (intro valid_bytes [where rs = "[(0x80, 0xBF)]"]) (auto simp: utf8_ranges_def)
  next
    case 3
    let ?a = "cp div 4096" and ?b = "cp div 64 mod 64"
    have a: "0 \<le> ?a" "?a < 16" using 3 by linarith+
    have b: "codepoint_bytes cp = [0xE0 + ?a, 0x80 + ?b, 0x80 + cp mod 64]"
      using 3 a or_lead(2) [of ?a] by (simp add: codepoint_bytes_def d or_tail)
    have s: "cp = 4096 * ?a + 64 * ?b + cp mod 64" using s64 s4k by linarith
    have e0: "?a = 0 \<longrightarrow> 0x20 \<le> ?b" using s 3(1) m [of cp] by linarith
    have ed: "?a = 13 \<longrightarrow> ?b \<le> 0x1F" using s cp(3) 3 m [of cp] m [of "cp div 64"] by linarith
    show ?thesis unfolding b
      using three_bytes [OF a e0 ed m [of "cp div 64"] m [of cp]] .
  next
    case 4
    let ?a = "cp div 262144" and ?b = "cp div 4096 mod 64" and ?c = "cp div 64 mod 64"
    have a: "0 \<le> ?a" "?a \<le> 4" using 4 cp(2) by linarith+
    have b: "codepoint_bytes cp = [0xF0 + ?a, 0x80 + ?b, 0x80 + ?c, 0x80 + cp mod 64]"
      using 4 a or_lead(3) [of ?a] by (simp add: codepoint_bytes_def d or_tail)
    have s: "cp = 262144 * ?a + 4096 * ?b + 64 * ?c + cp mod 64" using s64 s4k s256k by linarith
    have f0: "?a = 0 \<longrightarrow> 0x10 \<le> ?b" using s 4(1) m [of cp] m [of "cp div 64"] by linarith
    have f4: "?a = 4 \<longrightarrow> ?b \<le> 0x0F" using s cp(2) m [of cp] m [of "cp div 64"] m [of "cp div 4096"] by linarith
    show ?thesis unfolding b
      using four_bytes [OF a f0 f4 m [of "cp div 4096"] m [of "cp div 64"] m [of cp]] .
  qed
qed

lemma hex_value_range: "hex_value c = Some d \<Longrightarrow> 0 \<le> d \<and> d \<le> 15"
  by (auto simp: hex_value_def split: if_split_asm)

lemma codepoint_loop_cases:
  "codepoint_loop fs cp lx = (n, lx') \<Longrightarrow> token_buffer lx' = token_buffer lx \<and>
     (n = -1 \<or> (\<exists>ds. length ds = length fs \<and> (\<forall>d \<in> set ds. 0 \<le> d \<and> d \<le> 15) \<and>
        n = cp + sum_list (map2 push_bit fs ds)))"
proof (induction fs cp lx rule: codepoint_loop.induct)
  case (2 f fs cp lx)
  show ?case
  proof (cases "Option.bind (current (get lx)) hex_value")
    case None
    with "2.prems" token_buffer_get [of lx] show ?thesis by (auto simp: Let_def)
  next
    case (Some d)
    then have d: "0 \<le> d" "d \<le> 15" using hex_value_range by (auto simp: bind_eq_Some_conv)
    from "2.IH" [OF refl Some] "2.prems" Some have IH: "token_buffer lx' = token_buffer lx \<and>
       (n = -1 \<or> (\<exists>ds. length ds = length fs \<and> (\<forall>d \<in> set ds. 0 \<le> d \<and> d \<le> 15) \<and>
        n = cp + push_bit f d + sum_list (map2 push_bit fs ds)))"
      by (simp add: Let_def)
    have "\<exists>ds'. length ds' = length (f # fs) \<and> (\<forall>d \<in> set ds'. 0 \<le> d \<and> d \<le> 15) \<and>
        n = cp + sum_list (map2 push_bit (f # fs) ds')"
      if "length ds = length fs" "\<forall>d \<in> set ds. 0 \<le> d \<and> d \<le> 15"
        "n = cp + push_bit f d + sum_list (map2 push_bit fs ds)" for ds
      using that d by (intro exI [of _ "d # ds"]) simp
    with IH show ?thesis by blast
  qed
qed simp

lemma get_codepoint_range:
  assumes "get_codepoint lx = (n, lx')"
  shows "token_buffer lx' = token_buffer lx" "n = -1 \<or> 0 \<le> n \<and> n \<le> 0xFFFF"
proof -
  note r = codepoint_loop_cases [OF assms [unfolded get_codepoint_def]]
  then show "token_buffer lx' = token_buffer lx" by simp
  show "n = -1 \<or> 0 \<le> n \<and> n \<le> 0xFFFF"
  proof (cases "n = -1")
    case False
    then obtain ds :: "int list" where ds: "length ds = Suc (Suc (Suc (Suc 0)))" "\<forall>d \<in> set ds. 0 \<le> d \<and> d \<le> 15"
      "n = sum_list (map2 push_bit [12, 8, 4, 0] ds)" using r by auto
    then obtain d1 d2 d3 d4 where "ds = [d1, d2, d3, d4]"
      by (auto simp: length_Suc_conv)
    with ds show ?thesis by (simp add: push_bit_eq_mult)
  qed simp
qed

lemma token_buffer_fold_add: "token_buffer (fold (\<lambda>b. add (f b)) bs lx) = token_buffer lx @ map f bs"
  by (induction bs arbitrary: lx) simp_all

lemma add_codepoint_valid:
  "code_point cp \<Longrightarrow> valid_utf8 (token_buffer lx) \<Longrightarrow> valid_utf8 (token_buffer (add_codepoint cp lx))"
  by (simp add: add_codepoint_def token_buffer_fold_add valid_utf8_append codepoint_bytes_valid)

lemma low_surrogate_valid:
  assumes "low_surrogate cp lx = (None, lx')" "0xD800 \<le> cp" "cp \<le> 0xDBFF" "valid_utf8 (token_buffer lx)"
  shows "valid_utf8 (token_buffer lx')"
proof -
  obtain cp2 lx2 where r: "get_codepoint (get (get lx)) = (cp2, lx2)" "0xDC00 \<le> cp2" "cp2 \<le> 0xDFFF"
    "lx' = add_codepoint (push_bit 10 cp + cp2 - 0x35FDC00) lx2"
    using assms(1) by (auto simp: low_surrogate_def fail_def Let_def split: if_split_asm prod.split_asm)
  have "code_point (push_bit 10 cp + cp2 - 0x35FDC00)"
    using assms(2,3) r(2,3) by (simp add: code_point_def push_bit_eq_mult)
  with r get_codepoint_range(1) [OF r(1)] assms(4) show ?thesis by (simp add: add_codepoint_valid)
qed

lemma unicode_escape_valid:
  assumes "unicode_escape lx = (None, lx')" "valid_utf8 (token_buffer lx)"
  shows "valid_utf8 (token_buffer lx')"
proof -
  obtain cp lx1 where r: "get_codepoint lx = (cp, lx1)" by fastforce
  note b = get_codepoint_range [OF r]
  show ?thesis
  proof (cases "0xD800 \<le> cp \<and> cp \<le> 0xDBFF")
    case True
    with assms(1) r have "low_surrogate cp lx1 = (None, lx')" by (simp add: unicode_escape_def)
    with True b(1) assms(2) show ?thesis by (metis low_surrogate_valid)
  next
    case False
    with assms(1) r have "cp \<noteq> -1" "\<not> (0xDC00 \<le> cp \<and> cp \<le> 0xDFFF)" "lx' = add_codepoint cp lx1"
      by (auto simp: unicode_escape_def fail_def split: if_split_asm)
    moreover from this(1,2) b(2) False have "code_point cp" unfolding code_point_def by linarith
    ultimately show ?thesis using b(1) assms(2) by (simp add: add_codepoint_valid)
  qed
qed

lemma escape_table_ascii: "list_all (\<lambda>(x, d). code d \<le> 0x7F) escape_table"
  by code_simp

lemma string_escape_valid:
  assumes "string_escape lx = (None, lx')" "valid_utf8 (token_buffer lx)"
  shows "valid_utf8 (token_buffer lx')"
proof -
  obtain c where c: "current (get lx) = Some c" using assms(1) by (auto simp: string_escape_def fail_def Let_def split: option.split_asm)
  show ?thesis
  proof (cases "map_of escape_table c")
    case (Some d)
    then have "code d \<le> 0x7F" using escape_table_ascii map_of_SomeD [OF Some] unfolding list_all_iff by blast
    then show ?thesis using assms c Some valid_utf8_append [OF assms(2) valid_utf8_ascii [of d]]
      by (simp add: string_escape_def Let_def) (metis token_buffer_add token_buffer_get)
  next
    case None
    then have "unicode_escape (get lx) = (None, lx')"
      using assms(1) c by (auto simp: string_escape_def fail_def Let_def split: if_split_asm)
    then show ?thesis using unicode_escape_valid assms(2) by simp
  qed
qed

lemma string_turn_valid:
  assumes "string_turn lx = (None, lx')" "valid_utf8 (token_buffer lx)"
  shows "valid_utf8 (token_buffer lx')"
proof -
  obtain c where c: "current (get lx) = Some c"
    using assms(1) by (auto simp: string_turn_def fail_def Let_def split: option.split_asm)
  have "c = backslash \<and> string_escape (get lx) = (None, lx') \<or>
      plain_ascii (code c) \<and> lx' = add_current (get lx) \<or> string_multibyte c (get lx) = (None, lx')"
    using assms(1) c by (simp add: string_turn_def fail_def Let_def split: if_split_asm)
  then consider "string_escape (get lx) = (None, lx')" | "plain_ascii (code c)" "lx' = add_current (get lx)"
    | "string_multibyte c (get lx) = (None, lx')"
    by blast
  then show ?thesis
  proof cases
    case 1
    then show ?thesis using string_escape_valid assms(2) by simp
  next
    case 2
    then have "token_buffer lx' = token_buffer lx @ [c]" "code c \<le> 0x7F"
      using c by (simp_all add: add_current_def to_char_type_def plain_ascii_def)
    then show ?thesis using valid_utf8_append [OF assms(2) valid_utf8_ascii [of c]] by simp
  next
    case 3
    then have "utf8_ranges (code c) \<noteq> None" by (cases "utf8_ranges (code c)") (auto simp: string_multibyte_def fail_def)
    then have "\<not> code c \<le> 0x7F" by (auto simp: utf8_ranges_def)
    then show ?thesis using string_multibyte_valid [OF 3 c] assms(2) by simp
  qed
qed

lemma string_turn_tokens:
  "fst (string_escape lx) \<in> {None, Some parse_error}" "fst (string_multibyte c lx) \<in> {None, Some parse_error}"
proof -
  have "fst (low_surrogate cp l) \<in> {None, Some parse_error}" for cp l
    by (simp add: low_surrogate_def fail_def Let_def split: prod.split)
  then have "fst (unicode_escape l) \<in> {None, Some parse_error}" for l
    by (simp add: unicode_escape_def fail_def split: prod.split)
  then show "fst (string_escape lx) \<in> {None, Some parse_error}"
    by (simp add: string_escape_def fail_def Let_def split: option.split)
  show "fst (string_multibyte c lx) \<in> {None, Some parse_error}"
    by (simp add: string_multibyte_def fail_def split: option.split prod.split bool.split)
qed

lemma string_turn_token:
  assumes "string_turn lx = (Some t, lx')"
  shows "t = parse_error \<or> t = value_string \<and> lx' = get lx"
  using assms string_turn_tokens [where lx = "get lx"]
  by (auto simp: string_turn_def fail_def Let_def split: option.split_asm if_split_asm) (metis fst_conv option.distinct(1) option.inject)+

lemma scan_string_valid:
  "scan_string_loop lx = (value_string, lx') \<Longrightarrow> valid_utf8 (token_buffer lx) \<Longrightarrow> valid_utf8 (token_buffer lx')"
proof (induction lx rule: scan_string_loop.induct)
  case (1 lx)
  obtain t lx1 where r: "string_turn lx = (t, lx1)" by fastforce
  show ?case
  proof (cases t)
    case None
    then have l: "scan_string_loop lx1 = (value_string, lx')"
      using "1.prems"(1) r by (subst (asm) scan_string_loop.simps) simp
    have "valid_utf8 (token_buffer lx1)" using string_turn_valid r None "1.prems"(2) by simp
    from "1.IH" [OF r [symmetric] None l this] show ?thesis .
  next
    case (Some u)
    then have "string_turn lx = (Some value_string, lx')"
      using "1.prems"(1) r by (subst (asm) scan_string_loop.simps) simp
    from string_turn_token [OF this] "1.prems"(2) show ?thesis by simp
  qed
qed

section \<open>Numbers\<close>

text \<open>
  What the buffer holds under each label as long as the number is an integer: digits, after a
  minus sign if there was one.
\<close>

definition all_digits :: "string \<Rightarrow> bool" where
  "all_digits s \<longleftrightarrow> list_all (\<lambda>c. is_digit (Some c)) s"

definition integer_form :: "token_type \<Rightarrow> string \<Rightarrow> bool" where
  "integer_form nt buf \<longleftrightarrow>
     nt = value_unsigned \<and> all_digits buf \<or> nt = value_integer \<and> all_digits (drop 1 buf) \<and> buf \<noteq> []"

fun label_ok :: "number_label \<Rightarrow> token_type \<Rightarrow> string \<Rightarrow> bool" where
  "label_ok number_minus nt buf \<longleftrightarrow> length buf = 1"
| "label_ok number_zero nt buf \<longleftrightarrow> integer_form nt buf"
| "label_ok number_any1 nt buf \<longleftrightarrow> integer_form nt buf"
| "label_ok number_decimal1 nt buf \<longleftrightarrow> True"
| "label_ok number_exponent nt buf \<longleftrightarrow> True"
| "label_ok number_done nt buf \<longleftrightarrow> nt = value_float \<or> integer_form nt buf"
| "label_ok _ nt buf \<longleftrightarrow> nt = value_float"

lemma integer_form_digit:
  "integer_form nt buf \<Longrightarrow> is_digit (Some c) \<Longrightarrow> integer_form nt (buf @ [c])"
  by (cases buf) (auto simp: integer_form_def all_digits_def)

lemma is_digit_current: "is_digit (current lx) \<Longrightarrow> \<exists>c. current lx = Some c \<and> is_digit (Some c) \<and> to_char_type (current lx) = c"
  by (cases "current lx") (simp_all add: is_digit_def to_char_type_def)

lemma digit_zero: "is_digit (Some (CHR ''0''))"
  by (simp add: is_digit_def)

lemma number_goto_label:
  assumes "number_goto l nt lx = (Some l', nt', lx')" "label_ok l nt (token_buffer lx)" "l \<noteq> number_done"
  shows "label_ok l' nt' (token_buffer lx')"
proof -
  have d: "token_buffer (add_current (get lx)) = token_buffer lx @ [c]"
    if "current (get lx) = Some c" for c
    using that by (simp add: add_current_def to_char_type_def)
  have m: "integer_form value_integer (token_buffer lx @ [c])" if "length (token_buffer lx) = 1" "is_digit (Some c)" for c
    using that by (cases "token_buffer lx") (auto simp: integer_form_def all_digits_def)
  show ?thesis
    using assms
    by (cases l)
       (auto simp: scan_number_minus_def scan_number_zero_def scan_number_any1_def scan_number_decimal1_def
          scan_number_decimal2_def scan_number_exponent_def scan_number_sign_def scan_number_any2_def
          number_fail_def Let_def d m digit_zero integer_form_digit split: if_split_asm
          dest!: is_digit_current)
qed

lemma dec_value_digits: "all_digits s \<Longrightarrow> 0 \<le> dec_value s"
proof (induction s rule: rev_induct)
  case (snoc c s)
  then have "0 \<le> dec_value s" "0x30 \<le> code c" by (simp_all add: all_digits_def is_digit_def)
  then show ?case by (simp add: dec_value_snoc)
qed (simp add: dec_value_def)

text \<open>What a token carries, in the fields of the lexer.\<close>

definition token_ok :: "token_type \<Rightarrow> lexer \<Rightarrow> bool" where
  "token_ok t lx \<longleftrightarrow>
     (t = value_string \<longrightarrow> valid_utf8 (token_buffer lx)) \<and>
     (t = value_unsigned \<longrightarrow> 0 \<le> lex_unsigned lx \<and> lex_unsigned lx < 2 ^ 64) \<and>
     (t = value_integer \<longrightarrow> - (2 ^ 63) \<le> lex_integer lx \<and> lex_integer lx \<le> 0)"

lemma scan_number_done_ok:
  assumes "scan_number_done C nt lx = (t, lx')" "nt = value_float \<or> integer_form nt (token_buffer lx)"
  shows "token_ok t lx'"
proof -
  have b: "token_buffer (unget lx) = token_buffer lx" by (simp add: unget_def Let_def)
  show ?thesis
    using assms dec_value_digits [of "token_buffer lx"] dec_value_digits [of "drop 1 (token_buffer lx)"]
    by (auto simp: scan_number_done_def Let_def b token_ok_def integer_form_def strtoull_def strtoll_def
        split: if_split_asm option.split_asm)
qed

lemma scan_number_from_ok:
  "scan_number_from C l nt lx = (t, lx') \<Longrightarrow> l \<noteq> number_done \<Longrightarrow> label_ok l nt (token_buffer lx) \<Longrightarrow> token_ok t lx'"
proof (induction C l nt lx rule: scan_number_from.induct)
  case (1 C l nt lx)
  obtain r nt1 lx1 where r: "number_goto l nt lx = (r, nt1, lx1)" by (cases "number_goto l nt lx")
  show ?case
  proof (cases r)
    case None
    with r "1.prems"(1) have "t = parse_error"
      by (subst (asm) scan_number_from.simps) (simp del: number_goto.simps)
    then show ?thesis by (simp add: token_ok_def)
  next
    case (Some l')
    have ok: "label_ok l' nt1 (token_buffer lx1)"
      using number_goto_label r Some "1.prems"(2,3) by simp
    show ?thesis
    proof (cases "l' = number_done")
      case True
      with r Some "1.prems"(1) have "scan_number_done C nt1 lx1 = (t, lx')"
        by (subst (asm) scan_number_from.simps) (simp del: number_goto.simps)
      with ok True show ?thesis by (simp add: scan_number_done_ok)
    next
      case False
      with r Some "1.prems"(1) have s: "scan_number_from C l' nt1 lx1 = (t, lx')"
        by (subst (asm) scan_number_from.simps) (simp del: number_goto.simps)
      show ?thesis using "1.IH" [OF r [symmetric] Some refl False s False ok] .
    qed
  qed
qed

lemma scan_number_ok:
  assumes "scan_number C lx = (t, lx')" "current lx = Some c"
  shows "token_ok t lx'"
proof -
  let ?lx = "add_current (reset lx)"
  have b: "token_buffer ?lx = [c]" "current ?lx = Some c"
    using assms(2) by (simp_all add: add_current_def to_char_type_def)
  obtain l where l: "scan_number_from C l value_unsigned ?lx = (t, lx')" "l \<noteq> number_done"
    "label_ok l value_unsigned (token_buffer ?lx)"
  proof (cases "c = CHR ''-'' \<or> \<not> is_digit (Some c)")
    case True
    then show thesis using that [of number_minus] assms(1) b digit_zero
      by (auto simp: scan_number_def Let_def split: if_split_asm)
  next
    case False
    then have "integer_form value_unsigned [c]" by (simp add: integer_form_def all_digits_def)
    with False that assms(1) b show thesis
      by (auto simp: scan_number_def Let_def split: if_split_asm)
  qed
  then show ?thesis by (rule scan_number_from_ok)
qed

lemma structural_tokens: "map_of structural c = Some t \<Longrightarrow> token_ok t lx"
  by (auto simp: structural_def token_ok_def split: if_split_asm)

lemma literal_tokens: "map_of scan_literals c = Some (l, t) \<Longrightarrow> scan_literal l t lx = (t', lx') \<Longrightarrow> token_ok t' lx'"
  by (auto simp: scan_literals_def scan_literal_def token_ok_def split: if_split_asm prod.split_asm bool.split_asm)

lemma scan_token_ok: "scan_token C lx = (t, lx') \<Longrightarrow> token_ok t lx'"
proof (cases "current lx")
  case (Some c)
  assume s: "scan_token C lx = (t, lx')"
  have str: "token_ok t lx'" if "scan_string lx = (t, lx')"
  proof (cases "t = value_string")
    case True
    with that scan_string_valid [of "reset lx" lx'] show ?thesis by (simp add: scan_string_def token_ok_def)
  next
    case False
    have "fst (scan_string_loop l) \<in> {value_string, parse_error}" for l
    proof (induction l rule: scan_string_loop.induct)
      case (1 l)
      obtain u l' where u: "string_turn l = (u, l')" by fastforce
      show ?case
      proof (cases u)
        case None
        with 1 u show ?thesis by (subst scan_string_loop.simps) simp
      next
        case (Some v)
        with u string_turn_token [of l v l'] show ?thesis by (subst scan_string_loop.simps) auto
      qed
    qed
    with that False have "t = parse_error" by (metis scan_string_def fst_conv insertE singletonD)
    then show ?thesis by (simp add: token_ok_def)
  qed
  show ?thesis using s Some structural_tokens [of c t lx] literal_tokens str scan_number_ok [OF _ Some, of C t lx']
    by (auto simp: scan_token_def split: option.split_asm if_split_asm) (simp_all add: token_ok_def)
qed (simp add: scan_token_def token_ok_def)

lemma scan_ok: "scan C lx = (t, lx') \<Longrightarrow> token_ok t lx'"
  by (auto simp: scan_def split: prod.split_asm bool.split_asm if_split_asm intro: scan_token_ok)
     (simp_all add: token_ok_def)

section \<open>The parser\<close>

fun container_ok :: "container \<Rightarrow> bool" where
  "container_ok (OpenArray xs) \<longleftrightarrow> canonical_elems xs"
| "container_ok (OpenObject kvs m) \<longleftrightarrow> sorted_wrt (<) (map fst kvs) \<and> canonical_members kvs \<and>
     (case m of None \<Rightarrow> True | Some k \<Rightarrow> valid_utf8 k)"

definition dom_ok :: "json_sax_dom \<Rightarrow> bool" where
  "dom_ok d \<longleftrightarrow> canonical (root d) \<and> list_all container_ok (ref_stack d)"

lemma handle_value_ok: "dom_ok d \<Longrightarrow> canonical v \<Longrightarrow> dom_ok (handle_value v d)"
  by (auto simp: dom_ok_def handle_value_def canonical_elems_snoc canonical_put
      split: list.split container.split option.split)

lemma end_container_ok: "dom_ok d \<Longrightarrow> dom_ok (end_container d)"
  by (cases "ref_stack d")
     (auto simp: end_container_def dom_ok_def intro!: handle_value_ok [unfolded dom_ok_def] split: container.split)

lemma handle_key_ok: "dom_ok d \<Longrightarrow> valid_utf8 k \<Longrightarrow> dom_ok (handle_key k d)"
  by (cases "ref_stack d") (auto simp: handle_key_def dom_ok_def canonical_put split: container.split)

lemma get_token_ok: "token_ok (last_token (get_token C p)) (m_lexer (get_token C p))"
  using scan_ok by (simp add: get_token_def split: prod.split)

lemma sax_key_ok:
  "sax_key C p d = Inr (p', d') \<Longrightarrow> dom_ok d \<Longrightarrow> token_ok (last_token p) (m_lexer p) \<Longrightarrow>
   dom_ok d' \<and> token_ok (last_token p') (m_lexer p')"
proof -
  assume r: "sax_key C p d = Inr (p', d')" and ok: "dom_ok d" "token_ok (last_token p) (m_lexer p)"
  then have "last_token p = value_string" "d' = handle_key (token_buffer (m_lexer p)) d"
    "p' = get_token C (get_token C p)"
    by (auto simp: sax_key_def Let_def split: if_split_asm)
  with ok show ?thesis by (simp add: get_token_ok handle_key_ok token_ok_def [of value_string])
qed

definition sax_ok :: "sax_state \<Rightarrow> bool" where
  "sax_ok = (\<lambda>(p, d, states). dom_ok d \<and> token_ok (last_token p) (m_lexer p))"

lemma start_ok: "dom_ok d \<Longrightarrow> dom_ok (start_object d)" "dom_ok d \<Longrightarrow> dom_ok (start_array d)"
  by (simp_all add: dom_ok_def start_object_def start_array_def)

lemma sax_value_ok:
  assumes "sax_value C st = Inr (again, st')" "sax_ok st"
  shows "sax_ok st'"
proof -
  obtain p d states p' d' states' where st: "st = (p, d, states)" "st' = (p', d', states')"
    by (metis prod_cases3)
  have ok: "dom_ok d" "token_ok (last_token p) (m_lexer p)" using assms(2) st by (simp_all add: sax_ok_def)
  note start = start_ok [OF ok(1)]
  have "dom_ok d' \<and> token_ok (last_token p') (m_lexer p')"
    using assms(1) ok unfolding st
    by (auto simp: sax_value_def Let_def get_token_ok bind_err_Inr
        intro: handle_value_ok end_container_ok start sax_key_ok [OF _ start(1) get_token_ok, THEN conjunct1]
          sax_key_ok [OF _ start(1) get_token_ok, THEN conjunct2]
        split: token_type.split_asm option.split_asm if_split_asm)
       (auto simp: token_ok_def intro!: handle_value_ok)
  then show ?thesis by (simp add: sax_ok_def st)
qed

lemma sax_state_ok:
  assumes "sax_state C st = Inr (skip, st')" "sax_ok st"
  shows "sax_ok st'"
proof -
  obtain p d states p' d' states' where st: "st = (p, d, states)" "st' = (p', d', states')"
    by (metis prod_cases3)
  have ok: "dom_ok d" using assms(2) st by (simp add: sax_ok_def)
  have "dom_ok d' \<and> token_ok (last_token p') (m_lexer p')"
    using assms(1) ok unfolding st
    by (auto simp: sax_state_def Let_def get_token_ok bind_err_Inr
        intro: end_container_ok sax_key_ok [OF _ _ get_token_ok, THEN conjunct1]
          sax_key_ok [OF _ _ get_token_ok, THEN conjunct2]
        split: if_split_asm) (simp_all add: token_ok_def)
  then show ?thesis by (simp add: sax_ok_def st)
qed

lemma sax_loop_ok: "sax_loop C skip st = Inr (p, d) \<Longrightarrow> sax_ok st \<Longrightarrow> dom_ok d"
proof (induction C skip st rule: sax_loop.induct)
  case (1 C skip st)
  obtain again st1 where t: "sax_turn C skip st = Inr (again, st1)"
    using "1.prems"(1) by (subst (asm) sax_loop.simps) (auto split: sum.split_asm)
  have ok: "sax_ok st1"
    using t "1.prems"(2) sax_value_ok by (auto simp: sax_turn_def split: if_split_asm)
  show ?case
  proof (cases again)
    case True
    with "1.prems"(1) t have "sax_loop C False st1 = Inr (p, d)" by (subst (asm) sax_loop.simps) simp
    moreover have "again = True" using True by simp
    ultimately show ?thesis using "1.IH"(1) [OF t refl _ _ ok] by blast
  next
    case False
    have a: "again = False" using False by simp
    obtain p1 d1 states where st1: "st1 = (p1, d1, states)" by (rule prod_cases3)
    show ?thesis
    proof (cases "states = []")
      case True
      with "1.prems"(1) t False st1 have "d = d1" by (subst (asm) sax_loop.simps) simp
      with ok show ?thesis by (simp add: sax_ok_def st1)
    next
      case n: False
      then obtain skip' st2 where s: "sax_state C st1 = Inr (skip', st2)"
        using "1.prems"(1) t False st1 by (subst (asm) sax_loop.simps) (auto split: sum.split_asm)
      with "1.prems"(1) t False st1 n have "sax_loop C skip' st2 = Inr (p, d)"
        by (subst (asm) sax_loop.simps) simp
      from "1.IH"(2) [OF t refl a st1 [symmetric] refl n s [unfolded st1] refl this sax_state_ok [OF s ok]]
      show ?thesis .
    qed
  qed
qed

lemma parse_canonical: "parser_parse C whole p = Inr j \<Longrightarrow> token_ok (last_token p) (m_lexer p) \<Longrightarrow> canonical j"
  by (auto simp: parser_parse_def sax_parse_internal_def bind_err_Inr split: if_split_asm
      dest!: sax_loop_ok simp: sax_ok_def dom_ok_def)

end
