(* ===== verification/JsonTheorems.thy ===== *)
theory JsonTheorems
  imports JsonCanonical
begin

text \<open>
  What the development shows of nlohmann's JSON library, the part of it the program uses:
  the printer and the parser invert each other, the printer refuses exactly the strings that
  are not UTF-8 and never leaves its buffers, the parser stops after a number of turns linear
  in the input, and every value it delivers is well formed and can be printed again.
\<close>

section \<open>Turns of the parser\<close>

text \<open>One turn of the loop of \<^verbatim>\<open>sax_parse_internal\<close>: the result, or where the next turn starts.\<close>

definition sax_step ::
  "c_library \<Rightarrow> bool \<Rightarrow> sax_state \<Rightarrow> (json_exception + parser \<times> json_sax_dom) + bool \<times> sax_state" where
  "sax_step C skip st =
     (case sax_turn C skip st of
        Inl e \<Rightarrow> Inl (Inl e)
      | Inr (True, st') \<Rightarrow> Inr (False, st')
      | Inr (False, (p, d, states)) \<Rightarrow>
          if states = [] then Inl (Inr (p, d))
          else
            (case sax_state C (p, d, states) of
               Inl e \<Rightarrow> Inl (Inl e)
             | Inr next_turn \<Rightarrow> Inr next_turn))"

text \<open>The loop ends after exactly \<open>n\<close> turns with the given result.\<close>

inductive sax_turns ::
  "c_library \<Rightarrow> nat \<Rightarrow> bool \<Rightarrow> sax_state \<Rightarrow> json_exception + parser \<times> json_sax_dom \<Rightarrow> bool"
  for C where
  last_turn: "sax_step C skip st = Inl r \<Longrightarrow> sax_turns C 1 skip st r"
| next_turn: "sax_step C skip st = Inr (skip', st') \<Longrightarrow> sax_turns C n skip' st' r \<Longrightarrow> sax_turns C (Suc n) skip st r"

lemma sax_loop_step:
  "sax_loop C skip st = (case sax_step C skip st of Inl r \<Rightarrow> r | Inr (skip', st') \<Rightarrow> sax_loop C skip' st')"
  by (subst sax_loop.simps) (auto simp: sax_step_def split: sum.split prod.split bool.split)

lemma sax_step_fuel:
  assumes "sax_step C skip st = Inr (skip', st')"
  shows "fuel_of (fst st') < fuel_of (fst st)"
  using assms
  by (auto simp: sax_step_def split: sum.split_asm prod.split_asm bool.split_asm if_split_asm
      dest: sax_turn_fuel dest!: sax_state_fuel)

lemma sax_turns_bound: "\<exists>n \<le> fuel_of (fst st) + 1. sax_turns C n skip st (sax_loop C skip st)"
proof (induction "fuel_of (fst st)" arbitrary: skip st rule: less_induct)
  case less
  show ?case
  proof (cases "sax_step C skip st")
    case (Inl r)
    then have "sax_loop C skip st = r" by (simp add: sax_loop_step)
    then show ?thesis using last_turn [OF Inl] by auto
  next
    case (Inr x)
    obtain skip' st' where s: "sax_step C skip st = Inr (skip', st')" using Inr by (cases x) auto
    from less [OF sax_step_fuel [OF s]] obtain n where
      "n \<le> fuel_of (fst st') + 1" "sax_turns C n skip' st' (sax_loop C skip' st')" by blast
    then have "Suc n \<le> fuel_of (fst st) + 1" "sax_turns C (Suc n) skip st (sax_loop C skip st)"
      using sax_step_fuel [OF s] next_turn [OF s] by (auto simp: sax_loop_step [of C skip st] s)
    then show ?thesis by blast
  qed
qed

text \<open>
  C23: The parser always ends: on a text of n bytes the loop of sax_parse_internal makes at
  most 2n+1 turns before it returns a value or throws, whatever the bytes are and whether
  comments are skipped or not.
\<close>

theorem parser_terminates:
  "\<exists>n \<le> 2 * length txt + 1.
     sax_turns C n False (parser_new C ignoring txt, \<lparr>root = JNull, ref_stack = []\<rparr>, [])
       (sax_parse_internal C (parser_new C ignoring txt))"
proof -
  let ?p = "parser_new C ignoring txt"
  have "fuel_of ?p \<le> 2 * length txt"
    using get_token_fuel [of C "\<lparr>last_token = uninitialized, m_lexer = lexer_new C ignoring txt\<rparr>"]
    by (simp add: parser_new_def lexer_new_def remaining_def)
  then show ?thesis
    using sax_turns_bound [of "(?p, \<lparr>root = JNull, ref_stack = []\<rparr>, [])" C False]
    by (auto simp: sax_parse_internal_def intro: order_trans)
qed

section \<open>Round trips\<close>

text \<open>
  C10: What dump() writes, json::parse and stream extraction read back as the same value: for
  every value of objects, arrays, strings, numbers without a fraction, Booleans and null
  whose strings are UTF-8, in any locale, and with any text after it that cannot continue a
  number when the value is read from a stream.
\<close>

theorem json_roundtrip:
  assumes "plain_json j"
  shows "\<exists>txt. dump_text F j = Inr txt \<and> txt \<noteq> '''' \<and> parse C txt = Inr j \<and>
           (\<forall>rest. number_ends rest \<longrightarrow> parse_stream C (txt @ rest) = Inr j)"
proof -
  have "json_text j \<noteq> ''''" using json_text_head [OF assms] by auto
  with dump_text_plain [OF assms] parse_json_text [OF assms] parse_stream_json_text [OF assms]
  show ?thesis by blast
qed

definition demo_value :: json where
  "demo_value = JObj [(''a'', JArr [JInt (-7), JStr [CHR 0xC3, CHR 0xA9, CHR 0x0A], JNull]), (''b'', JBool True)]"

lemma demo_value_plain: "plain_json demo_value"
  by code_simp

lemma demo_value_text:
  "json_text demo_value =
     ''{'' @ [quote] @ ''a'' @ [quote] @ '':[-7,'' @ [quote, CHR 0xC3, CHR 0xA9, backslash, CHR ''n'', quote] @ '',null],'' @
     [quote] @ ''b'' @ [quote] @ '':true}''"
  by code_simp

theorem json_roundtrip_witness:
  "dump_text (\<lambda>_. '''') demo_value = Inr (json_text demo_value) \<and> parse demo_c (json_text demo_value) = Inr demo_value"
  using json_roundtrip [OF demo_value_plain, of "\<lambda>_. ''''" demo_c] dump_text_plain [OF demo_value_plain, of "\<lambda>_. ''''"]
  by auto

lemma dump_loop_error: "dump_loop opts i s e = Inl msg \<Longrightarrow> \<exists>w. msg = type_error_316 w"
proof (induction opts i s e rule: dump_loop.induct)
  case (2 opts i c cs e)
  have "dump_byte opts i c e = Inl m \<Longrightarrow> \<exists>w. m = type_error_316 w" for m
    by (auto simp: dump_byte_def Let_def split: prod.split_asm if_split_asm)
  with 2 show ?case
    by (simp add: dump_loop.simps(2) [of opts i c cs e] split: sum.split_asm prod.split_asm bool.split_asm)
qed simp

lemma dump_escaped_error: "dump_escaped opts s = Inl msg \<Longrightarrow> \<exists>w. msg = type_error_316 w"
  by (auto simp: dump_escaped_def dump_finish_def bind_err_Inl split: if_split_asm error_handler_t.split_asm
      dest: dump_loop_error)

lemma write_escaped_error: "write_escaped opts s = Inl e \<Longrightarrow> \<exists>w. e = DumpTypeError (type_error_316 w)"
  using dump_escaped_error [of opts s] by (auto simp: write_escaped_def split: sum.split_asm)

lemma dump_error_316:
  assumes "\<not> pretty_print opts"
  shows "dump F opts n ind j = Inl e \<Longrightarrow> \<exists>w. e = DumpTypeError (type_error_316 w)"
    and "dump_object F opts n ind kvs = Inl e \<Longrightarrow> \<exists>w. e = DumpTypeError (type_error_316 w)"
    and "dump_array F opts n ind xs = Inl e \<Longrightarrow> \<exists>w. e = DumpTypeError (type_error_316 w)"
  using assms
  by (induction j and kvs and xs arbitrary: e ind and e ind and e ind
      rule: json_text_members_text_elems_text.induct)
     (fastforce simp: bind_err_Inl Let_def dest: write_escaped_error split: if_split_asm)+

text \<open>
  C29: For values without floating-point numbers whose integers fit 64 bits and whose objects
  are ordered as the library's maps are, dump() throws exactly when some string or key is not
  UTF-8, always the type_error 316, and otherwise writes the text of the value.
\<close>

theorem dump_throws_iff:
  assumes "typed_json j"
  shows "case dump_text F j of
           Inl e \<Rightarrow> \<not> plain_json j \<and> (\<exists>what_arg. e = DumpTypeError (type_error_316 what_arg))
         | Inr txt \<Rightarrow> plain_json j \<and> txt = json_text j"
proof (cases "dump_text F j")
  case (Inl e)
  then have "dump F plain_options 0 (replicate 512 (CHR '' '')) j = Inl e"
    by (auto simp: dump_text_def basic_json_dump_def plain_options_def bind_err_Inl)
  then have "\<exists>w. e = DumpTypeError (type_error_316 w)" by (rule dump_error_316(1) [rotated]) simp
  moreover have "\<not> plain_json j" using Inl dump_text_plain [of j F] by auto
  ultimately show ?thesis using Inl by simp
next
  case (Inr t)
  then show ?thesis using dump_text_iff [OF assms, of F t] by simp
qed

theorem dump_throws_iff_witness:
  "\<exists>w. dump_text (\<lambda>_. '''') (JArr [JStr [CHR 0xC0, CHR 0x80]]) = Inl (DumpTypeError (type_error_316 w))"
proof -
  have "\<not> plain_json (JArr [JStr [CHR 0xC0, CHR 0x80]])" by code_simp
  then show ?thesis
    using dump_throws_iff [of "JArr [JStr [CHR 0xC0, CHR 0x80]]" "\<lambda>_. ''''"] by (auto split: sum.split_asm)
qed

section \<open>What the parser delivers\<close>


lemma parse_canonical_new: "parser_parse C whole (parser_new C ignoring txt) = Inr j \<Longrightarrow> canonical j"
  unfolding parser_new_def by (erule parse_canonical) (rule get_token_ok)

lemma canonical_again:
  assumes "canonical j" "float_free j"
  shows "\<exists>t. dump_text F j = Inr t \<and> parse C t = Inr j"
  using assms dump_text_plain [of j F] parse_json_text [of j C] by (simp add: plain_canonical)



section \<open>Strings\<close>

lemma scan_string_delivers:
  "scan_string lx = (value_string, lx') \<Longrightarrow> valid_utf8 (token_buffer lx')"
  using scan_string_valid [of "reset lx" lx'] by (simp add: scan_string_def)

text \<open>
  C22: The printer's UTF-8 automaton and the scanner's table of byte ranges accept the same
  strings: dump() writes a string exactly if the scanner can deliver it, and what it writes,
  closed by a quote, is scanned back to the string.
\<close>

theorem dump_scan_agree:
  "(\<exists>t. dump_escaped \<lparr>pretty_print = False, ensure_ascii = False, indent_step = 0, error_handler = strict\<rparr> s = Inr t \<and>
        (\<forall>C. \<exists>lx. scan_string ((lexer_new C False (t @ [quote]))\<lparr>chars_read_total := 1\<rparr>) = (value_string, lx) \<and>
                  token_buffer lx = s))
   \<longleftrightarrow> (\<exists>lx lx'. scan_string lx = (value_string, lx') \<and> token_buffer lx' = s)"
  (is "?printed \<longleftrightarrow> ?scanned")
proof
  assume ?printed
  then show ?scanned by blast
next
  assume ?scanned
  then have v: "valid_utf8 s" using scan_string_delivers by blast
  have "\<exists>lx. scan_string ((lexer_new C False (escaped s @ [quote]))\<lparr>chars_read_total := 1\<rparr>) = (value_string, lx) \<and>
          token_buffer lx = s" for C
  proof -
    have "lexed ((lexer_new C False (escaped s @ [quote]))\<lparr>chars_read_total := 1\<rparr>) (escaped s @ [quote]) ''''"
      by (simp add: lexed_def lexer_new_def remaining_def)
    from scan_string_reads [OF v this] show ?thesis by (auto simp: lexed_def)
  qed
  with dump_escaped_valid [OF v] show ?printed unfolding plain_options_def by blast
qed

section \<open>The buffers of the printer\<close>

text \<open>The states of \<^verbatim>\<open>dump_escaped\<close> before a byte, for any string and any of the options.\<close>

inductive escaping :: "dump_options \<Rightarrow> escaper \<Rightarrow> bool" for opts where
  escaping_new: "escaping opts escaper_new"
| escaping_byte: "escaping opts e \<Longrightarrow> dump_byte opts i c e = Inr (again, e') \<Longrightarrow> escaping opts e'"

text \<open>
  At most 499 bytes are in the buffer between two code points; inside one there are as many
  more as bytes of it have been copied, and the automaton knows how many are still to come.
\<close>

definition escaper_ok :: "dump_options \<Rightarrow> escaper \<Rightarrow> bool" where
  "escaper_ok opts e \<longleftrightarrow>
     length (string_buffer e) \<le> 499 + (if ensure_ascii opts then 0 else undumped_chars e) \<and>
     bytes_after_last_accept e \<le> 499 \<and>
     (utf8_state e = UTF8_ACCEPT \<and> undumped_chars e = 0 \<or>
      2 \<le> utf8_state e \<and> utf8_state e \<le> 8 \<and> pending (utf8_state e) \<noteq> [] \<and>
      undumped_chars e + length (pending (utf8_state e)) \<le> 4)"

lemma pending_not_Nil: "2 \<le> s \<Longrightarrow> s \<le> 8 \<Longrightarrow> pending s \<noteq> []"
  by (simp add: pending_def)

lemma utf8_ranges_length: "utf8_ranges b = Some rs \<Longrightarrow> length rs \<le> 3"
  by (auto simp: utf8_ranges_def split: if_split_asm)

text \<open>What the automaton does with one more byte.\<close>

lemma decode_next:
  assumes "decode (s, cp) (code c) = (s', cp')"
    and "s = UTF8_ACCEPT \<and> n = 0 \<or> 2 \<le> s \<and> s \<le> 8 \<and> n + length (pending s) \<le> 4"
  shows "s' = UTF8_ACCEPT \<or> s' = UTF8_REJECT \<or> 2 \<le> s' \<and> s' \<le> 8 \<and> n + 1 + length (pending s') \<le> 4"
  using assms(2)
proof
  assume s: "s = UTF8_ACCEPT \<and> n = 0"
  note l = lead_step [OF assms(1) [unfolded s [THEN conjunct1]]]
  show ?thesis
  proof (cases "code c \<le> 0x7F")
    case True
    then show ?thesis using l(1) by simp
  next
    case False
    then show ?thesis using l(2,3) s utf8_ranges_length by (cases "utf8_ranges (code c)") auto
  qed
next
  assume s: "2 \<le> s \<and> s \<le> 8 \<and> n + length (pending s) \<le> 4"
  then have s': "next_step_ok s (code c)" "s' = next_state s (byte_class (code c))"
    using next_step(1) [of s c] next_step(2) [of s cp c] assms(1) by auto
  obtain lo hi rs where p: "pending s = (lo, hi) # rs"
    using pending_not_Nil [of s] s by (cases "pending s") auto
  show ?thesis
    using s' s p by (auto simp: next_step_ok_def Let_def split: if_split_asm)
qed

lemma escape_codepoint_length: "length (escape_codepoint ascii cp c) \<le> (if ascii then 12 else 6)"
  by (simp add: escape_codepoint_def hex4_def)

lemma escaper_ok_states:
  assumes "escaper_ok opts e"
  shows "utf8_state e = UTF8_ACCEPT \<and> undumped_chars e = 0 \<or>
    2 \<le> utf8_state e \<and> utf8_state e \<le> 8 \<and> undumped_chars e + length (pending (utf8_state e)) \<le> 4"
    and "length (string_buffer e) \<le> (if ensure_ascii opts then 499 else 502)"
    and "bytes_after_last_accept e \<le> 499"
  using assms by (cases "pending (utf8_state e)"; auto simp: escaper_ok_def)+

lemma flush_length: "length (string_buffer e) \<le> 512 \<Longrightarrow> length (string_buffer (flush_if_full e)) \<le> 499"
  by (cases "length (string_buffer e) \<le> 499") (auto simp: flush_if_full_def string_buffer_size_def)

lemma flush_keeps [simp]:
  "undumped_chars (flush_if_full e) = undumped_chars e"
  "bytes_after_last_accept (flush_if_full e) = bytes_after_last_accept e"
  by (simp_all add: flush_if_full_def)

lemma dump_accept_ok:
  assumes "length (string_buffer e) \<le> (if ascii then 499 else 502)" "utf8_state e = UTF8_ACCEPT"
  shows "length (string_buffer (dump_accept ascii c e)) \<le> 499"
    "bytes_after_last_accept (dump_accept ascii c e) \<le> 499"
    "utf8_state (dump_accept ascii c e) = UTF8_ACCEPT" "undumped_chars (dump_accept ascii c e) = 0"
proof -
  let ?e = "e\<lparr>string_buffer := string_buffer e @ escape_codepoint ascii (codepoint e) c\<rparr>"
  have "length (string_buffer (flush_if_full ?e)) \<le> 499"
    using assms(1) escape_codepoint_length [of ascii "codepoint e" c]
    by (intro flush_length) (auto split: if_split_asm)
  then show "length (string_buffer (dump_accept ascii c e)) \<le> 499"
    "bytes_after_last_accept (dump_accept ascii c e) \<le> 499"
    "utf8_state (dump_accept ascii c e) = UTF8_ACCEPT" "undumped_chars (dump_accept ascii c e) = 0"
    using assms(2) by (simp_all add: dump_accept_def Let_def)
qed

lemma dump_reject_ok:
  assumes "bytes_after_last_accept e \<le> 499"
  shows "escaper_ok opts (snd (dump_reject opts e))"
proof -
  let ?e = "e\<lparr>string_buffer := take (bytes_after_last_accept e) (string_buffer e) @ replacement (ensure_ascii opts)\<rparr>"
  have "length (string_buffer (flush_if_full ?e)) \<le> 499"
    using assms by (intro flush_length) (simp add: replacement_def min.coboundedI2)
  then show ?thesis using assms by (simp add: dump_reject_def escaper_ok_def Let_def min.coboundedI2)
qed

lemma dump_byte_ok:
  assumes "escaper_ok opts e" "dump_byte opts i c e = Inr (again, e')"
  shows "escaper_ok opts e'"
proof -
  note ok = escaper_ok_states [OF assms(1)]
  obtain s cp where d: "decode (utf8_state e, codepoint e) (code c) = (s, cp)" by fastforce
  let ?e = "e\<lparr>utf8_state := s, codepoint := cp\<rparr>"
  consider "s = UTF8_ACCEPT" | "s = UTF8_REJECT" | "s \<noteq> UTF8_ACCEPT" "s \<noteq> UTF8_REJECT" by blast
  then show ?thesis
  proof cases
    case 1
    then have "e' = dump_accept (ensure_ascii opts) c ?e"
      using assms(2) d by (simp add: dump_byte_def Let_def)
    then show ?thesis using 1 ok(2) dump_accept_ok [of ?e "ensure_ascii opts" c] by (simp add: escaper_ok_def)
  next
    case 2
    then have "e' = snd (dump_reject opts ?e)"
      using assms(2) d by (auto simp: dump_byte_def Let_def UTF8_REJECT_def UTF8_ACCEPT_def split: if_split_asm)
    then show ?thesis using ok(3) dump_reject_ok [of ?e opts] by simp
  next
    case 3
    then have "2 \<le> s \<and> s \<le> 8 \<and> undumped_chars e + 1 + length (pending s) \<le> 4"
      using decode_next [OF d ok(1)] by blast
    moreover have "length (string_buffer e) \<le> 499 + (if ensure_ascii opts then 0 else undumped_chars e)"
      using assms(1) by (simp add: escaper_ok_def)
    ultimately show ?thesis
      using assms(2) d 3 ok(3) pending_not_Nil [of s] by (auto simp: dump_byte_def Let_def escaper_ok_def)
  qed
qed

lemma escaping_ok: "escaping opts e \<Longrightarrow> escaper_ok opts e"
proof (induction rule: escaping.induct)
  case escaping_new
  show ?case by (simp add: escaper_ok_def escaper_new_def)
next
  case escaping_byte
  then show ?case by (blast intro: dump_byte_ok)
qed

text \<open>
  C28: dump() never writes outside its string buffer of 512 bytes: whatever the string and the
  options, before every byte there is room for the escape of the code point the byte ends and
  the NUL snprintf adds, for a copied byte of an unfinished code point, and for a replacement
  character after the last accepted byte.
\<close>

theorem string_buffer_in_bounds:
  assumes "escaping opts e" "decode (utf8_state e, codepoint e) (code c) = (s, cp)"
  shows "length (string_buffer e) + length (escape_codepoint (ensure_ascii opts) cp c) + 1 \<le> string_buffer_size \<and>
    bytes_after_last_accept e + length (replacement (ensure_ascii opts)) \<le> string_buffer_size"
proof (intro conjI)
  note ok = escaper_ok_states [OF escaping_ok [OF assms(1)]]
  show "length (string_buffer e) + length (escape_codepoint (ensure_ascii opts) cp c) + 1 \<le> string_buffer_size"
    using ok(2) escape_codepoint_length [of "ensure_ascii opts" cp c]
    by (auto simp: string_buffer_size_def split: if_split_asm)
  show "bytes_after_last_accept e + length (replacement (ensure_ascii opts)) \<le> string_buffer_size"
    using ok(3) by (simp add: string_buffer_size_def replacement_def)
qed

definition demo_ascii :: dump_options where
  "demo_ascii = \<lparr>pretty_print = False, ensure_ascii = True, indent_step = 0, error_handler = replace\<rparr>"

text \<open>The last byte of U+1F600, a code point that is escaped as a pair.\<close>

theorem string_buffer_in_bounds_witness:
  "\<exists>e. escaping demo_ascii e \<and> decode (utf8_state e, codepoint e) (code (CHR 0x80)) = (UTF8_ACCEPT, 0x1F600) \<and>
       length (string_buffer e) + length (escape_codepoint True 0x1F600 (CHR 0x80)) + 1 \<le> string_buffer_size"
proof -
  let ?run = "fold (\<lambda>c e. snd (projr (dump_byte demo_ascii 0 c e)))"
  let ?e1 = "?run [CHR 0xF0] escaper_new"
  let ?e2 = "?run [CHR 0xF0, CHR 0x9F] escaper_new"
  let ?e3 = "?run [CHR 0xF0, CHR 0x9F, CHR 0x98] escaper_new"
  have "dump_byte demo_ascii 0 (CHR 0xF0) escaper_new = Inr (False, ?e1)" by code_simp
  from escaping_byte [OF escaping_new this] have 1: "escaping demo_ascii ?e1" .
  have "dump_byte demo_ascii 0 (CHR 0x9F) ?e1 = Inr (False, ?e2)" by code_simp
  from escaping_byte [OF 1 this] have 2: "escaping demo_ascii ?e2" .
  have "dump_byte demo_ascii 0 (CHR 0x98) ?e2 = Inr (False, ?e3)" by code_simp
  from escaping_byte [OF 2 this] have 3: "escaping demo_ascii ?e3" .
  have d: "decode (utf8_state ?e3, codepoint ?e3) (code (CHR 0x80)) = (UTF8_ACCEPT, 0x1F600)" by code_simp
  have "ensure_ascii demo_ascii" by code_simp
  with string_buffer_in_bounds [OF 3 d] 3 d show ?thesis by auto
qed

section \<open>Integers\<close>

text \<open>
  Dump_integer writes the decimal digits of every signed and unsigned 64-bit integer, the
  smallest one included, with a minus sign if negative and no leading zero, whatever an
  earlier number left in the 64-byte buffer; it never uses more than 20 bytes of it.
\<close>

theorem dump_integer_correct:
  assumes "- (2 ^ 63) \<le> x" "x < 2 ^ 64" "length buffer = 64"
  shows "dump_integer buffer x = (if x < 0 then ''-'' else '''') @ to_string (nat \<bar>x\<bar>) \<and>
    (x \<noteq> 0 \<longrightarrow> hd (to_string (nat \<bar>x\<bar>)) \<noteq> CHR ''0'') \<and> length (dump_integer buffer x) \<le> 20"
proof -
  have "nat \<bar>x\<bar> < 10 ^ (if x < 0 then 19 else 20)"
    using assms(1,2) by (auto simp: nat_less_iff)
  then have "length (to_string (nat \<bar>x\<bar>)) \<le> (if x < 0 then 19 else 20)"
    by (intro length_to_string) simp_all
  then show ?thesis
    using dump_integer_eq [OF assms] to_string_head [of "nat \<bar>x\<bar>"]
    by (auto simp: int_text_def split: if_split_asm)
qed

theorem dump_integer_correct_witness:
  "dump_integer (replicate 64 (CHR ''7'')) (-9223372036854775808) = ''-9223372036854775808''"
proof -
  have "char_of (48 :: nat) = CHR ''0''" "char_of (50 :: nat) = CHR ''2''" "char_of (51 :: nat) = CHR ''3''"
    "char_of (52 :: nat) = CHR ''4''" "char_of (53 :: nat) = CHR ''5''" "char_of (54 :: nat) = CHR ''6''"
    "char_of (55 :: nat) = CHR ''7''" "char_of (56 :: nat) = CHR ''8''" "char_of (57 :: nat) = CHR ''9''"
    by code_simp+
  then have "to_string 9223372036854775808 = ''9223372036854775808''" by (simp add: to_string.simps)
  then show ?thesis
    using dump_integer_correct [of "-9223372036854775808" "replicate 64 (CHR ''7'')"] by simp
qed

end
