(* ===== verification/Utils.thy ===== *)
theory Utils
  imports Prelude
begin

text \<open>
  \<^verbatim>\<open>common-cpp/src/utils/Utils.cpp\<close>: byte order, random tokens, string helpers and
  the hexadecimal printer. \<^verbatim>\<open>RAND_bytes\<close> is OpenSSL's, so the random source is the
  parameter \<open>draw\<close>: \<open>draw i\<close> are the four bytes the \<open>i\<close>-th call delivers. The clock
  (\<^verbatim>\<open>GetCurrentTimeMillis\<close>) is an argument of whatever reads it. The date formatter and
  the Windows code page conversions only call the system and are not modelled.
\<close>

section \<open>Byte order\<close>

text \<open>The \<^verbatim>\<open>short\<close> holding 1, read through a \<^verbatim>\<open>char*\<close>: is its first byte 1?\<close>

definition IsLittleEndian :: "endian \<Rightarrow> bool" where
  "IsLittleEndian e = (mem_store e 2 1 ! 0 = 1)"

lemma IsLittleEndian_iff [host_simps]: "IsLittleEndian e \<longleftrightarrow> e = LittleEndian"
  by (cases e) (simp_all add: IsLittleEndian_def mem_store_def numeral_2_eq_2)

section \<open>Random tokens\<close>

definition GetRandomInt :: "endian \<Rightarrow> bytes \<Rightarrow> 32 word" where
  "GetRandomInt e bs = word_of_nat (mem_load e bs)"

definition rand_charset :: string where
  "rand_charset = ''0123456789'' @ ''ABCDEFGHIJKLMNOPQRSTUVWXYZ'' @ ''abcdefghijklmnopqrstuvwxyz''"

text \<open>
  \<^verbatim>\<open>charset[GetRandomInt() % max_index]\<close>: \<^verbatim>\<open>max_index\<close> is a 64-bit \<^verbatim>\<open>size_t\<close>
  (62, the literal without its NUL), so the signed \<^verbatim>\<open>int\<close> is sign-extended to 64 bits
  and the remainder is unsigned.
\<close>

definition rand_char :: "32 word \<Rightarrow> char" where
  "rand_char v = rand_charset ! (unat (scast v :: 64 word) mod length rand_charset)"

definition GetRandomString :: "endian \<Rightarrow> (nat \<Rightarrow> bytes) \<Rightarrow> nat \<Rightarrow> string" where
  "GetRandomString e draw len = map (\<lambda>i. rand_char (GetRandomInt e (draw i))) [0..<len]"

lemma length_rand_charset: "length rand_charset = 62"
  by (simp add: rand_charset_def)

lemma rand_char_in_charset: "rand_char v \<in> set rand_charset"
  unfolding rand_char_def by (rule nth_mem) (simp add: length_rand_charset)

section \<open>Splitting and searching\<close>

text \<open>\<^verbatim>\<open>s.find(c, pos)\<close>; \<open>None\<close> is \<^verbatim>\<open>npos\<close>.\<close>

function find_char :: "string \<Rightarrow> char \<Rightarrow> nat \<Rightarrow> nat option" where
  "find_char s c pos =
     (if pos < length s
      then if s ! pos = c then Some pos else find_char s c (Suc pos)
      else None)"
  by pat_completeness auto
termination
  by (relation "measure (\<lambda>(s, c, pos). length s - pos)") auto

declare find_char.simps [simp del]

definition substr :: "string \<Rightarrow> nat \<Rightarrow> nat \<Rightarrow> string" where
  "substr s pos count = take count (drop pos s)"

lemma find_char_SomeD:
  "find_char s c pos = Some p \<Longrightarrow>
   pos \<le> p \<and> p < length s \<and> s ! p = c \<and> (\<forall>k. pos \<le> k \<and> k < p \<longrightarrow> s ! k \<noteq> c)"
proof (induction s c pos rule: find_char.induct)
  case (1 s c pos)
  show ?case
  proof (cases "pos < length s \<and> s ! pos \<noteq> c")
    case True
    with 1 have "Suc pos \<le> p \<and> p < length s \<and> s ! p = c \<and> (\<forall>k. Suc pos \<le> k \<and> k < p \<longrightarrow> s ! k \<noteq> c)"
      by (simp add: find_char.simps [of s c pos])
    with True show ?thesis by (metis Suc_leD Suc_leI le_neq_implies_less)
  next
    case False
    with "1.prems" show ?thesis
      by (auto simp: find_char.simps [of s c pos] split: if_splits)
  qed
qed

lemma find_char_NoneD: "find_char s c pos = None \<Longrightarrow> c \<notin> set (drop pos s)"
proof (induction s c pos rule: find_char.induct)
  case (1 s c pos)
  show ?case
  proof (cases "pos < length s")
    case True
    with "1.prems" have "s ! pos \<noteq> c" "find_char s c (Suc pos) = None"
      by (auto simp: find_char.simps [of s c pos] split: if_splits)
    with True 1 show ?thesis by (simp flip: Cons_nth_drop_Suc)
  next
    case False
    then show ?thesis by simp
  qed
qed

text \<open>
  The loop of \<^verbatim>\<open>SplitString\<close>: \<open>out\<close> is \<^verbatim>\<open>output\<close>. After the loop \<^verbatim>\<open>pos\<close> is
  \<^verbatim>\<open>npos\<close>, so the last \<^verbatim>\<open>substr(prev_pos, npos - prev_pos)\<close> runs to the end of the
  string.
\<close>

function split_loop :: "string \<Rightarrow> char \<Rightarrow> string list \<Rightarrow> nat \<Rightarrow> nat \<Rightarrow> string list" where
  "split_loop s c out prev_pos pos =
     (case find_char s c pos of
        Some p \<Rightarrow> split_loop s c (out @ [substr s prev_pos (p - prev_pos)]) (Suc p) (Suc p)
      | None \<Rightarrow> out @ [drop prev_pos s])"
  by pat_completeness auto
termination
  by (relation "measure (\<lambda>(s, c, out, prev, pos). length s - pos)")
     (auto dest: find_char_SomeD)

declare split_loop.simps [simp del]

definition SplitString :: "string \<Rightarrow> char \<Rightarrow> string list" where
  "SplitString s separator = split_loop s separator [] 0 0"

text \<open>
  \<^verbatim>\<open>value.rfind(beginning, 0) == 0\<close>: the last occurrence that starts at or before
  position 0 starts at 0.
\<close>

definition rfind_at_0 :: "string \<Rightarrow> string \<Rightarrow> bool" where
  "rfind_at_0 v pat = (take (length pat) v = pat)"

definition StringStartsWith :: "string \<Rightarrow> string \<Rightarrow> bool" where
  "StringStartsWith v beginning =
     (if length beginning > length v then False else rfind_at_0 v beginning)"

text \<open>\<^verbatim>\<open>std::equal\<close> over the reversed ranges: as many characters as \<^verbatim>\<open>ending\<close> has.\<close>

definition StringEndsWith :: "string \<Rightarrow> string \<Rightarrow> bool" where
  "StringEndsWith v ending =
     (if length ending > length v then False
      else take (length ending) (rev v) = rev ending)"

text \<open>\<^verbatim>\<open>str.find(val) != npos\<close>: some position at which \<^verbatim>\<open>val\<close> occurs.\<close>

definition StringContains :: "string \<Rightarrow> string \<Rightarrow> bool" where
  "StringContains str val = list_ex (\<lambda>i. take (length val) (drop i str) = val) [0..<Suc (length str)]"

text \<open>\<^verbatim>\<open>std::tolower\<close> in the "C" locale.\<close>

definition tolower :: "char \<Rightarrow> char" where
  "tolower c = (if 65 \<le> (of_char c :: nat) \<and> (of_char c :: nat) \<le> 90 then char_of ((of_char c :: nat) + 32) else c)"

definition ToLowerString :: "string \<Rightarrow> string" where
  "ToLowerString s = map tolower s"

lemma StringStartsWith_prefix [string_simps]: "StringStartsWith v b \<longleftrightarrow> prefix b v"
  by (auto simp: StringStartsWith_def rfind_at_0_def take_eq_iff_prefix dest: prefix_length_le)

lemma StringEndsWith_suffix [string_simps]: "StringEndsWith v e \<longleftrightarrow> suffix e v"
proof -
  have "StringEndsWith v e \<longleftrightarrow> prefix (rev e) (rev v)"
    using take_eq_iff_prefix [of "rev e" "rev v"]
    by (auto simp: StringEndsWith_def dest: prefix_length_le)
  then show ?thesis by (simp add: suffix_to_prefix)
qed

lemma StringContains_sublist [string_simps]: "StringContains str v \<longleftrightarrow> sublist v str"
proof
  assume "StringContains str v"
  then obtain i where "take (length v) (drop i str) = v"
    by (auto simp: StringContains_def list_ex_iff)
  then have "str = take i str @ v @ drop (length v) (drop i str)"
    by (metis append_take_drop_id)
  then show "sublist v str" unfolding sublist_def by blast
next
  assume "sublist v str"
  then obtain ps ss where "str = ps @ v @ ss" by (auto simp: sublist_def)
  then have "take (length v) (drop (length ps) str) = v" "length ps \<in> set [0..<Suc (length str)]"
    by simp_all
  then show "StringContains str v"
    unfolding StringContains_def list_ex_iff by blast
qed

section \<open>Hexadecimal printing\<close>

definition hex_digit :: "nat \<Rightarrow> char" where
  "hex_digit n = ''0123456789ABCDEF'' ! n"

text \<open>\<^verbatim>\<open>snprintf("%02X", b)\<close>: two upper-case digits.\<close>

definition hex_byte :: "byte \<Rightarrow> string" where
  "hex_byte b = [hex_digit (unat b div 16), hex_digit (unat b mod 16)]"

text \<open>
  \<^verbatim>\<open>ToHexString\<close>: the loop prints each byte, the terminating NUL is written, and the
  string is built from the first \<^verbatim>\<open>data_len * 2 + 1\<close> characters of the buffer, which
  includes that NUL. \<open>mem\<close> tells whether \<^verbatim>\<open>malloc\<close> succeeds.
\<close>

definition ToHexString :: "bool \<Rightarrow> bytes \<Rightarrow> string" where
  "ToHexString mem data =
     (if data = [] then []
      else if \<not> mem then []
      else concat (map hex_byte data) @ [CHR 0x00])"

section \<open>What the helpers compute\<close>

text \<open>The reference split: cut at every separator.\<close>

fun split_on :: "char \<Rightarrow> string \<Rightarrow> string list" where
  "split_on c [] = [[]]"
| "split_on c (x # xs) =
     (if x = c then [] # split_on c xs
      else (case split_on c xs of [] \<Rightarrow> [[x]] | p # ps \<Rightarrow> (x # p) # ps))"

fun join_with :: "char \<Rightarrow> string list \<Rightarrow> string" where
  "join_with c [] = []"
| "join_with c [p] = p"
| "join_with c (p # q # ps) = p @ c # join_with c (q # ps)"

lemma split_on_not_Nil [simp]: "split_on c s \<noteq> []"
  by (induction s) (auto split: list.split)

lemma split_on_no_sep: "c \<notin> set s \<Longrightarrow> split_on c s = [s]"
  by (induction s) auto

lemma split_on_append: "c \<notin> set p \<Longrightarrow> split_on c (p @ c # s) = p # split_on c s"
  by (induction p) auto

lemma join_with_Cons: "ps \<noteq> [] \<Longrightarrow> join_with c (p # ps) = p @ c # join_with c ps"
  by (cases ps) auto

lemma join_with_cons_head: "join_with c ((x # p) # ps) = x # join_with c (p # ps)"
  by (cases ps) auto

lemma join_split_on: "join_with c (split_on c s) = s"
proof (induction s)
  case Nil
  then show ?case by simp
next
  case (Cons x xs)
  obtain p ps where ps: "split_on c xs = p # ps"
    by (meson list.exhaust split_on_not_Nil)
  with Cons show ?case by (simp add: join_with_cons_head join_with_Cons del: join_with.simps)
qed

lemma split_on_pieces: "list_all (\<lambda>p. c \<notin> set p) (split_on c s)"
  by (induction s) (auto split: list.split)

lemma length_split_on: "length (split_on c s) = Suc (count_list s c)"
  by (induction s) (auto split: list.split)

lemma drop_split_at:
  assumes "find_char s c pos = Some p"
  shows "drop pos s = substr s pos (p - pos) @ c # drop (Suc p) s"
    and "c \<notin> set (substr s pos (p - pos))"
proof -
  have p: "pos \<le> p" "p < length s" "s ! p = c" "\<And>k. pos \<le> k \<Longrightarrow> k < p \<Longrightarrow> s ! k \<noteq> c"
    using find_char_SomeD [OF assms] by auto
  have "drop (p - pos) (drop pos s) = c # drop (Suc p) s"
    using p Cons_nth_drop_Suc [of p s] by simp
  then show "drop pos s = substr s pos (p - pos) @ c # drop (Suc p) s"
    by (metis append_take_drop_id substr_def)
  show "c \<notin> set (substr s pos (p - pos))"
  proof
    assume "c \<in> set (substr s pos (p - pos))"
    then obtain k where "k < p - pos" "s ! (pos + k) = c"
      using p by (auto simp: substr_def in_set_conv_nth)
    then show False using p(4) [of "pos + k"] by simp
  qed
qed

lemma split_loop_eq: "split_loop s c out pos pos = out @ split_on c (drop pos s)"
proof (induction "length s - pos" arbitrary: out pos rule: less_induct)
  case less
  show ?case
  proof (cases "find_char s c pos")
    case None
    then show ?thesis
      by (simp add: split_loop.simps [of s c out pos pos] split_on_no_sep find_char_NoneD)
  next
    case (Some p)
    then have "length s - Suc p < length s - pos" by (auto dest: find_char_SomeD)
    note IH = less [OF this]
    show ?thesis
      using Some IH drop_split_at [OF Some]
      by (simp add: split_loop.simps [of s c out pos pos] split_on_append)
  qed
qed

lemma SplitString_split_on [string_simps]: "SplitString s c = split_on c s"
  by (simp add: SplitString_def split_loop_eq)

text \<open>
  \<^verbatim>\<open>SplitString\<close> loses nothing and cuts at every separator: the pieces joined with
  the separator are the input, no piece contains the separator, and there is one piece
  more than there are separators (so a string without one gives one piece).
\<close>

theorem SplitString_correct:
  "join_with c (SplitString s c) = s \<and> list_all (\<lambda>p. c \<notin> set p) (SplitString s c)
   \<and> length (SplitString s c) = Suc (count_list s c)"
  by (simp add: string_simps join_split_on split_on_pieces length_split_on)

text \<open>
  The index arithmetic of the three substring tests decides the list predicates they
  are named after.
\<close>

theorem substring_tests_correct:
  "(StringStartsWith v p \<longleftrightarrow> prefix p v) \<and> (StringEndsWith v p \<longleftrightarrow> suffix p v)
   \<and> (StringContains v p \<longleftrightarrow> sublist p v)"
  by (simp add: string_simps)

text \<open>
  A random token has the requested length and only letters and digits, whatever the
  random source delivers and whatever the sign of the integer it is read as.
\<close>

theorem GetRandomString_alphanumeric:
  "length (GetRandomString e draw n) = n \<and> set (GetRandomString e draw n) \<subseteq> set rand_charset"
  by (auto simp: GetRandomString_def rand_char_in_charset)

text \<open>Reading hexadecimal digits back.\<close>

definition unhex_digit :: "char \<Rightarrow> nat option" where
  "unhex_digit c =
     (let n = of_char c
      in if 48 \<le> n \<and> n \<le> 57 then Some (n - 48)
         else if 65 \<le> n \<and> n \<le> 70 then Some (n - 55) else None)"

fun from_hex :: "string \<Rightarrow> bytes option" where
  "from_hex [] = Some []"
| "from_hex [c] = None"
| "from_hex (c # d # cs) =
     (case (unhex_digit c, unhex_digit d, from_hex cs) of
        (Some h, Some l, Some bs) \<Rightarrow> Some (word_of_nat (16 * h + l) # bs)
      | _ \<Rightarrow> None)"

lemma hex_digits_read: "list_all (\<lambda>n. unhex_digit (hex_digit n) = Some n \<and> hex_digit n \<noteq> CHR 0x00) [0..<16]"
  by (simp add: unhex_digit_def hex_digit_def upt_rec)

lemma hex_digit_at:
  assumes "n < 16"
  shows unhex_hex_digit: "unhex_digit (hex_digit n) = Some n" and hex_digit_not_nul: "hex_digit n \<noteq> CHR 0x00"
  using hex_digits_read assms by (simp_all add: list_all_iff)

lemma byte_nibbles: "unat (b :: byte) div 16 < 16" "unat b mod 16 < 16"
  using unat_byte_less [of b] by (simp_all add: less_mult_imp_div_less)

lemma from_hex_bytes: "from_hex (concat (map hex_byte bs)) = Some bs"
  by (induction bs) (simp_all add: hex_byte_def unhex_hex_digit byte_nibbles)

lemma hex_bytes_no_nul: "CHR 0x00 \<notin> set (concat (map hex_byte bs))"
  by (auto simp: hex_byte_def hex_digit_not_nul byte_nibbles dest: sym)

lemma length_hex_bytes: "length (concat (map hex_byte bs)) = 2 * length bs"
  by (induction bs) (simp_all add: hex_byte_def)

text \<open>
  \<^verbatim>\<open>ToHexString\<close> is injective and readable: up to its first NUL the result decodes
  to the bytes that were printed. The result itself is one character longer than the
  digits: it ends in that NUL, which a \<^verbatim>\<open>std::string\<close> keeps.
\<close>

theorem ToHexString_roundtrip:
  assumes "data \<noteq> []"
  shows "from_hex (c_str (ToHexString True data)) = Some data
         \<and> length (ToHexString True data) = 2 * length data + 1
         \<and> last (ToHexString True data) = CHR 0x00"
  using assms
  by (simp add: ToHexString_def c_str_append_nul [OF hex_bytes_no_nul] from_hex_bytes length_hex_bytes)

theorem ToHexString_roundtrip_witness:
  "from_hex (c_str (ToHexString True [0xDE, 0xAD])) = Some [0xDE, 0xAD]
   \<and> ToHexString True [0xDE, 0xAD] = ''DEAD'' @ [CHR 0x00]"
  using ToHexString_roundtrip [of "[0xDE, 0xAD]"]
  by (simp add: ToHexString_def hex_byte_def hex_digit_def)

end
