(* ===== verification/CryptUtils.thy ===== *)
theory CryptUtils
  imports Utils
begin

text \<open>
  \<^verbatim>\<open>common-cpp/src/utils/CryptUtils.cpp\<close>: the packet format. A packet is the initialisation
  vector, the salt, the AES-256-GCM ciphertext of an 8-byte big-endian time stamp
  followed by the payload, and the authentication tag.

  OpenSSL, \<^verbatim>\<open>malloc\<close> and the byte order of the machine are the fields of a \<open>host\<close>, which
  every operation takes as an argument; an OpenSSL call that can fail returns an option.
  \<open>crypt_heap\<close> counts what is allocated, so that the release on every early return is
  part of the model.
\<close>

section \<open>The machine the code runs on\<close>

record 'x host =
  byte_order :: endian
  build :: platform
  malloc_ok :: "nat \<Rightarrow> bool"
  ssl_RAND_bytes :: "nat \<Rightarrow> nat \<Rightarrow> bytes option"
  ssl_PBKDF2 :: "bytes \<Rightarrow> bytes \<Rightarrow> nat \<Rightarrow> nat \<Rightarrow> bytes option"
  ssl_CTX_new :: "'x option"
  ssl_EncryptInit_cipher :: "'x \<Rightarrow> 'x option"
  ssl_DecryptInit_cipher :: "'x \<Rightarrow> 'x option"
  ssl_set_ivlen :: "'x \<Rightarrow> nat \<Rightarrow> 'x option"
  ssl_EncryptInit_key :: "'x \<Rightarrow> bytes \<Rightarrow> bytes \<Rightarrow> 'x option"
  ssl_DecryptInit_key :: "'x \<Rightarrow> bytes \<Rightarrow> bytes \<Rightarrow> 'x option"
  ssl_EncryptUpdate :: "'x \<Rightarrow> bytes \<Rightarrow> int \<Rightarrow> ('x \<times> bytes) option"
  ssl_DecryptUpdate :: "'x \<Rightarrow> bytes \<Rightarrow> int \<Rightarrow> ('x \<times> bytes) option"
  ssl_EncryptFinal :: "'x \<Rightarrow> ('x \<times> bytes) option"
  ssl_DecryptFinal :: "'x \<Rightarrow> ('x \<times> bytes) option"
  ssl_get_tag :: "'x \<Rightarrow> nat \<Rightarrow> bytes"
  ssl_set_tag :: "'x \<Rightarrow> bytes \<Rightarrow> 'x option"

record crypt_heap =
  rand_calls :: nat
  keys_live :: int
  ctxs_live :: int
  bufs_live :: int

definition rand_tick :: "crypt_heap \<Rightarrow> crypt_heap" where
  "rand_tick h = h\<lparr>rand_calls := Suc (rand_calls h)\<rparr>"

definition key_alloc :: "crypt_heap \<Rightarrow> crypt_heap" where
  "key_alloc h = h\<lparr>keys_live := keys_live h + 1\<rparr>"

definition key_free :: "crypt_heap \<Rightarrow> crypt_heap" where
  "key_free h = h\<lparr>keys_live := keys_live h - 1\<rparr>"

definition ctx_alloc :: "crypt_heap \<Rightarrow> crypt_heap" where
  "ctx_alloc h = h\<lparr>ctxs_live := ctxs_live h + 1\<rparr>"

definition ctx_free :: "crypt_heap \<Rightarrow> crypt_heap" where
  "ctx_free h = h\<lparr>ctxs_live := ctxs_live h - 1\<rparr>"

definition buf_alloc :: "crypt_heap \<Rightarrow> crypt_heap" where
  "buf_alloc h = h\<lparr>bufs_live := bufs_live h + 1\<rparr>"

definition buf_free :: "crypt_heap \<Rightarrow> crypt_heap" where
  "buf_free h = h\<lparr>bufs_live := bufs_live h - 1\<rparr>"

lemmas heap_defs = rand_tick_def key_alloc_def key_free_def ctx_alloc_def ctx_free_def
  buf_alloc_def buf_free_def

section \<open>Constants\<close>

definition AES_KEY_SIZE :: nat where "AES_KEY_SIZE = 256"
definition IV_SIZE :: nat where "IV_SIZE = 16"
definition SALT_SIZE :: nat where "SALT_SIZE = 16"
definition ITERATIONS :: nat where "ITERATIONS = 65535"
definition TAG_SIZE :: nat where "TAG_SIZE = 16"

lemmas size_defs = IV_SIZE_def SALT_SIZE_def TAG_SIZE_def

definition PACKET_TIMEOUT :: "platform \<Rightarrow> int" where
  "PACKET_TIMEOUT p = (if p = Windows then 60000 * 2 else 30000)"

datatype PacketCryptResult = OK | INVALID_TIMESTAMP | OTHER_ERROR

section \<open>Byte reversal\<close>

definition swap_step :: "nat \<Rightarrow> nat \<Rightarrow> bytes \<Rightarrow> bytes" where
  "swap_step n i d = (let tmp = d ! i in (d[i := d ! (n - 1 - i)])[n - 1 - i := tmp])"

definition ReverseBytes :: "endian \<Rightarrow> bytes \<Rightarrow> nat \<Rightarrow> bytes" where
  "ReverseBytes e data n =
     (if \<not> IsLittleEndian e then data else fold (swap_step n) [0..<n div 2] data)"

section \<open>Keys\<close>

definition GenerateKey :: "'x host \<Rightarrow> string \<Rightarrow> bytes \<Rightarrow> crypt_heap \<Rightarrow> bytes option \<times> crypt_heap" where
  "GenerateKey H pwd salt h =
     (if \<not> malloc_ok H (AES_KEY_SIZE div 8) then (None, h)
      else
        let h = key_alloc h in
        case ssl_PBKDF2 H (bytes_of pwd) salt ITERATIONS (AES_KEY_SIZE div 8) of
          None \<Rightarrow> (None, key_free h)
        | Some key \<Rightarrow> (Some key, h))"

section \<open>Encryption\<close>

text \<open>
  \<open>EncryptCtx\<close> is \<^verbatim>\<open>EncryptAES\<close> from the creation of the cipher context on: \<open>dst\<close>
  already holds the vector and the salt.
\<close>

definition EncryptCtx ::
  "'x host \<Rightarrow> bytes \<Rightarrow> bytes \<Rightarrow> bytes \<Rightarrow> bytes \<Rightarrow> crypt_heap \<Rightarrow> fault + nat \<times> bytes \<times> crypt_heap" where
  "EncryptCtx H src dst iv key h =
     (case ssl_CTX_new H of
        None \<Rightarrow> Inr (0, dst, key_free h)
      | Some c0 \<Rightarrow>
          let h = ctx_alloc h in
          case ssl_EncryptInit_cipher H c0 of
            None \<Rightarrow> Inr (0, dst, ctx_free (key_free h))
          | Some c1 \<Rightarrow>
          case ssl_set_ivlen H c1 IV_SIZE of
            None \<Rightarrow> Inr (0, dst, ctx_free (key_free h))
          | Some c2 \<Rightarrow>
          let c2' = ssl_EncryptInit_key H c2 key iv; h = key_free h in
          case c2' of
            None \<Rightarrow> Inr (0, dst, ctx_free h)
          | Some c3 \<Rightarrow>
          case ssl_EncryptUpdate H c3 src (to_int32 (int (length src))) of
            None \<Rightarrow> Inr (0, dst, ctx_free h)
          | Some (c4, out) \<Rightarrow>
              bind_err (buf_write dst (IV_SIZE + SALT_SIZE) out) (\<lambda>dst.
              let encryptedLen = length out in
              case ssl_EncryptFinal H c4 of
                None \<Rightarrow> Inr (0, dst, ctx_free h)
              | Some (c5, fin) \<Rightarrow>
                  bind_err (buf_write dst (IV_SIZE + SALT_SIZE + encryptedLen) fin) (\<lambda>dst.
                  bind_err (buf_write dst (IV_SIZE + SALT_SIZE + encryptedLen) (ssl_get_tag H c5 TAG_SIZE)) (\<lambda>dst.
                  Inr (IV_SIZE + SALT_SIZE + encryptedLen + TAG_SIZE, dst, ctx_free h)))))"

text \<open>
  \<^verbatim>\<open>EncryptAES\<close>; \<open>None\<close> for \<open>src\<close> is a null pointer. Both callers pass a stack array as
  \<^verbatim>\<open>dst\<close>, so \<^verbatim>\<open>!dst\<close> is false. The password is the C string of the \<^verbatim>\<open>std::string\<close>.
\<close>

definition EncryptAES ::
  "'x host \<Rightarrow> bytes option \<Rightarrow> bytes \<Rightarrow> string \<Rightarrow> crypt_heap \<Rightarrow> fault + nat \<times> bytes \<times> crypt_heap" where
  "EncryptAES H srcp dst pwd h =
     (case srcp of None \<Rightarrow> Inr (0, dst, h) | Some src \<Rightarrow>
      if length dst < length src + SALT_SIZE + IV_SIZE then Inr (0, dst, h)
      else
        case ssl_RAND_bytes H (rand_calls h) IV_SIZE of
          None \<Rightarrow> Inr (0, dst, rand_tick h)
        | Some iv \<Rightarrow>
            let h = rand_tick h in
            bind_err (buf_write dst 0 iv) (\<lambda>dst.
            case ssl_RAND_bytes H (rand_calls h) SALT_SIZE of
              None \<Rightarrow> Inr (0, dst, rand_tick h)
            | Some salt \<Rightarrow>
                let h = rand_tick h in
                bind_err (buf_write dst IV_SIZE salt) (\<lambda>dst.
                case GenerateKey H (c_str pwd) salt h of
                  (None, h) \<Rightarrow> Inr (0, dst, h)
                | (Some key, h) \<Rightarrow> EncryptCtx H src dst iv key h)))"

definition EncryptAESPacket ::
  "'x host \<Rightarrow> 64 word \<Rightarrow> bytes \<Rightarrow> string \<Rightarrow> crypt_heap
   \<Rightarrow> fault + PacketCryptResult \<times> nat \<times> bytes option \<times> crypt_heap" where
  "EncryptAESPacket H timeMs data pwd h =
     (if \<not> malloc_ok H (length data + 8) then Inr (OTHER_ERROR, 0, None, h)
      else
        let h = buf_alloc h;
            dataBuf = ReverseBytes (byte_order H) (mem_store (byte_order H) 8 (unat timeMs)) 8 @ data;
            encBuffer = replicate 1024 0
        in bind_err (EncryptAES H (Some dataBuf) encBuffer pwd h) (\<lambda>(encLen, encBuffer, h).
           let h = buf_free h in
           if encLen \<le> 8 then Inr (OTHER_ERROR, encLen, None, h)
           else if \<not> malloc_ok H encLen then Inr (OTHER_ERROR, encLen, None, h)
           else Inr (OK, encLen, Some (take encLen encBuffer), buf_alloc h)))"

section \<open>Decryption\<close>

text \<open>
  The length handed to \<^verbatim>\<open>EVP_DecryptUpdate\<close> is the \<^verbatim>\<open>int\<close> expression
  \<^verbatim>\<open>(int)srcLen - IV_SIZE - SALT_SIZE - 16\<close>, which is negative for a packet shorter than
  vector, salt and tag together; the context sees the bytes that length selects.
\<close>

definition decrypt_len :: "nat \<Rightarrow> int" where
  "decrypt_len srcLen = to_int32 (int srcLen) - int IV_SIZE - int SALT_SIZE - int TAG_SIZE"

definition DecryptCtx ::
  "'x host \<Rightarrow> bytes \<Rightarrow> bytes \<Rightarrow> bytes \<Rightarrow> bytes \<Rightarrow> crypt_heap \<Rightarrow> fault + nat \<times> bytes \<times> crypt_heap" where
  "DecryptCtx H src dst iv key h =
     (case ssl_CTX_new H of
        None \<Rightarrow> Inr (0, dst, key_free h)
      | Some c0 \<Rightarrow>
          let h = ctx_alloc h in
          case ssl_DecryptInit_cipher H c0 of
            None \<Rightarrow> Inr (0, dst, ctx_free (key_free h))
          | Some c1 \<Rightarrow>
          case ssl_set_ivlen H c1 IV_SIZE of
            None \<Rightarrow> Inr (0, dst, ctx_free (key_free h))
          | Some c2 \<Rightarrow>
          let c2' = ssl_DecryptInit_key H c2 key iv; h = key_free h in
          case c2' of
            None \<Rightarrow> Inr (0, dst, ctx_free h)
          | Some c3 \<Rightarrow>
          let n = decrypt_len (length src) in
          case ssl_DecryptUpdate H c3 (take (nat n) (drop (IV_SIZE + SALT_SIZE) src)) n of
            None \<Rightarrow> Inr (0, dst, ctx_free h)
          | Some (c4, out) \<Rightarrow>
              bind_err (buf_write dst 0 out) (\<lambda>dst.
              let decryptedLen = length out in
              case ssl_set_tag H c4 (drop (length src - TAG_SIZE) src) of
                None \<Rightarrow> Inr (0, dst, ctx_free h)
              | Some c5 \<Rightarrow>
              case ssl_DecryptFinal H c5 of
                None \<Rightarrow> Inr (0, dst, ctx_free h)
              | Some (_, fin) \<Rightarrow>
                  bind_err (buf_write dst decryptedLen fin) (\<lambda>dst.
                  Inr (decryptedLen, dst, ctx_free h))))"

definition DecryptAES ::
  "'x host \<Rightarrow> bytes option \<Rightarrow> bytes \<Rightarrow> string \<Rightarrow> crypt_heap \<Rightarrow> fault + nat \<times> bytes \<times> crypt_heap" where
  "DecryptAES H srcp dst pwd h =
     (case srcp of None \<Rightarrow> Inr (0, dst, h) | Some src \<Rightarrow>
      if length src < IV_SIZE + SALT_SIZE \<or> length dst < length src - IV_SIZE - SALT_SIZE
      then Inr (0, dst, h)
      else
        let iv = take IV_SIZE src;
            salt = take SALT_SIZE (drop IV_SIZE src)
        in case GenerateKey H (c_str pwd) salt h of
             (None, h) \<Rightarrow> Inr (0, dst, h)
           | (Some key, h) \<Rightarrow> DecryptCtx H src dst iv key h)"

text \<open>
  \<^verbatim>\<open>timeDiff\<close> is the 64-bit difference of the clock and the packet's time stamp, compared
  as a signed number.
\<close>

definition DecryptAESPacket ::
  "'x host \<Rightarrow> 64 word \<Rightarrow> bytes option \<Rightarrow> string \<Rightarrow> crypt_heap
   \<Rightarrow> fault + PacketCryptResult \<times> nat \<times> bytes option \<times> crypt_heap" where
  "DecryptAESPacket H now srcp pwd h =
     bind_err (DecryptAES H srcp (replicate 1024 0) pwd h) (\<lambda>(decLen, decBuffer, h).
     if decLen \<le> 8 then Inr (OTHER_ERROR, decLen, None, h)
     else
       let decLen = decLen - 8;
           timestamp = word_of_nat (mem_load (byte_order H)
                         (ReverseBytes (byte_order H) (take 8 decBuffer) 8)) :: 64 word;
           timeDiff = sint (now - timestamp)
       in if timeDiff < - PACKET_TIMEOUT (build H) \<or> timeDiff > PACKET_TIMEOUT (build H)
          then Inr (INVALID_TIMESTAMP, decLen, None, h)
          else if \<not> malloc_ok H decLen then Inr (OTHER_ERROR, decLen, None, h)
          else Inr (OK, decLen, Some (take decLen (drop 8 decBuffer)), buf_alloc h))"

end
