(* ===== verification/CryptCorrect.thy ===== *)
theory CryptCorrect
  imports CryptUtils
begin

text \<open>
  What the packet code of \<^verbatim>\<open>CryptUtils.cpp\<close> guarantees: byte reversal, the balance of
  allocations and releases on every path, the buffer bounds, and the refinement of the
  OpenSSL call sequences to an abstract authenticated cipher, from which the round trip
  of a packet follows.
\<close>

section \<open>Byte reversal\<close>

lemma fold_swap_step_length [simp]: "length (fold (swap_step n) is d) = length d"
  by (induction "is" arbitrary: d) (simp_all add: swap_step_def Let_def)

lemma fold_swap_step_nth:
  assumes "k \<le> n div 2" and "n = length d" and "j < n"
  shows "fold (swap_step n) [0..<k] d ! j = (if j < k \<or> n - k \<le> j then d ! (n - 1 - j) else d ! j)"
  using assms(1,3)
proof (induction k arbitrary: j)
  case 0
  then show ?case by simp
next
  case (Suc k)
  define d' where "d' = fold (swap_step n) [0..<k] d"
  have len: "length d' = n" using assms(2) by (simp add: d'_def)
  have k: "k < n - 1 - k" using Suc.prems by arith
  have at: "d' ! i = (if i < k \<or> n - k \<le> i then d ! (n - 1 - i) else d ! i)" if "i < n" for i
    using Suc.IH [of i] that Suc.prems by (simp add: d'_def)
  have "fold (swap_step n) [0..<Suc k] d ! j = (d'[k := d' ! (n - 1 - k), n - 1 - k := d' ! k]) ! j"
    by (simp add: swap_step_def Let_def d'_def)
  also have "\<dots> = (if j < Suc k \<or> n - Suc k \<le> j then d ! (n - 1 - j) else d ! j)"
    using k Suc.prems len at [of j] at [of k] at [of "n - 1 - k"]
    by (auto simp: nth_list_update)
  finally show ?case .
qed

lemma ReverseBytes_eq [host_simps]:
  "ReverseBytes e d (length d) = (case e of LittleEndian \<Rightarrow> rev d | BigEndian \<Rightarrow> d)"
proof -
  have "fold (swap_step (length d)) [0..<length d div 2] d = rev d"
  proof (rule nth_equalityI)
    fix j assume "j < length (fold (swap_step (length d)) [0..<length d div 2] d)"
    then have j: "j < length d" by simp
    have "\<not> (j < length d div 2 \<or> length d - length d div 2 \<le> j) \<Longrightarrow> length d - 1 - j = j"
      using j by arith
    then show "fold (swap_step (length d)) [0..<length d div 2] d ! j = rev d ! j"
      using j fold_swap_step_nth [OF le_refl refl j]
      by (auto simp: rev_nth)
  qed simp
  then show ?thesis by (cases e) (simp_all add: ReverseBytes_def IsLittleEndian_iff)
qed

lemma ReverseBytes_store [host_simps]: "ReverseBytes e (mem_store e n x) n = be_bytes n x"
  using ReverseBytes_eq [of e "mem_store e n x"]
  by (cases e) (simp_all add: mem_store_def)

lemma load_ReverseBytes [host_simps]:
  "length d = n \<Longrightarrow> mem_load e (ReverseBytes e d n) = be_nat d"
  using ReverseBytes_eq [of e d] by (cases e) (auto simp: mem_load_def)

section \<open>Allocations are released on every path\<close>

text \<open>The key as a function of password and salt.\<close>

definition derive_key :: "'x host \<Rightarrow> string \<Rightarrow> bytes \<Rightarrow> bytes option" where
  "derive_key H pwd salt =
     (if malloc_ok H (AES_KEY_SIZE div 8)
      then ssl_PBKDF2 H (bytes_of pwd) salt ITERATIONS (AES_KEY_SIZE div 8) else None)"

lemma GenerateKey_eq:
  "GenerateKey H pwd salt h =
     (derive_key H pwd salt, if derive_key H pwd salt = None then h else key_alloc h)"
  by (auto simp: GenerateKey_def derive_key_def Let_def heap_defs split: option.splits)

lemma ctx_alloc_free [simp]: "ctx_free (ctx_alloc h) = h"
  by (simp add: heap_defs)

lemma ctx_key_free_comm: "ctx_free (key_free (ctx_alloc h)) = key_free h"
  by (simp add: heap_defs)

lemma key_alloc_free [simp]: "key_free (key_alloc h) = h"
  by (simp add: heap_defs)

lemma EncryptCtx_heap: "EncryptCtx H src dst iv key h = Inr (n, d, h') \<Longrightarrow> h' = key_free h"
  by (auto simp: EncryptCtx_def Let_def ctx_key_free_comm bind_err_Inr
           split: option.splits prod.splits)

lemma DecryptCtx_heap: "DecryptCtx H src dst iv key h = Inr (n, d, h') \<Longrightarrow> h' = key_free h"
  by (auto simp: DecryptCtx_def Let_def ctx_key_free_comm bind_err_Inr
           split: option.splits prod.splits)

lemma DecryptAES_heap: "DecryptAES H srcp dst pwd h = Inr (n, d, h') \<Longrightarrow> h' = h"
  by (auto simp: DecryptAES_def Let_def GenerateKey_eq split: option.splits if_splits
           dest!: DecryptCtx_heap)

text \<open>What stays the same although random numbers were drawn.\<close>

definition same_live :: "crypt_heap \<Rightarrow> crypt_heap \<Rightarrow> bool" where
  "same_live h h' \<longleftrightarrow> keys_live h' = keys_live h \<and> ctxs_live h' = ctxs_live h \<and> bufs_live h' = bufs_live h"

lemma EncryptAES_heap: "EncryptAES H srcp dst pwd h = Inr (n, d, h') \<Longrightarrow> same_live h h'"
  by (auto simp: EncryptAES_def Let_def GenerateKey_eq same_live_def heap_defs
           split: option.split_asm if_split_asm
           elim!: bind_err_InrE dest!: EncryptCtx_heap)

section \<open>The abstract cipher\<close>

text \<open>
  The OpenSSL calls of one encryption and of one decryption, as functions: cipher text
  and tag from key, vector and plain text, and back.
\<close>

definition gcm_encrypt :: "'x host \<Rightarrow> bytes \<Rightarrow> bytes \<Rightarrow> bytes \<Rightarrow> (bytes \<times> bytes) option" where
  "gcm_encrypt H key iv pt =
     Option.bind (ssl_CTX_new H) (\<lambda>c0.
     Option.bind (ssl_EncryptInit_cipher H c0) (\<lambda>c1.
     Option.bind (ssl_set_ivlen H c1 IV_SIZE) (\<lambda>c2.
     Option.bind (ssl_EncryptInit_key H c2 key iv) (\<lambda>c3.
     Option.bind (ssl_EncryptUpdate H c3 pt (int (length pt))) (\<lambda>(c4, out).
     Option.bind (ssl_EncryptFinal H c4) (\<lambda>(c5, fin).
     Some (out @ fin, ssl_get_tag H c5 TAG_SIZE)))))))"

definition gcm_decrypt :: "'x host \<Rightarrow> bytes \<Rightarrow> bytes \<Rightarrow> bytes \<Rightarrow> bytes \<Rightarrow> bytes option" where
  "gcm_decrypt H key iv ct tag =
     Option.bind (ssl_CTX_new H) (\<lambda>c0.
     Option.bind (ssl_DecryptInit_cipher H c0) (\<lambda>c1.
     Option.bind (ssl_set_ivlen H c1 IV_SIZE) (\<lambda>c2.
     Option.bind (ssl_DecryptInit_key H c2 key iv) (\<lambda>c3.
     Option.bind (ssl_DecryptUpdate H c3 ct (int (length ct))) (\<lambda>(c4, out).
     Option.bind (ssl_set_tag H c4 tag) (\<lambda>c5.
     Option.bind (ssl_DecryptFinal H c5) (\<lambda>(c6, fin).
     Some (out @ fin))))))))"

text \<open>
  What the code relies on, as OpenSSL documents it: \<^verbatim>\<open>RAND_bytes\<close> delivers the bytes
  asked for; GCM is a stream mode, so an update returns as many bytes as it was given and
  the final call adds none; the tag has 16 bytes; decryption inverts encryption.
\<close>

definition openssl_ok :: "'x host \<Rightarrow> bool" where
  "openssl_ok H \<longleftrightarrow>
     (\<forall>i n bs. ssl_RAND_bytes H i n = Some bs \<longrightarrow> length bs = n) \<and>
     (\<forall>c x m c' out. ssl_EncryptUpdate H c x m = Some (c', out) \<longrightarrow> 0 \<le> m \<longrightarrow> length out = length x) \<and>
     (\<forall>c x m c' out. ssl_DecryptUpdate H c x m = Some (c', out) \<longrightarrow> 0 \<le> m \<longrightarrow> length out = length x) \<and>
     (\<forall>c c' fin. ssl_EncryptFinal H c = Some (c', fin) \<longrightarrow> fin = []) \<and>
     (\<forall>c c' fin. ssl_DecryptFinal H c = Some (c', fin) \<longrightarrow> fin = []) \<and>
     (\<forall>c. length (ssl_get_tag H c TAG_SIZE) = TAG_SIZE) \<and>
     (\<forall>key iv pt ct tag. gcm_encrypt H key iv pt = Some (ct, tag) \<longrightarrow>
        gcm_decrypt H key iv ct tag = Some pt)"

lemma openssl_okD:
  assumes "openssl_ok H"
  shows "ssl_RAND_bytes H i n = Some bs \<Longrightarrow> length bs = n"
    and "ssl_EncryptUpdate H c x m = Some (c', out) \<Longrightarrow> 0 \<le> m \<Longrightarrow> length out = length x"
    and "ssl_DecryptUpdate H c x m = Some (c', out) \<Longrightarrow> 0 \<le> m \<Longrightarrow> length out = length x"
    and "ssl_EncryptFinal H c = Some (c', fin) \<Longrightarrow> fin = []"
    and "ssl_DecryptFinal H c = Some (c', fin) \<Longrightarrow> fin = []"
    and "length (ssl_get_tag H c TAG_SIZE) = TAG_SIZE"
    and "gcm_encrypt H key iv pt = Some (ct, tag) \<Longrightarrow> gcm_decrypt H key iv ct tag = Some pt"
  using assms unfolding openssl_ok_def by - metis+

lemma gcm_encrypt_sizes:
  assumes ok: "openssl_ok H" and "gcm_encrypt H key iv pt = Some (ct, tag)"
  shows "length ct = length pt \<and> length tag = TAG_SIZE"
  using assms(2) openssl_okD(6) [OF ok]
  by (auto simp: gcm_encrypt_def bind_eq_Some_conv
      dest!: openssl_okD(2) [OF ok _ of_nat_0_le_iff] openssl_okD(4) [OF ok])

text \<open>
  \<open>seal\<close> is the packet an encryption with the given random draws produces, \<open>unseal\<close> the
  plain text a packet holds.
\<close>

definition seal :: "'x host \<Rightarrow> string \<Rightarrow> bytes \<Rightarrow> bytes \<Rightarrow> bytes \<Rightarrow> bytes option" where
  "seal H pwd iv salt pt =
     Option.bind (derive_key H pwd salt) (\<lambda>key.
     map_option (\<lambda>(ct, tag). iv @ salt @ ct @ tag) (gcm_encrypt H key iv pt))"

definition unseal :: "'x host \<Rightarrow> string \<Rightarrow> bytes \<Rightarrow> bytes option" where
  "unseal H pwd pkt =
     Option.bind (derive_key H pwd (take SALT_SIZE (drop IV_SIZE pkt))) (\<lambda>key.
     gcm_decrypt H key (take IV_SIZE pkt)
       (take (length pkt - 48) (drop 32 pkt)) (drop (length pkt - 16) pkt))"

lemma unseal_seal:
  assumes "openssl_ok H" "seal H pwd iv salt pt = Some pkt" "length iv = 16" "length salt = 16"
  shows "unseal H pwd pkt = Some pt" and "length pkt = length pt + 48"
proof -
  obtain key ct tag where k: "derive_key H pwd salt = Some key"
    and e: "gcm_encrypt H key iv pt = Some (ct, tag)" and pkt: "pkt = iv @ salt @ ct @ tag"
    using assms(2) by (auto simp: seal_def bind_eq_Some_conv)
  note sz = gcm_encrypt_sizes [OF assms(1) e, unfolded TAG_SIZE_def]
  show "length pkt = length pt + 48" using pkt sz assms by simp
  show "unseal H pwd pkt = Some pt"
    using k pkt sz assms openssl_okD(7) [OF assms(1) e] by (simp add: unseal_def size_defs)
qed

section \<open>The call sequences refine the abstract cipher\<close>

lemma EncryptCtx_some:
  assumes ok: "openssl_ok H" and e: "gcm_encrypt H key iv src = Some (ct, tag)"
    and small: "length src < 2 ^ 31" and room: "48 + length src \<le> length dst"
  shows "EncryptCtx H src dst iv key h =
           Inr (48 + length src, take 32 dst @ ct @ tag @ drop (48 + length src) dst, key_free h)"
proof -
  have i: "to_int32 (int (length src)) = int (length src)"
    using small by (intro to_int32_id) auto
  obtain c0 c1 c2 c3 c4 c5 where
    c: "ssl_CTX_new H = Some c0" "ssl_EncryptInit_cipher H c0 = Some c1"
      "ssl_set_ivlen H c1 IV_SIZE = Some c2" "ssl_EncryptInit_key H c2 key iv = Some c3"
      "ssl_EncryptUpdate H c3 src (int (length src)) = Some (c4, ct)"
      "ssl_EncryptFinal H c4 = Some (c5, [])" "tag = ssl_get_tag H c5 TAG_SIZE"
    using e openssl_okD(4) [OF ok]
    by (fastforce simp: gcm_encrypt_def bind_eq_Some_conv split: prod.splits)
  note sz = gcm_encrypt_sizes [OF ok e, unfolded TAG_SIZE_def]
  show ?thesis
    using c i sz room
    by (simp add: EncryptCtx_def Let_def ctx_key_free_comm size_defs buf_write_ok add.commute)
qed

lemma EncryptCtx_none:
  assumes ok: "openssl_ok H" and e: "gcm_encrypt H key iv src = None"
    and small: "length src < 2 ^ 31" and room: "32 + length src \<le> length dst"
  shows "\<exists>d. EncryptCtx H src dst iv key h = Inr (0, d, key_free h)"
proof -
  have i: "to_int32 (int (length src)) = int (length src)"
    using small by (intro to_int32_id) auto
  show ?thesis
    using e i room openssl_okD(2) [OF ok, of _ src "int (length src)"]
    by (fastforce simp: EncryptCtx_def gcm_encrypt_def Let_def ctx_key_free_comm size_defs buf_write_ok
        split: option.splits prod.splits)
qed

lemma EncryptCtx_overflow:
  assumes ok: "openssl_ok H" and e: "gcm_encrypt H key iv src = Some (ct, tag)"
    and small: "length src < 2 ^ 31" and room: "32 + length src \<le> length dst"
    and over: "length dst < 48 + length src"
  shows "EncryptCtx H src dst iv key h = Inl BufferOverflow"
proof -
  have i: "to_int32 (int (length src)) = int (length src)"
    using small by (intro to_int32_id) auto
  obtain c0 c1 c2 c3 c4 c5 where
    c: "ssl_CTX_new H = Some c0" "ssl_EncryptInit_cipher H c0 = Some c1"
      "ssl_set_ivlen H c1 IV_SIZE = Some c2" "ssl_EncryptInit_key H c2 key iv = Some c3"
      "ssl_EncryptUpdate H c3 src (int (length src)) = Some (c4, ct)"
      "ssl_EncryptFinal H c4 = Some (c5, [])" "tag = ssl_get_tag H c5 TAG_SIZE"
    using e openssl_okD(4) [OF ok]
    by (fastforce simp: gcm_encrypt_def bind_eq_Some_conv split: prod.splits)
  note sz = gcm_encrypt_sizes [OF ok e, unfolded TAG_SIZE_def]
  show ?thesis
    using c i sz room over
    by (simp add: EncryptCtx_def Let_def ctx_key_free_comm size_defs buf_write_ok buf_write_overflow)
qed

lemma EncryptAES_eq:
  assumes ok: "openssl_ok H"
    and r: "ssl_RAND_bytes H (rand_calls h) IV_SIZE = Some iv"
      "ssl_RAND_bytes H (Suc (rand_calls h)) SALT_SIZE = Some salt"
    and room: "length src + 32 \<le> length dst"
  shows "EncryptAES H (Some src) dst pwd h =
           (case derive_key H (c_str pwd) salt of
              None \<Rightarrow> Inr (0, iv @ salt @ drop 32 dst, rand_tick (rand_tick h))
            | Some key \<Rightarrow>
                EncryptCtx H src (iv @ salt @ drop 32 dst) iv key (key_alloc (rand_tick (rand_tick h))))"
proof -
  have "length iv = 16" "length salt = 16"
    using openssl_okD(1) [OF ok r(1)] openssl_okD(1) [OF ok r(2)] by (simp_all add: size_defs)
  then show ?thesis
    using r room
    by (simp add: EncryptAES_def GenerateKey_eq size_defs buf_write_ok rand_tick_def Let_def
        split: option.split)
qed

lemma EncryptAES_small:
  "length dst < length src + 32 \<Longrightarrow> EncryptAES H (Some src) dst pwd h = Inr (0, dst, h)"
  by (simp add: EncryptAES_def size_defs)

lemma seal_Some:
  "derive_key H pwd salt = Some key \<Longrightarrow> gcm_encrypt H key iv pt = Some (ct, tag) \<Longrightarrow>
   seal H pwd iv salt pt = Some (iv @ salt @ ct @ tag)"
  by (simp add: seal_def)

lemma EncryptAES_cases:
  assumes ok: "openssl_ok H" and room: "length src + 48 \<le> length dst" and small: "length src < 2 ^ 31"
  obtains (failed) d h' where "EncryptAES H (Some src) dst pwd h = Inr (0, d, h')"
  | (sealed) iv salt pkt where "length iv = 16" "length salt = 16"
      "seal H (c_str pwd) iv salt src = Some pkt" "length pkt = length src + 48"
      "EncryptAES H (Some src) dst pwd h =
         Inr (length pkt, pkt @ drop (length pkt) dst, rand_tick (rand_tick h))"
proof (cases "ssl_RAND_bytes H (rand_calls h) IV_SIZE")
  case None
  then show thesis using room by (intro failed) (simp add: EncryptAES_def size_defs)
next
  case (Some iv)
  note r1 = Some
  have iv: "length iv = 16" using openssl_okD(1) [OF ok r1] by (simp add: size_defs)
  show thesis
  proof (cases "ssl_RAND_bytes H (Suc (rand_calls h)) SALT_SIZE")
    case None
    then show thesis using room r1 iv
      by (intro failed) (simp add: EncryptAES_def size_defs Let_def rand_tick_def buf_write_ok)
  next
    case (Some salt)
    note r2 = Some
    have salt: "length salt = 16" using openssl_okD(1) [OF ok r2] by (simp add: size_defs)
    note eq = EncryptAES_eq [OF ok r1 r2, of src dst pwd]
    show thesis
    proof (cases "derive_key H (c_str pwd) salt")
      case None
      then show thesis using eq room by (intro failed) simp
    next
      case (Some key)
      note k = Some
      show thesis
      proof (cases "gcm_encrypt H key iv src")
        case None
        have "32 + length src \<le> length (iv @ salt @ drop 32 dst)" using room iv salt by simp
        from EncryptCtx_none [OF ok None small this] obtain d where
          "EncryptCtx H src (iv @ salt @ drop 32 dst) iv key (key_alloc (rand_tick (rand_tick h)))
             = Inr (0, d, key_free (key_alloc (rand_tick (rand_tick h))))"
          by blast
        then show thesis using eq k room by (intro failed) simp
      next
        case (Some p)
        obtain ct tag where e: "gcm_encrypt H key iv src = Some (ct, tag)" using Some by (cases p) auto
        note sz = gcm_encrypt_sizes [OF ok e, unfolded TAG_SIZE_def]
        have room': "48 + length src \<le> length (iv @ salt @ drop 32 dst)" using room iv salt by simp
        have "EncryptAES H (Some src) dst pwd h =
                Inr (length src + 48, (iv @ salt @ ct @ tag) @ drop (length src + 48) dst,
                     rand_tick (rand_tick h))"
          using eq k room iv salt EncryptCtx_some [OF ok e small room']
          by (simp add: add.commute)
        then show thesis
          using iv salt sz seal_Some [OF k e]
          by (intro sealed [of iv salt "iv @ salt @ ct @ tag"]) (simp_all add: add.commute)
      qed
    qed
  qed
qed

text \<open>The decryption context with key and vector set, before any data is fed.\<close>

definition dec_ctx :: "'x host \<Rightarrow> bytes \<Rightarrow> bytes \<Rightarrow> 'x option" where
  "dec_ctx H key iv =
     Option.bind (ssl_CTX_new H) (\<lambda>c0.
     Option.bind (ssl_DecryptInit_cipher H c0) (\<lambda>c1.
     Option.bind (ssl_set_ivlen H c1 IV_SIZE) (\<lambda>c2.
     ssl_DecryptInit_key H c2 key iv)))"

lemma gcm_decrypt_ctx:
  "gcm_decrypt H key iv ct tag =
     Option.bind (dec_ctx H key iv) (\<lambda>c3.
     Option.bind (ssl_DecryptUpdate H c3 ct (int (length ct))) (\<lambda>(c4, out).
     Option.bind (ssl_set_tag H c4 tag) (\<lambda>c5.
     Option.bind (ssl_DecryptFinal H c5) (\<lambda>(c6, fin). Some (out @ fin)))))"
  by (simp add: gcm_decrypt_def dec_ctx_def)

lemma DecryptCtx_None: "dec_ctx H key iv = None \<Longrightarrow> DecryptCtx H src dst iv key h = Inr (0, dst, key_free h)"
  by (auto simp: DecryptCtx_def dec_ctx_def Let_def ctx_key_free_comm bind_eq_None_conv split: option.split)

lemma DecryptCtx_Some:
  assumes "dec_ctx H key iv = Some c3"
  shows "DecryptCtx H src dst iv key h =
     (case ssl_DecryptUpdate H c3 (take (nat (decrypt_len (length src))) (drop 32 src)) (decrypt_len (length src)) of
        None \<Rightarrow> Inr (0, dst, key_free h)
      | Some (c4, out) \<Rightarrow>
          bind_err (buf_write dst 0 out) (\<lambda>dst.
          case ssl_set_tag H c4 (drop (length src - 16) src) of
            None \<Rightarrow> Inr (0, dst, key_free h)
          | Some c5 \<Rightarrow>
          case ssl_DecryptFinal H c5 of
            None \<Rightarrow> Inr (0, dst, key_free h)
          | Some (_, fin) \<Rightarrow> bind_err (buf_write dst (length out) fin) (\<lambda>dst. Inr (length out, dst, key_free h))))"
  using assms
  by (auto simp: DecryptCtx_def dec_ctx_def Let_def ctx_key_free_comm bind_eq_Some_conv size_defs
      cong: option.case_cong)

lemma DecryptCtx_eq:
  assumes ok: "openssl_ok H" and len: "48 \<le> length src" "length src < 2 ^ 31"
    and room: "length src - 32 \<le> length dst"
  shows "\<exists>n d. DecryptCtx H src dst iv key h = Inr (n, d, key_free h) \<and> length d = length dst \<and>
           (case gcm_decrypt H key iv (take (length src - 48) (drop 32 src)) (drop (length src - 16) src) of
              None \<Rightarrow> n = 0
            | Some pt \<Rightarrow> n = length pt \<and> n = length src - 48 \<and> take n d = pt)"
proof (cases "dec_ctx H key iv")
  case None
  then show ?thesis by (simp add: gcm_decrypt_ctx DecryptCtx_None)
next
  case (Some c3)
  define ct where "ct = take (length src - 48) (drop 32 src)"
  have i: "decrypt_len (length src) = int (length src - 48)"
    using len by (simp add: decrypt_len_def to_int32_id size_defs of_nat_diff)
  have ct: "length ct = length src - 48" using len by (simp add: ct_def)
  have out: "\<And>c' out. ssl_DecryptUpdate H c3 ct (int (length src - 48)) = Some (c', out) \<Longrightarrow>
               length out = length src - 48"
    unfolding ct [symmetric] by (erule openssl_okD(3) [OF ok]) simp
  note eqs = gcm_decrypt_ctx DecryptCtx_Some [OF Some] ct_def [symmetric] Some i ct nat_int
  show ?thesis
  proof (cases "ssl_DecryptUpdate H c3 ct (int (length src - 48))")
    case None
    then show ?thesis by (simp add: eqs)
  next
    case (Some p)
    then obtain c4 o4 where u: "ssl_DecryptUpdate H c3 ct (int (length src - 48)) = Some (c4, o4)"
      by (cases p) auto
    define dst1 where "dst1 = o4 @ drop (length src - 48) dst"
    have w: "buf_write dst 0 o4 = Inr dst1" "length dst1 = length dst" "take (length o4) dst1 = o4"
      using room out [OF u] by (simp_all add: buf_write_ok dst1_def)
    have w2: "buf_write dst1 (length o4) [] = Inr dst1"
      using room out [OF u] w(2) by (simp add: buf_write_ok)
    show ?thesis
    proof (cases "ssl_set_tag H c4 (drop (length src - 16) src)")
      case None
      then show ?thesis using u w by (simp add: eqs)
    next
      case (Some c5)
      note t = Some
      show ?thesis
      proof (cases "ssl_DecryptFinal H c5")
        case None
        then show ?thesis using u w t by (simp add: eqs)
      next
        case (Some q)
        then obtain c6 fin where f: "ssl_DecryptFinal H c5 = Some (c6, fin)"
          by (cases q) auto
        moreover have "fin = []" by (rule openssl_okD(5) [OF ok f])
        ultimately show ?thesis using u w w2 t out [OF u] by (simp add: eqs)
      qed
    qed
  qed
qed

lemma DecryptAES_eq:
  assumes ok: "openssl_ok H" and len: "48 \<le> length src" "length src < 2 ^ 31"
    and room: "length src - 32 \<le> length dst"
  shows "\<exists>n d. DecryptAES H (Some src) dst pwd h = Inr (n, d, h) \<and> length d = length dst \<and>
           (case unseal H (c_str pwd) src of
              None \<Rightarrow> n = 0
            | Some pt \<Rightarrow> n = length pt \<and> n = length src - 48 \<and> take n d = pt)"
proof (cases "derive_key H (c_str pwd) (take SALT_SIZE (drop IV_SIZE src))")
  case None
  then show ?thesis
    using len room by (simp add: DecryptAES_def unseal_def GenerateKey_eq size_defs Let_def)
next
  case (Some key)
  then show ?thesis
    using len room DecryptCtx_eq [where key = key and iv = "take IV_SIZE src" and h = "key_alloc h", OF ok len room]
    
    by (simp add: DecryptAES_def unseal_def GenerateKey_eq size_defs Let_def)
qed

text \<open>Packets that the length check of \<^verbatim>\<open>DecryptAES\<close> refuses.\<close>

lemma DecryptAES_refused:
  "length src < 32 \<or> length dst + 32 < length src \<Longrightarrow> DecryptAES H (Some src) dst pwd h = Inr (0, dst, h)"
  by (auto simp: DecryptAES_def size_defs)

section \<open>Packets\<close>

lemma packet_plain: "length (be_bytes 8 (unat t) @ data) = length data + 8"
  by simp

lemma EncryptAESPacket_OK:
  assumes ok: "openssl_ok H" and len: "length data \<le> 968"
    and r: "EncryptAESPacket H t data pwd h = Inr (OK, n, out, h')"
  obtains iv salt pkt where "length iv = 16" "length salt = 16" "n = length data + 56" "out = Some pkt"
    "seal H (c_str pwd) iv salt (be_bytes 8 (unat t) @ data) = Some pkt" "length pkt = length data + 56"
proof -
  define src where "src = be_bytes 8 (unat t) @ data"
  have src: "length src = length data + 8" by (simp add: src_def)
  have sz: "length src + 48 \<le> length (replicate 1024 (0 :: byte))" "length src < 2 ^ 31"
    using len src by simp_all
  from ok sz show thesis
  proof (cases rule: EncryptAES_cases [where h = "buf_alloc h" and pwd = pwd, consumes 3, case_names failed sealed])
    case (failed d h'')
    then have False
      using r by (simp add: EncryptAESPacket_def Let_def ReverseBytes_store src_def split: if_splits)
    then show thesis ..
  next
    case (sealed iv salt pkt)
    then have "n = length pkt" "out = Some pkt"
      using r src by (auto simp: EncryptAESPacket_def Let_def ReverseBytes_store src_def [symmetric] split: if_splits)
    then show thesis using that sealed src by (simp add: src_def)
  qed
qed

lemma EncryptAESPacket_succeeds:
  assumes ok: "openssl_ok H" and len: "length data \<le> 968"
    and r: "ssl_RAND_bytes H (rand_calls h) IV_SIZE = Some iv"
      "ssl_RAND_bytes H (Suc (rand_calls h)) SALT_SIZE = Some salt"
    and s: "seal H (c_str pwd) iv salt (be_bytes 8 (unat t) @ data) = Some pkt"
    and m: "malloc_ok H (length data + 8)" "malloc_ok H (length data + 56)"
  shows "EncryptAESPacket H t data pwd h =
           Inr (OK, length data + 56, Some pkt, buf_alloc (rand_tick (rand_tick h)))"
proof -
  define src where "src = be_bytes 8 (unat t) @ data"
  have src: "length src = length data + 8" by (simp add: src_def)
  have iv: "length iv = 16" "length salt = 16"
    using openssl_okD(1) [OF ok r(1)] openssl_okD(1) [OF ok r(2)] by (simp_all add: size_defs)
  obtain key ct tag where k: "derive_key H (c_str pwd) salt = Some key"
    and e: "gcm_encrypt H key iv src = Some (ct, tag)" and pkt: "pkt = iv @ salt @ ct @ tag"
    using s by (auto simp: seal_def bind_eq_Some_conv src_def)
  note sz = gcm_encrypt_sizes [OF ok e, unfolded TAG_SIZE_def]
  have rc: "rand_calls (buf_alloc h) = rand_calls h" by (simp add: heap_defs)
  have "EncryptAES H (Some src) (replicate 1024 0) pwd (buf_alloc h) =
          Inr (length data + 56, pkt @ replicate (1024 - (length data + 56)) 0,
               rand_tick (rand_tick (buf_alloc h)))"
    using EncryptAES_eq [OF ok r [folded rc], of src "replicate 1024 0" pwd] len src iv k pkt sz
      EncryptCtx_some [OF ok e, of "iv @ salt @ replicate 992 0"]
    by (simp add: rc)
  moreover have "length pkt = length data + 56" using pkt iv sz src by simp
  ultimately show ?thesis
    using m by (simp add: EncryptAESPacket_def ReverseBytes_store src_def heap_defs)
qed

text \<open>The time stamp of a decrypted packet, and the window it must lie in.\<close>

definition stamp :: "bytes \<Rightarrow> 64 word" where
  "stamp pt = word_of_nat (be_nat (take 8 pt))"

definition fresh :: "platform \<Rightarrow> 64 word \<Rightarrow> 64 word \<Rightarrow> bool" where
  "fresh p now ts \<longleftrightarrow> - PACKET_TIMEOUT p \<le> sint (now - ts) \<and> sint (now - ts) \<le> PACKET_TIMEOUT p"

definition receive_spec ::
  "'x host \<Rightarrow> 64 word \<Rightarrow> bytes \<Rightarrow> string \<Rightarrow> PacketCryptResult \<times> bytes option" where
  "receive_spec H now pkt pwd =
     (if 1056 < length pkt then (OTHER_ERROR, None)
      else case unseal H pwd pkt of
        None \<Rightarrow> (OTHER_ERROR, None)
      | Some pt \<Rightarrow>
          if length pt \<le> 8 then (OTHER_ERROR, None)
          else if \<not> fresh (build H) now (stamp pt) then (INVALID_TIMESTAMP, None)
          else if \<not> malloc_ok H (length pt - 8) then (OTHER_ERROR, None)
          else (OK, Some (drop 8 pt)))"

lemma DecryptAESPacket_eq:
  assumes ok: "openssl_ok H" and len: "48 \<le> length pkt" "length pkt < 2 ^ 31"
  shows "\<exists>n. DecryptAESPacket H now (Some pkt) pwd h =
           Inr (fst (receive_spec H now pkt (c_str pwd)), n, snd (receive_spec H now pkt (c_str pwd)),
                if fst (receive_spec H now pkt (c_str pwd)) = OK then buf_alloc h else h)"
proof (cases "1056 < length pkt")
  case True
  then show ?thesis
    by (simp add: DecryptAESPacket_def receive_spec_def DecryptAES_refused)
next
  case False
  then have room: "length pkt - 32 \<le> length (replicate 1024 (0 :: byte))" by simp
  obtain n d where nd: "DecryptAES H (Some pkt) (replicate 1024 0) pwd h = Inr (n, d, h)"
    and d: "length d = 1024"
    and u: "case unseal H (c_str pwd) pkt of None \<Rightarrow> n = 0
            | Some pt \<Rightarrow> n = length pt \<and> n = length pkt - 48 \<and> take n d = pt"
    using DecryptAES_eq [OF ok len room, of pwd h] by auto
  show ?thesis
  proof (cases "unseal H (c_str pwd) pkt")
    case None
    then show ?thesis using nd u False by (simp add: DecryptAESPacket_def receive_spec_def)
  next
    case (Some pt)
    note u [unfolded Some option.case]
    then have n: "n = length pt" "take n d = pt" by blast+
    show ?thesis
    proof (cases "n \<le> 8")
      case True
      then show ?thesis using nd n Some False by (simp add: DecryptAESPacket_def receive_spec_def)
    next
      case big: False
      have "take 8 d = take 8 pt" "take (n - 8) (drop 8 d) = drop 8 pt"
        using n(2) [symmetric] big by (simp_all add: drop_take min_def)
      moreover have "length (take 8 d) = 8" using d by simp
      ultimately show ?thesis
        using nd n Some False big
        by (auto simp: DecryptAESPacket_def receive_spec_def load_ReverseBytes stamp_def fresh_def Let_def)
    qed
  qed
qed

lemma openssl_ok_any_host [simp]: "openssl_ok (H\<lparr>byte_order := e, build := p\<rparr>) = openssl_ok H"
  by (simp add: openssl_ok_def gcm_encrypt_def gcm_decrypt_def)

section \<open>A concrete host\<close>

text \<open>
  A host that satisfies \<open>openssl_ok\<close>, to evaluate the properties on: the cipher adds 1 to
  every byte and the tag repeats the sum of key and cipher text. It stands for no real
  library; it shows that the hypotheses can hold together.
\<close>

type_synonym demo_ctx = "bytes \<times> bytes \<times> bytes"

definition demo_host :: "demo_ctx host" where
  "demo_host =
     \<lparr>byte_order = LittleEndian, build = Linux, malloc_ok = (\<lambda>_. True),
      ssl_RAND_bytes = (\<lambda>i n. Some (replicate n (word_of_nat i))),
      ssl_PBKDF2 = (\<lambda>pwd salt it n. Some (take n (pwd @ salt @ replicate n 0))),
      ssl_CTX_new = Some ([], [], []),
      ssl_EncryptInit_cipher = Some, ssl_DecryptInit_cipher = Some,
      ssl_set_ivlen = (\<lambda>c n. Some c),
      ssl_EncryptInit_key = (\<lambda>(k, t, d) key iv. Some (key, t, d)),
      ssl_DecryptInit_key = (\<lambda>(k, t, d) key iv. Some (key, t, d)),
      ssl_EncryptUpdate = (\<lambda>(k, t, d) x n. let out = map (\<lambda>b. b + 1) x in Some ((k, t, d @ out), out)),
      ssl_DecryptUpdate = (\<lambda>(k, t, d) x n. Some ((k, t, d @ x), map (\<lambda>b. b - 1) x)),
      ssl_EncryptFinal = (\<lambda>c. Some (c, [])),
      ssl_DecryptFinal = (\<lambda>(k, t, d). if t = replicate 16 (sum_list (k @ d)) then Some ((k, t, d), []) else None),
      ssl_get_tag = (\<lambda>(k, t, d) n. replicate n (sum_list (k @ d))),
      ssl_set_tag = (\<lambda>(k, t, d) tag. Some (k, tag, d))\<rparr>"

definition empty_heap :: crypt_heap where
  "empty_heap = \<lparr>rand_calls = 0, keys_live = 0, ctxs_live = 0, bufs_live = 0\<rparr>"

lemma demo_encrypt:
  "gcm_encrypt demo_host key iv pt =
     (let ct = map (\<lambda>b. b + 1) pt in Some (ct, replicate 16 (sum_list (key @ ct))))"
  by (simp add: gcm_encrypt_def demo_host_def Let_def TAG_SIZE_def)

lemma demo_decrypt:
  "gcm_decrypt demo_host key iv ct tag =
     (if tag = replicate 16 (sum_list (key @ ct)) then Some (map (\<lambda>b. b - 1) ct) else None)"
  by (simp add: gcm_decrypt_def demo_host_def Let_def)

lemma demo_ok: "openssl_ok demo_host"
proof -
  have "gcm_encrypt demo_host key iv pt = Some (ct, tag) \<Longrightarrow>
        gcm_decrypt demo_host key iv ct tag = Some pt" for key iv pt ct tag
    by (auto simp: demo_encrypt demo_decrypt Let_def comp_def)
  then show ?thesis
    unfolding openssl_ok_def
    by (auto simp: demo_host_def TAG_SIZE_def Let_def split: if_splits)
qed

lemma demo_malloc [simp]: "malloc_ok demo_host n"
  by (simp add: demo_host_def)

lemma demo_derive: "derive_key demo_host pwd salt = Some (take 32 (bytes_of pwd @ salt @ replicate 32 0))"
  by (simp add: derive_key_def demo_host_def AES_KEY_SIZE_def)

lemma demo_seal: "\<exists>pkt. seal demo_host pwd iv salt pt = Some pkt"
  by (simp add: seal_def demo_derive demo_encrypt Let_def)

lemma demo_sends:
  "length data \<le> 968 \<Longrightarrow>
   \<exists>pkt. EncryptAESPacket demo_host t data pwd h =
           Inr (OK, length data + 56, Some pkt, buf_alloc (rand_tick (rand_tick h)))"
  using EncryptAESPacket_succeeds [OF demo_ok, of data h _ _ pwd t] demo_seal
  by (fastforce simp: demo_host_def)

text \<open>The same host on another machine: the phone of the examples.\<close>

lemma seal_any_host: "seal (H\<lparr>byte_order := e, build := p\<rparr>) = seal H"
  by (simp add: seal_def derive_key_def gcm_encrypt_def fun_eq_iff)

lemma phone_sends:
  assumes "length data \<le> 968"
  shows "\<exists>pkt. EncryptAESPacket (demo_host\<lparr>byte_order := e, build := p\<rparr>) t data pwd h =
           Inr (OK, length data + 56, Some pkt, buf_alloc (rand_tick (rand_tick h)))"
proof -
  let ?H = "demo_host\<lparr>byte_order := e, build := p\<rparr>"
  have ok: "openssl_ok ?H" by (simp add: demo_ok)
  have r: "ssl_RAND_bytes ?H i n = Some (replicate n (word_of_nat i))" for i n by (simp add: demo_host_def)
  obtain pkt where "seal ?H (c_str pwd) (replicate IV_SIZE (word_of_nat (rand_calls h)))
      (replicate SALT_SIZE (word_of_nat (Suc (rand_calls h)))) (be_bytes 8 (unat t) @ data) = Some pkt"
    unfolding seal_any_host using demo_seal by blast
  from EncryptAESPacket_succeeds [OF ok assms r r this] show ?thesis by simp
qed

section \<open>The guarantees of the packet format\<close>

lemma packet_reopens:
  assumes ok: "openssl_ok H" and data: "data \<noteq> []" "length data \<le> 968"
    and enc: "EncryptAESPacket H t0 data pwd h = Inr (OK, n, Some pkt, h')"
    and t: "fresh p t1 t0" and m: "malloc_ok H (length data)"
  shows "\<exists>k. DecryptAESPacket (H\<lparr>byte_order := e, build := p\<rparr>) t1 (Some pkt) pwd h1
              = Inr (OK, k, Some data, buf_alloc h1)"
proof -
  define H' where "H' = H\<lparr>byte_order := e, build := p\<rparr>"
  have ok': "openssl_ok H'"
    using ok by (simp add: H'_def)
  have un: "unseal H' = unseal H"
    by (simp add: H'_def unseal_def derive_key_def gcm_decrypt_def fun_eq_iff)
  obtain iv salt where "length iv = 16" "length salt = 16"
    and s: "seal H (c_str pwd) iv salt (be_bytes 8 (unat t0) @ data) = Some pkt"
    and len: "length pkt = length data + 56"
    using EncryptAESPacket_OK [OF ok data(2) enc] by (metis option.inject)
  then have u: "unseal H' (c_str pwd) pkt = Some (be_bytes 8 (unat t0) @ data)"
    using unseal_seal(1) [OF ok s] by (simp add: un)
  have "unat t0 < 256 ^ 8" using unsigned_less [of t0] by simp
  then have st: "stamp (be_bytes 8 (unat t0) @ data) = t0"
    by (simp add: stamp_def be_nat_be_bytes)
  have "receive_spec H' t1 pkt (c_str pwd) = (OK, Some data)"
    using u st len data t m by (simp add: receive_spec_def H'_def)
  then show ?thesis
    using DecryptAESPacket_eq [OF ok', of pkt t1 pwd h1] len data
    by (simp add: H'_def)
qed

text \<open>
  C6: a packet survives the way to the peer: what \<^verbatim>\<open>EncryptAESPacket\<close> sealed under a
  password at time \<open>t0\<close>, \<^verbatim>\<open>DecryptAESPacket\<close> opens at time \<open>t1\<close> under the same password
  with the identical payload, if the clocks differ by at most the time-out, and it does so
  on a machine of either byte order and on every platform.
\<close>

theorem packet_roundtrip:
  assumes ok: "openssl_ok H" and data: "data \<noteq> []" "length data \<le> 968"
    and enc: "EncryptAESPacket H t0 data pwd h = Inr (OK, n, Some pkt, h')"
    and t: "fresh p t1 t0" and m: "malloc_ok H (length data)"
  shows "\<exists>k. DecryptAESPacket (H\<lparr>byte_order := e, build := p\<rparr>) t1 (Some pkt) pwd h1
              = Inr (OK, k, Some data, buf_alloc h1)"
  by (rule packet_reopens [OF assms])

theorem packet_roundtrip_witness:
  "\<exists>pkt k. EncryptAESPacket demo_host 1000 [1, 2, 3] ''key'' empty_heap
              = Inr (OK, 59, Some pkt, buf_alloc (rand_tick (rand_tick empty_heap)))
       \<and> DecryptAESPacket (demo_host\<lparr>byte_order := BigEndian, build := Windows\<rparr>) 91000 (Some pkt) ''key'' empty_heap
              = Inr (OK, k, Some [1, 2, 3], buf_alloc empty_heap)"
proof -
  obtain pkt where e: "EncryptAESPacket demo_host 1000 [1, 2, 3] ''key'' empty_heap
      = Inr (OK, length [1, 2, 3 :: byte] + 56, Some pkt, buf_alloc (rand_tick (rand_tick empty_heap)))"
    using demo_sends [of "[1, 2, 3]" 1000 "''key''" empty_heap] by auto
  have "fresh Windows 91000 1000" by (simp add: fresh_def PACKET_TIMEOUT_def)
  then show ?thesis
    using e packet_roundtrip [OF demo_ok _ _ e, of Windows 91000 BigEndian empty_heap]
    by (auto simp: demo_host_def)
qed

text \<open>
  C4: on a packet long enough to hold vector, salt and tag, \<^verbatim>\<open>DecryptAESPacket\<close> implements
  its contract exactly: it never touches memory out of bounds, it accepts a packet only if
  the packet authenticates under the password, carries a payload, and its time stamp lies
  within the time-out of the clock, it then returns the payload, and it tells a stale
  packet from an unreadable one.
\<close>

theorem DecryptAESPacket_refines:
  assumes "openssl_ok H" and "48 \<le> length pkt" "length pkt < 2 ^ 31"
  shows "\<exists>r n out h'. DecryptAESPacket H now (Some pkt) pwd h = Inr (r, n, out, h')
           \<and> (r, out) = receive_spec H now pkt (c_str pwd)"
  using DecryptAESPacket_eq [OF assms, of now pwd h] by force

theorem DecryptAESPacket_refines_witness:
  "\<exists>r n out h'. DecryptAESPacket demo_host 5 (Some (replicate 60 0)) ''key'' empty_heap = Inr (r, n, out, h')
     \<and> (r, out) = receive_spec demo_host 5 (replicate 60 0) ''key''"
  using DecryptAESPacket_refines [OF demo_ok, of "replicate 60 0" 5 "''key''" empty_heap]
  by (simp add: c_str_def)

text \<open>
  The packet code stays inside its 1024-byte buffer for every payload of at most 968
  bytes, and refuses every payload above 984 bytes before it writes anything.
\<close>

theorem EncryptAESPacket_in_bounds:
  assumes ok: "openssl_ok H" and len: "length data \<le> 968 \<or> 984 < length data"
  shows "\<exists>r n out h'. EncryptAESPacket H t data pwd h = Inr (r, n, out, h')
           \<and> (984 < length data \<longrightarrow> r = OTHER_ERROR)"
proof (cases "984 < length data")
  case True
  then show ?thesis
    using EncryptAES_small [of "replicate 1024 (0 :: byte)" "be_bytes 8 (unat t) @ data" H pwd "buf_alloc h"]
    by (simp add: EncryptAESPacket_def ReverseBytes_store Let_def)
next
  case False
  then have sz: "length (be_bytes 8 (unat t) @ data) + 48 \<le> length (replicate 1024 (0 :: byte))"
      "length (be_bytes 8 (unat t) @ data) < 2 ^ 31"
    using len by simp_all
  have "\<exists>x. EncryptAES H (Some (be_bytes 8 (unat t) @ data)) (replicate 1024 0) pwd (buf_alloc h) = Inr x"
    by (rule EncryptAES_cases [OF ok sz, of pwd "buf_alloc h"]) blast+
  then show ?thesis
    using False by (auto simp: EncryptAESPacket_def ReverseBytes_store Let_def)
qed

theorem EncryptAESPacket_in_bounds_witness:
  "\<exists>r n out h'. EncryptAESPacket demo_host 7 (replicate 1000 0) ''key'' empty_heap = Inr (r, n, out, h')
     \<and> r = OTHER_ERROR"
  using EncryptAESPacket_in_bounds [OF demo_ok, of "replicate 1000 0" 7 "''key''" empty_heap] by auto

text \<open>
  C27: between the two bounds it does not: the length check of \<^verbatim>\<open>EncryptAES\<close> reserves room
  for vector, salt and cipher text but not for the 16-byte tag, so a payload of 969 to 984
  bytes that encrypts at all writes the tag past the end of \<^verbatim>\<open>encBuffer\<close>.
\<close>

theorem EncryptAESPacket_overflows:
  assumes ok: "openssl_ok H" and len: "968 < length data" "length data \<le> 984"
    and r: "ssl_RAND_bytes H (rand_calls h) IV_SIZE = Some iv"
      "ssl_RAND_bytes H (Suc (rand_calls h)) SALT_SIZE = Some salt"
    and s: "seal H (c_str pwd) iv salt (be_bytes 8 (unat t) @ data) \<noteq> None"
    and m: "malloc_ok H (length data + 8)"
  shows "EncryptAESPacket H t data pwd h = Inl BufferOverflow"
proof -
  define src where "src = be_bytes 8 (unat t) @ data"
  have src: "length src = length data + 8" by (simp add: src_def)
  have iv: "length iv = 16" "length salt = 16"
    using openssl_okD(1) [OF ok r(1)] openssl_okD(1) [OF ok r(2)] by (simp_all add: size_defs)
  obtain key ct tag where k: "derive_key H (c_str pwd) salt = Some key"
    and e: "gcm_encrypt H key iv src = Some (ct, tag)"
    using s by (auto simp: seal_def bind_eq_Some_conv src_def)
  have rc: "rand_calls (buf_alloc h) = rand_calls h" by (simp add: heap_defs)
  have "EncryptAES H (Some src) (replicate 1024 0) pwd (buf_alloc h) = Inl BufferOverflow"
    using EncryptAES_eq [OF ok r [folded rc], of src "replicate 1024 0" pwd] len src iv k
      EncryptCtx_overflow [OF ok e, of "iv @ salt @ replicate 992 0"]
    by (simp add: rc)
  then show ?thesis
    using m by (simp add: EncryptAESPacket_def ReverseBytes_store src_def)
qed

theorem EncryptAESPacket_overflows_witness:
  "EncryptAESPacket demo_host 7 (replicate 975 0) ''key'' empty_heap = Inl BufferOverflow"
proof -
  have r: "ssl_RAND_bytes demo_host (rand_calls empty_heap) IV_SIZE = Some (replicate IV_SIZE 0)"
    "ssl_RAND_bytes demo_host (Suc (rand_calls empty_heap)) SALT_SIZE = Some (replicate SALT_SIZE 1)"
    by (simp_all add: demo_host_def empty_heap_def)
  show ?thesis
    by (rule EncryptAESPacket_overflows [OF demo_ok _ _ r])
       (simp_all add: seal_def demo_derive demo_encrypt Let_def)
qed

text \<open>What a packet operation leaves allocated: its result, and nothing else.\<close>

definition balanced :: "crypt_heap \<Rightarrow> PacketCryptResult \<Rightarrow> bytes option \<Rightarrow> crypt_heap \<Rightarrow> bool" where
  "balanced h r out h' \<longleftrightarrow>
     keys_live h' = keys_live h \<and> ctxs_live h' = ctxs_live h
     \<and> bufs_live h' = bufs_live h + (if r = OK then 1 else 0) \<and> (r = OK \<longleftrightarrow> out \<noteq> None)"

lemma EncryptAESPacket_balanced:
  "EncryptAESPacket H t data pwd h = Inr (r, n, out, h') \<Longrightarrow> balanced h r out h'"
  by (auto simp: EncryptAESPacket_def balanced_def Let_def bind_err_Inr
        buf_alloc_def buf_free_def same_live_def
      split: if_splits dest!: EncryptAES_heap)

lemma DecryptAESPacket_balanced:
  "DecryptAESPacket H t srcp pwd h = Inr (r, n, out, h') \<Longrightarrow> balanced h r out h'"
  by (auto simp: DecryptAESPacket_def balanced_def Let_def bind_err_Inr
        buf_alloc_def buf_free_def
      split: if_splits dest!: DecryptAES_heap)

text \<open>
  Neither packet operation leaks: whatever call fails, every derived key and every
  cipher context is released again, and the only buffer still allocated afterwards is the
  result the caller receives together with \<^verbatim>\<open>OK\<close>.
\<close>

theorem packets_release_all:
  "(EncryptAESPacket H t data pwd h = Inr (r, n, out, h') \<longrightarrow>
      keys_live h' = keys_live h \<and> ctxs_live h' = ctxs_live h
      \<and> bufs_live h' = bufs_live h + (if r = OK then 1 else 0) \<and> (r = OK \<longleftrightarrow> out \<noteq> None))
   \<and> (DecryptAESPacket H t srcp pwd h = Inr (r, n, out, h') \<longrightarrow>
      keys_live h' = keys_live h \<and> ctxs_live h' = ctxs_live h
      \<and> bufs_live h' = bufs_live h + (if r = OK then 1 else 0) \<and> (r = OK \<longleftrightarrow> out \<noteq> None))"
  using EncryptAESPacket_balanced DecryptAESPacket_balanced unfolding balanced_def by blast

theorem packets_release_all_witness:
  "\<exists>pkt h'. EncryptAESPacket demo_host 7 [1] ''key'' empty_heap = Inr (OK, 57, Some pkt, h')
     \<and> keys_live h' = 0 \<and> ctxs_live h' = 0 \<and> bufs_live h' = 1"
proof -
  obtain pkt where e: "EncryptAESPacket demo_host 7 [1] ''key'' empty_heap
      = Inr (OK, length [1 :: byte] + 56, Some pkt, buf_alloc (rand_tick (rand_tick empty_heap)))"
    using demo_sends [of "[1]" 7 "''key''" empty_heap] by auto
  note packets_release_all [of demo_host 7 "[1]" "''key''" empty_heap OK "length [1 :: byte] + 56" "Some pkt"
      "buf_alloc (rand_tick (rand_tick empty_heap))" None]
  with e show ?thesis by (auto simp: empty_heap_def)
qed

end
