(* ===== verification/Storage.thy ===== *)
theory Storage
  imports JsonLib
begin

text \<open>
  \<^verbatim>\<open>common-cpp/src/storage\<close>: the application settings (\<^verbatim>\<open>AppStorage\<close>) and the paired
  devices (\<^verbatim>\<open>PairedDevice\<close>), both read from JSON files. A file is its content, \<open>None\<close> if it
  cannot be opened; reading a stream that never opened makes the parser throw.
\<close>

section \<open>Application settings\<close>

record PCBUAppSettings =
  language :: string
  serverIP :: string
  unlockServerPort :: int
  waitForKeyPress :: bool

definition json_from_file :: "json_lib \<Rightarrow> string option \<Rightarrow> json_error + json" where
  "json_from_file J inFile =
     (case inFile of None \<Rightarrow> Inl ParseError
      | Some txt \<Rightarrow> (case json_read J txt of None \<Rightarrow> Inl ParseError | Some j \<Rightarrow> Inr j))"

definition settings_of_json :: "json \<Rightarrow> json_error + PCBUAppSettings" where
  "settings_of_json j =
     bind_err (json_field_string j ''language'') (\<lambda>lang.
     bind_err (json_field_string j ''serverIP'') (\<lambda>ip.
     bind_err (bind_err (json_index j ''unlockServerPort'') json_int) (\<lambda>port.
     bind_err (bind_err (json_index j ''waitForKeyPress'') json_bool) (\<lambda>key.
     Inr \<lparr>language = lang, serverIP = ip, unlockServerPort = port, waitForKeyPress = key\<rparr>))))"

definition default_settings :: PCBUAppSettings where
  "default_settings =
     \<lparr>language = ''auto'', serverIP = ''auto'', unlockServerPort = 43296, waitForKeyPress = False\<rparr>"

definition AppStorage_Get :: "json_lib \<Rightarrow> string option \<Rightarrow> PCBUAppSettings" where
  "AppStorage_Get J inFile =
     (case bind_err (json_from_file J inFile) settings_of_json of
        Inr settings \<Rightarrow> settings
      | Inl _ \<Rightarrow> default_settings)"

section \<open>Paired devices\<close>

datatype PairingMethod = TCP | BLUETOOTH | CLOUD_TCP

record PairedDevice =
  pairingId :: string
  pairingMethod :: PairingMethod
  deviceName :: string
  userName :: string
  encryptionKey :: string
  ipAddress :: string
  bluetoothAddress :: string
  cloudToken :: string

definition pairing_method_of :: "string \<Rightarrow> json_error + PairingMethod" where
  "pairing_method_of methodStr =
     (if methodStr = ''TCP'' then Inr TCP
      else if methodStr = ''BLUETOOTH'' then Inr BLUETOOTH
      else if methodStr = ''CLOUD_TCP'' then Inr CLOUD_TCP
      else Inl RuntimeError)"

text \<open>The body of the loop of \<^verbatim>\<open>GetDevices\<close>, up to the \<^verbatim>\<open>emplace_back\<close>.\<close>

definition device_of_json :: "json \<Rightarrow> json_error + PairedDevice" where
  "device_of_json entry =
     bind_err (json_field_string entry ''pairingId'') (\<lambda>pid.
     bind_err (json_field_string entry ''deviceName'') (\<lambda>name.
     bind_err (json_field_string entry ''userName'') (\<lambda>user.
     bind_err (json_field_string entry ''encryptionKey'') (\<lambda>key.
     bind_err (json_field_string entry ''ipAddress'') (\<lambda>ip.
     bind_err (json_field_string entry ''bluetoothAddress'') (\<lambda>bt.
     bind_err (json_field_string entry ''cloudToken'') (\<lambda>tok.
     bind_err (json_field_string entry ''pairingMethod'') (\<lambda>methodStr.
     bind_err (pairing_method_of methodStr) (\<lambda>method.
     Inr \<lparr>pairingId = pid, pairingMethod = method, deviceName = name, userName = user,
          encryptionKey = key, ipAddress = ip, bluetoothAddress = bt, cloudToken = tok\<rparr>)))))))))"

text \<open>An exception leaves the loop; what was collected before it is returned.\<close>

fun devices_loop :: "PairedDevice list \<Rightarrow> json list \<Rightarrow> PairedDevice list" where
  "devices_loop result [] = result"
| "devices_loop result (entry # rest) =
     (case device_of_json entry of
        Inl _ \<Rightarrow> result
      | Inr device \<Rightarrow> devices_loop (result @ [device]) rest)"

definition GetDevices :: "json_lib \<Rightarrow> string option \<Rightarrow> PairedDevice list" where
  "GetDevices J inFile =
     (case json_from_file J inFile of Inl _ \<Rightarrow> [] | Inr json \<Rightarrow> devices_loop [] (json_elems json))"

fun user_devices_loop :: "string \<Rightarrow> PairedDevice list \<Rightarrow> PairedDevice list \<Rightarrow> PairedDevice list" where
  "user_devices_loop user result [] = result"
| "user_devices_loop user result (device # rest) =
     user_devices_loop user (if userName device = user then result @ [device] else result) rest"

definition GetDevicesForUser :: "json_lib \<Rightarrow> string option \<Rightarrow> string \<Rightarrow> PairedDevice list" where
  "GetDevicesForUser J inFile user = user_devices_loop user [] (GetDevices J inFile)"

section \<open>Lemmas\<close>

lemma user_devices_loop_filter:
  "user_devices_loop u acc ds = acc @ filter (\<lambda>d. userName d = u) ds"
  by (induction ds arbitrary: acc) auto

lemma GetDevicesForUser_filter:
  "GetDevicesForUser J f u = filter (\<lambda>d. userName d = u) (GetDevices J f)"
  by (simp add: GetDevicesForUser_def user_devices_loop_filter)

lemma GetDevicesForUser_user: "d \<in> set (GetDevicesForUser J f u) \<Longrightarrow> userName d = u"
  by (simp add: GetDevicesForUser_filter)

lemma devices_loop_takeWhile:
  "devices_loop acc js = acc @ map projr (takeWhile (\<lambda>r. \<not> isl r) (map device_of_json js))"
  by (induction js arbitrary: acc) (auto split: sum.split)

text \<open>The JSON text of a device, as the pairing application stores it.\<close>

definition method_name :: "PairingMethod \<Rightarrow> string" where
  "method_name m = (case m of TCP \<Rightarrow> ''TCP'' | BLUETOOTH \<Rightarrow> ''BLUETOOTH'' | CLOUD_TCP \<Rightarrow> ''CLOUD_TCP'')"

definition device_json :: "PairedDevice \<Rightarrow> json" where
  "device_json d = JObj
     [(''bluetoothAddress'', JStr (bluetoothAddress d)), (''cloudToken'', JStr (cloudToken d)),
      (''deviceName'', JStr (deviceName d)), (''encryptionKey'', JStr (encryptionKey d)),
      (''ipAddress'', JStr (ipAddress d)), (''pairingId'', JStr (pairingId d)),
      (''pairingMethod'', JStr (method_name (pairingMethod d))), (''userName'', JStr (userName d))]"

lemma pairing_method_of_name: "pairing_method_of (method_name m) = Inr m"
  by (cases m) (simp_all add: pairing_method_of_def method_name_def)

lemma device_of_json_device_json: "device_of_json (device_json d) = Inr d"
  by (simp add: device_of_json_def device_json_def pairing_method_of_name)

lemma devices_loop_device_json: "devices_loop acc (map device_json ds) = acc @ ds"
  by (induction ds arbitrary: acc) (auto simp: device_of_json_device_json)

section \<open>What the storage promises\<close>

text \<open>
  The settings are all or nothing: if every one of the four members is there with a
  convertible type, they are what the file says, in every other case (no file, no JSON, a
  missing or ill-typed member) all four are the defaults, never a mixture.
\<close>

theorem AppStorage_all_or_nothing:
  "AppStorage_Get J f =
     (case json_from_file J f of
        Inr (JObj kvs) \<Rightarrow>
          (case (map_of kvs ''language'', map_of kvs ''serverIP'',
                 map_of kvs ''unlockServerPort'', map_of kvs ''waitForKeyPress'') of
             (Some (JStr l), Some (JStr s), Some p, Some (JBool w)) \<Rightarrow>
               (case json_int p of
                  Inr port \<Rightarrow> \<lparr>language = l, serverIP = s, unlockServerPort = port, waitForKeyPress = w\<rparr>
                | Inl _ \<Rightarrow> default_settings)
           | _ \<Rightarrow> default_settings)
      | _ \<Rightarrow> default_settings)"
  by (auto simp: AppStorage_Get_def settings_of_json_def json_field_string_def
      split: sum.split json.split option.split elim!: bind_err_InrE)

lemma string_members_device:
  "string_members [(''bluetoothAddress'', JStr a), (''cloudToken'', JStr b), (''deviceName'', JStr c),
     (''encryptionKey'', JStr d), (''ipAddress'', JStr e), (''pairingId'', JStr f),
     (''pairingMethod'', JStr g), (''userName'', JStr h)]"
  by (simp add: string_members_def less_char_def)

lemma devices_typed: "typed_json (JArr (map device_json ds))"
proof -
  have "typed_json (device_json d)" for d
    unfolding device_json_def by (rule string_members_typed [OF string_members_device])
  then have "typed_elems (map device_json ds)" by (induction ds) simp_all
  then show ?thesis by simp
qed

lemma devices_text:
  assumes "json_dump (nlohmann C F) (JArr (map device_json ds)) = Some t" "number_ends rest"
  shows "json_read (nlohmann C F) (t @ rest) = Some (JArr (map device_json ds))"
proof -
  have p: "plain_json (JArr (map device_json ds))" "t = json_text (JArr (map device_json ds))"
    using assms(1) dump_text_iff [OF devices_typed, of F ds t] by simp_all
  show ?thesis using parse_stream_json_text [OF p(1) assms(2), of C] by (simp add: p(2))
qed

text \<open>
  C33: devices that were written by the JSON library are read back unchanged and in order by
  it, whatever follows them in the file as long as no digit does, and a user is offered
  exactly the devices paired for that user name.
\<close>

theorem devices_roundtrip:
  assumes "json_dump (nlohmann C F) (JArr (map device_json ds)) = Some file" "number_ends rest"
  shows "GetDevices (nlohmann C F) (Some (file @ rest)) = ds
         \<and> GetDevicesForUser (nlohmann C F) (Some (file @ rest)) u = filter (\<lambda>d. userName d = u) ds"
  using devices_text [OF assms]
  by (simp add: GetDevices_def json_from_file_def devices_loop_device_json GetDevicesForUser_filter)

definition demo_device :: PairedDevice where
  "demo_device = \<lparr>pairingId = ''p1'', pairingMethod = TCP, deviceName = ''Phone'', userName = ''alice'',
     encryptionKey = ''key'', ipAddress = ''192.168.0.7'', bluetoothAddress = '''', cloudToken = ''''\<rparr>"

definition demo_devices :: "PairedDevice list" where
  "demo_devices = [demo_device, demo_device\<lparr>userName := ''bob''\<rparr>]"

theorem devices_roundtrip_witness:
  "GetDevicesForUser demo_json (Some (json_text (JArr (map device_json demo_devices)) @ [newline])) ''bob''
     = [demo_device\<lparr>userName := ''bob''\<rparr>]"
proof -
  have p: "plain_json (JArr (map device_json demo_devices))" by code_simp
  have e: "number_ends [newline]" by code_simp
  note devices_roundtrip [OF demo_json_dump [OF p, unfolded demo_json_def] e, of "''bob''"]
  then show ?thesis by (simp add: demo_json_def demo_devices_def demo_device_def)
qed

text \<open>
  C34: a damaged device file never crashes the reader and never invents a device: the result
  is the longest prefix of readable entries, so one entry that does not decode hides every
  entry behind it.
\<close>

theorem GetDevices_readable_prefix:
  "GetDevices J f =
     (case json_from_file J f of
        Inl _ \<Rightarrow> []
      | Inr j \<Rightarrow> map projr (takeWhile (\<lambda>r. \<not> isl r) (map device_of_json (json_elems j))))"
  by (simp add: GetDevices_def devices_loop_takeWhile split: sum.split)

end
