(* ===== verification/Fmt.thy ===== *)
theory Fmt
  imports Prelude "HOL-Library.Sublist"
begin

text \<open>
  The formatting of messages: \<^verbatim>\<open>fmt::format\<close> with string arguments, as the copy of fmt in
  \<^verbatim>\<open>common-cpp/deps/spdlog/include/spdlog/fmt/bundled\<close> does it (\<^verbatim>\<open>core.h\<close>, \<^verbatim>\<open>format.h\<close>). Pointers into the
  template are the rest of the text from there on. What a format specification after a colon
  writes is a parameter: no template of the program has one.
\<close>

unbundle bit_operations_syntax

section \<open>Errors and state\<close>

text \<open>The \<^verbatim>\<open>format_error\<close> exceptions that these functions throw themselves, and those of a specification.\<close>

datatype fmt_error =
    InvalidFormatString | UnmatchedBrace | MissingBrace | UnknownSpecifier | ArgumentNotFound
  | ManualToAutomatic | AutomaticToManual | SpecError string

text \<open>The output so far and \<^verbatim>\<open>next_arg_id_\<close>, which is -1 after a manual index.\<close>

record fmt_handler =
  fmt_out :: string
  next_arg :: int

text \<open>
  \<open>fmt_specs args next value text\<close>: what the specification at the front of \<open>text\<close> writes for the
  argument, the new \<^verbatim>\<open>next_arg_id_\<close>, and how many characters it has.
\<close>

type_synonym fmt_specs = "string list \<Rightarrow> int \<Rightarrow> string \<Rightarrow> string \<Rightarrow> fmt_error + string \<times> int \<times> nat"

abbreviation open_brace :: char where "open_brace \<equiv> CHR 0x7B"
abbreviation close_brace :: char where "close_brace \<equiv> CHR 0x7D"

definition on_text :: "string \<Rightarrow> fmt_handler \<Rightarrow> fmt_handler" where
  "on_text s h = h\<lparr>fmt_out := fmt_out h @ s\<rparr>"

definition next_arg_id :: "fmt_handler \<Rightarrow> fmt_error + int \<times> fmt_handler" where
  "next_arg_id h = (if next_arg h < 0 then Inl ManualToAutomatic else Inr (next_arg h, h\<lparr>next_arg := next_arg h + 1\<rparr>))"

definition check_arg_id :: "fmt_handler \<Rightarrow> fmt_error + fmt_handler" where
  "check_arg_id h = (if next_arg h > 0 then Inl AutomaticToManual else Inr (h\<lparr>next_arg := -1\<rparr>))"

definition get_arg :: "string list \<Rightarrow> int \<Rightarrow> fmt_error + string" where
  "get_arg args i = (if 0 \<le> i \<and> i < int (length args) then Inr (args ! nat i) else Inl ArgumentNotFound)"

definition on_replacement_field :: "string list \<Rightarrow> int \<Rightarrow> fmt_handler \<Rightarrow> fmt_error + fmt_handler" where
  "on_replacement_field args i h = bind_err (get_arg args i) (\<lambda>v. Inr (on_text v h))"

text \<open>The rest of the text begins at the closing brace.\<close>

definition on_format_specs ::
  "fmt_specs \<Rightarrow> string list \<Rightarrow> int \<Rightarrow> string \<Rightarrow> fmt_handler \<Rightarrow> fmt_error + string \<times> fmt_handler" where
  "on_format_specs F args i s h =
     bind_err (get_arg args i) (\<lambda>v.
     bind_err (F args (next_arg h) v s) (\<lambda>(w, n, k).
       let s = drop k s; h = h\<lparr>next_arg := n\<rparr>
       in if s = [] \<or> hd s \<noteq> close_brace then Inl MissingBrace else Inr (s, on_text w h)))"

section \<open>Argument indices\<close>

definition is_digit :: "char \<Rightarrow> bool" where
  "is_digit c \<longleftrightarrow> of_char c \<ge> (48::nat) \<and> of_char c \<le> (57::nat)"

definition is_name_start :: "char \<Rightarrow> bool" where
  "is_name_start c \<longleftrightarrow>
     (let n = of_char c :: nat in (97 \<le> n \<and> n \<le> 122) \<or> (65 \<le> n \<and> n \<le> 90) \<or> c = CHR ''_'')"

text \<open>The loop over the digits computes with 32-bit words.\<close>

fun digits_loop :: "32 word \<Rightarrow> 32 word \<Rightarrow> string \<Rightarrow> 32 word \<times> 32 word" where
  "digits_loop prev value [] = (prev, value)"
| "digits_loop prev value (c # cs) = digits_loop value (value * 10 + (of_char c - 48)) cs"

definition int_max :: nat where "int_max = 2 ^ 31 - 1"

definition parse_nonnegative_int :: "int \<Rightarrow> string \<Rightarrow> int \<times> string" where
  "parse_nonnegative_int error_value s =
     (let ds = takeWhile is_digit s;
          (prev, value) = digits_loop 0 0 ds;
          num_digits = length ds
      in (if num_digits \<le> 9 then uint value
          else if num_digits = 10 \<and> unat prev * 10 + (of_char (last ds) - 48) \<le> int_max then uint value
          else error_value, drop num_digits s))"

datatype arg_id = Auto | Index int | Name string

definition do_parse_arg_id :: "string \<Rightarrow> fmt_error + arg_id \<times> string" where
  "do_parse_arg_id s =
     (let c = hd s in
      if is_digit c then
        (let (index, s) = (if c \<noteq> CHR ''0'' then parse_nonnegative_int (int int_max) s else (0, tl s))
         in if s = [] \<or> (hd s \<noteq> close_brace \<and> hd s \<noteq> CHR 0x3A) then Inl InvalidFormatString else Inr (Index index, s))
      else if \<not> is_name_start c then Inl InvalidFormatString
      else let name = c # takeWhile (\<lambda>c. is_name_start c \<or> is_digit c) (tl s)
           in Inr (Name name, drop (length name) s))"

definition parse_arg_id :: "string \<Rightarrow> fmt_error + arg_id \<times> string" where
  "parse_arg_id s = (if hd s \<noteq> close_brace \<and> hd s \<noteq> CHR 0x3A then do_parse_arg_id s else Inr (Auto, s))"

text \<open>No argument has a name.\<close>

definition on_arg_id :: "arg_id \<Rightarrow> fmt_handler \<Rightarrow> fmt_error + int \<times> fmt_handler" where
  "on_arg_id a h =
     (case a of
        Auto \<Rightarrow> next_arg_id h
      | Index j \<Rightarrow> bind_err (check_arg_id h) (\<lambda>h. Inr (j, h))
      | Name _ \<Rightarrow> Inl ArgumentNotFound)"

section \<open>Replacement fields\<close>

definition parse_replacement_field ::
  "fmt_specs \<Rightarrow> string list \<Rightarrow> string \<Rightarrow> fmt_handler \<Rightarrow> fmt_error + string \<times> fmt_handler" where
  "parse_replacement_field F args s h =
     (let s = tl s in
      if s = [] then Inl InvalidFormatString
      else if hd s = close_brace then
        bind_err (next_arg_id h) (\<lambda>(i, h). bind_err (on_replacement_field args i h) (\<lambda>h. Inr (tl s, h)))
      else if hd s = open_brace then Inr (tl s, on_text [open_brace] h)
      else
        bind_err (parse_arg_id s) (\<lambda>(a, s). bind_err (on_arg_id a h) (\<lambda>(i, h).
          if s \<noteq> [] \<and> hd s = close_brace then bind_err (on_replacement_field args i h) (\<lambda>h. Inr (tl s, h))
          else if s \<noteq> [] \<and> hd s = CHR 0x3A then
            bind_err (on_format_specs F args i (tl s) h) (\<lambda>(s, h).
              if s = [] \<or> hd s \<noteq> close_brace then Inl UnknownSpecifier else Inr (tl s, h))
          else Inl MissingBrace)))"

lemma parse_arg_id_shorter: "parse_arg_id s = Inr (a, r) \<Longrightarrow> length r \<le> length s"
  by (auto simp: parse_arg_id_def do_parse_arg_id_def parse_nonnegative_int_def Let_def split: if_splits prod.splits)

lemma parse_replacement_field_shorter:
  assumes "parse_replacement_field F args s h = Inr (r, h')" "s \<noteq> []"
  shows "length r < length s"
proof -
  have tl: "length (tl x) < length s" if "length x \<le> length (tl s)" for x :: string
    using that assms(2) by (cases s) auto
  have sp: "length r' \<le> length x" if "on_format_specs F args i x g = Inr (r', g')" for i x g r' g'
    using that by (auto simp: on_format_specs_def Let_def bind_err_def split: sum.splits if_splits)
  show ?thesis
    using assms(1) tl parse_arg_id_shorter sp
    by (fastforce simp: parse_replacement_field_def bind_err_def Let_def split: if_splits sum.splits prod.splits)
qed

section \<open>Templates\<close>

text \<open>
  The loop for short templates. \<open>pending\<close> is the text between \<^verbatim>\<open>begin\<close> and \<^verbatim>\<open>p\<close>.
\<close>

function simple_loop :: "fmt_specs \<Rightarrow> string list \<Rightarrow> string \<Rightarrow> string \<Rightarrow> fmt_handler \<Rightarrow> fmt_error + fmt_handler" where
  "simple_loop F args pending s h =
     (case s of
        [] \<Rightarrow> Inr (on_text pending h)
      | c # r \<Rightarrow>
          if c = open_brace then
            (case parse_replacement_field F args (c # r) (on_text pending h) of
               Inl e \<Rightarrow> Inl e
             | Inr (s', h') \<Rightarrow> simple_loop F args [] s' h')
          else if c = close_brace then
            (if r = [] \<or> hd r \<noteq> close_brace then Inl UnmatchedBrace
             else simple_loop F args [] (tl r) (on_text (pending @ [c]) h))
          else simple_loop F args (pending @ [c]) r h)"
  by pat_completeness auto
termination
  by (relation "measure (\<lambda>(_, _, _, s, _). length s)") (auto dest!: parse_replacement_field_shorter)

declare simple_loop.simps [simp del]

text \<open>The writer of the other loop, whose text has no opening brace.\<close>

function write_text :: "string \<Rightarrow> fmt_handler \<Rightarrow> fmt_error + fmt_handler" where
  "write_text s h =
     (if close_brace \<notin> set s then Inr (on_text s h)
      else let p = length (takeWhile (\<lambda>c. c \<noteq> close_brace) s) + 1 in
        if drop p s = [] \<or> hd (drop p s) \<noteq> close_brace then Inl UnmatchedBrace
        else write_text (drop (p + 1) s) (on_text (take p s) h))"
  by pat_completeness auto
termination
  by (relation "measure (\<lambda>(s, _). length s)") auto

declare write_text.simps [simp del]

definition fmt_writer :: "string \<Rightarrow> fmt_handler \<Rightarrow> fmt_error + fmt_handler" where
  "fmt_writer s h = (if s = [] then Inr h else write_text s h)"

lemma takeWhile_shorter: "x \<in> set s \<Longrightarrow> length (takeWhile (\<lambda>c. c \<noteq> x) s) < length s"
  by (induction s) auto

text \<open>\<^verbatim>\<open>memchr\<close> finds the next opening brace.\<close>

definition next_open :: "string \<Rightarrow> nat" where
  "next_open s = (if hd s = open_brace then 0 else 1 + length (takeWhile (\<lambda>c. c \<noteq> open_brace) (tl s)))"

function long_loop :: "fmt_specs \<Rightarrow> string list \<Rightarrow> string \<Rightarrow> fmt_handler \<Rightarrow> fmt_error + fmt_handler" where
  "long_loop F args s h =
     (if s = [] then Inr h
      else if hd s \<noteq> open_brace \<and> open_brace \<notin> set (tl s) then fmt_writer s h
      else
        (case fmt_writer (take (next_open s) s) h of
           Inl e \<Rightarrow> Inl e
         | Inr h \<Rightarrow>
             (case parse_replacement_field F args (drop (next_open s) s) h of
                Inl e \<Rightarrow> Inl e
              | Inr (s', h') \<Rightarrow> long_loop F args s' h')))"
  by pat_completeness auto
termination
proof (relation "measure (\<lambda>(_, _, s, _). length s)")
  fix F args s h h1 x s' h'
  assume s: "s \<noteq> []" "\<not> (hd s \<noteq> open_brace \<and> open_brace \<notin> set (tl s))"
    and p: "parse_replacement_field F args (drop (next_open s) s) h1 = Inr x" "(s', h') = x"
  have "next_open s < length s"
  proof (cases "hd s = open_brace")
    case True
    then show ?thesis using s by (simp add: next_open_def)
  next
    case False
    then have "open_brace \<in> set (tl s)" using s by simp
    then have "length (takeWhile (\<lambda>c. c \<noteq> open_brace) (tl s)) < length (tl s)" by (rule takeWhile_shorter)
    then show ?thesis using False by (simp add: next_open_def)
  qed
  then show "((F, args, s', h'), (F, args, s, h)) \<in> measure (\<lambda>(_, _, s, _). length s)"
    using parse_replacement_field_shorter [of F args "drop (next_open s) s" h1 s' h'] p by auto
qed simp

declare long_loop.simps [simp del]

definition parse_format_string :: "fmt_specs \<Rightarrow> string list \<Rightarrow> string \<Rightarrow> fmt_handler \<Rightarrow> fmt_error + fmt_handler" where
  "parse_format_string F args s h = (if length s < 32 then simple_loop F args [] s h else long_loop F args s h)"

definition vformat :: "fmt_specs \<Rightarrow> string \<Rightarrow> string list \<Rightarrow> fmt_error + string" where
  "vformat F s args =
     (if s = [open_brace, close_brace] then get_arg args 0
      else bind_err (parse_format_string F args s \<lparr>fmt_out = [], next_arg = 0\<rparr>) (\<lambda>h. Inr (fmt_out h)))"

section \<open>The two loops\<close>

lemma on_text_Nil [simp]: "on_text [] h = h"
  by (simp add: on_text_def)

lemma on_text_on_text [simp]: "on_text t (on_text s h) = on_text (s @ t) h"
  by (simp add: on_text_def)

lemma next_arg_on_text [simp]: "next_arg (on_text s h) = next_arg h"
  by (simp add: on_text_def)

lemma fmt_out_on_text [simp]: "fmt_out (on_text s h) = fmt_out h @ s"
  by (simp add: on_text_def)

definition plain_text :: "string \<Rightarrow> bool" where
  "plain_text t \<longleftrightarrow> open_brace \<notin> set t \<and> close_brace \<notin> set t"

lemma plain_text_simps [simp]:
  "plain_text []" "plain_text (c # t) \<longleftrightarrow> c \<noteq> open_brace \<and> c \<noteq> close_brace \<and> plain_text t"
  "plain_text (s @ t) \<longleftrightarrow> plain_text s \<and> plain_text t"
  by (auto simp: plain_text_def)

lemma simple_loop_plain: "plain_text t \<Longrightarrow> simple_loop F args pending (t @ s) h = simple_loop F args (pending @ t) s h"
proof (induction t arbitrary: pending)
  case (Cons c t)
  then show ?case by (subst simple_loop.simps) simp
qed simp

lemma fmt_writer_text [simp]: "fmt_writer s h = write_text s h"
  by (cases s) (simp_all add: fmt_writer_def write_text.simps)

lemma write_text_simple:
  assumes "open_brace \<notin> set t" "s = [] \<or> hd s = open_brace"
  shows "simple_loop F args [] (t @ s) h = (case write_text t h of Inl e \<Rightarrow> Inl e | Inr h \<Rightarrow> simple_loop F args [] s h)"
  using assms(1)
proof (induction t h rule: write_text.induct)
  case (1 t h)
  show ?case
  proof (cases "close_brace \<in> set t")
    case False
    then have "simple_loop F args [] (t @ s) h = simple_loop F args t s h"
      using simple_loop_plain [of t] "1.prems" by (simp add: plain_text_def)
    also have "\<dots> = simple_loop F args [] s (on_text t h)"
      using assms(2) by (cases s) (simp_all add: simple_loop.simps [of _ _ t] simple_loop.simps [of _ _ "[]"])
    finally show ?thesis using False by (simp add: write_text.simps [of t])
  next
    case True
    define pre where "pre = takeWhile (\<lambda>c. c \<noteq> close_brace) t"
    obtain r where t: "t = pre @ close_brace # r"
    proof -
      have "dropWhile (\<lambda>c. c \<noteq> close_brace) t \<noteq> []" using True by auto
      then obtain c r where cr: "dropWhile (\<lambda>c. c \<noteq> close_brace) t = c # r" by (cases "dropWhile (\<lambda>c. c \<noteq> close_brace) t") auto
      then have "c = close_brace" using hd_dropWhile [of "\<lambda>c. c \<noteq> close_brace" t] by simp
      moreover have "pre @ dropWhile (\<lambda>c. c \<noteq> close_brace) t = t" unfolding pre_def by (rule takeWhile_dropWhile_id)
      ultimately have "pre @ close_brace # r = t" using cr by simp
      then show thesis by (rule that [OF sym])
    qed
    have "close_brace \<notin> set pre" by (auto simp: pre_def dest: set_takeWhileD)
    moreover have "open_brace \<notin> set pre" using "1.prems" t by simp
    ultimately have "plain_text pre" by (simp add: plain_text_def)
    then have "simple_loop F args [] (t @ s) h = simple_loop F args pre (close_brace # r @ s) h"
      using simple_loop_plain [of pre F args "[]" "close_brace # r @ s" h] t by simp
    also have "\<dots> = (if r @ s = [] \<or> hd (r @ s) \<noteq> close_brace then Inl UnmatchedBrace
        else simple_loop F args [] (tl (r @ s)) (on_text (pre @ [close_brace]) h))"
      by (subst simple_loop.simps) simp
    finally have l: "simple_loop F args [] (t @ s) h = \<dots>" .
    have d: "drop (length pre + 1) t = r" "drop (length pre + 1 + 1) t = tl r" "take (length pre + 1) t = pre @ [close_brace]"
      using t by (simp_all add: drop_Suc)
    have w: "write_text t h = (if r = [] \<or> hd r \<noteq> close_brace then Inl UnmatchedBrace
        else write_text (tl r) (on_text (pre @ [close_brace]) h))"
      by (subst write_text.simps) (simp only: pre_def [symmetric] Let_def d True not_True_eq_False if_False)
    show ?thesis
    proof (cases "r = [] \<or> hd r \<noteq> close_brace")
      case bad: True
      then have "r @ s = [] \<or> hd (r @ s) \<noteq> close_brace" using assms(2) by (cases r) auto
      then show ?thesis using bad l w by simp
    next
      case False
      then obtain r' where r: "r = close_brace # r'" by (cases r) auto
      have "open_brace \<notin> set r'" using "1.prems" t r by simp
      moreover have "open_brace \<notin> set (tl r) \<Longrightarrow>
          simple_loop F args [] (tl r @ s) (on_text (pre @ [close_brace]) h) =
          (case write_text (tl r) (on_text (pre @ [close_brace]) h) of Inl e \<Rightarrow> Inl e | Inr h \<Rightarrow> simple_loop F args [] s h)"
        using "1.IH" [OF _ refl, folded pre_def, unfolded d] True False by simp
      ultimately show ?thesis using l w r by simp
    qed
  qed
qed

lemma loops_agree: "long_loop F args s h = simple_loop F args [] s h"
proof (induction F args s h rule: long_loop.induct)
  case (1 F args s h)
  consider "s = []" | "s \<noteq> []" "hd s \<noteq> open_brace \<and> open_brace \<notin> set (tl s)"
    | "s \<noteq> []" "\<not> (hd s \<noteq> open_brace \<and> open_brace \<notin> set (tl s))" by blast
  then show ?case
  proof cases
    case 1
    then show ?thesis by (simp add: long_loop.simps simple_loop.simps)
  next
    case 2
    then have "open_brace \<notin> set s" by (cases s) auto
    then have "simple_loop F args [] s h = write_text s h"
      using write_text_simple [of s "[]" F args h] by (simp add: simple_loop.simps [of _ _ _ "[]"] split: sum.split)
    then show ?thesis using 2 by (simp add: long_loop.simps [of _ _ s])
  next
    case 3
    let ?t = "take (next_open s) s" and ?r = "drop (next_open s) s"
    have tr: "open_brace \<notin> set ?t \<and> ?r \<noteq> [] \<and> hd ?r = open_brace"
    proof (cases "hd s = open_brace")
      case True
      then show ?thesis using 3 by (simp add: next_open_def)
    next
      case False
      then have o: "open_brace \<in> set (tl s)" using 3 by blast
      obtain c u where s: "s = c # u" using 3 by (cases s) auto
      have "take (next_open s) s = c # takeWhile (\<lambda>c. c \<noteq> open_brace) u"
        "drop (next_open s) s = dropWhile (\<lambda>c. c \<noteq> open_brace) u"
        using False s by (simp_all add: next_open_def takeWhile_eq_take [symmetric] dropWhile_eq_drop [symmetric])
      moreover have "dropWhile (\<lambda>c. c \<noteq> open_brace) u \<noteq> []" using o s by auto
      moreover have "open_brace \<notin> set (takeWhile (\<lambda>c. c \<noteq> open_brace) u)" by (auto dest: set_takeWhileD)
      ultimately show ?thesis using False s hd_dropWhile [of "\<lambda>c. c \<noteq> open_brace" u] by auto
    qed
    obtain u where r: "?r = open_brace # u" using tr by (cases ?r) auto
    have "simple_loop F args [] s h = (case write_text ?t h of Inl e \<Rightarrow> Inl e | Inr h \<Rightarrow> simple_loop F args [] ?r h)"
      using write_text_simple [of ?t ?r F args h] tr by simp
    moreover have "simple_loop F args [] ?r h' = (case parse_replacement_field F args ?r h' of
        Inl e \<Rightarrow> Inl e | Inr (s', h'') \<Rightarrow> simple_loop F args [] s' h'')" for h'
      unfolding r by (subst simple_loop.simps) simp
    ultimately show ?thesis
      using "1.IH" [OF 3] 3 by (subst long_loop.simps) (auto split: sum.split)
  qed
qed

text \<open>
  C31: The optimised scanner of fmt for long templates, which looks for the two braces in
  separate passes, and the plain loop it replaces for short ones do the same: on every
  template, with any arguments and specifications, they write the same text and
  use the same arguments, or raise the same error.
\<close>

theorem format_loops_agree:
  "parse_format_string F args s h = simple_loop F args [] s h \<and> long_loop F args s h = simple_loop F args [] s h"
  by (simp add: parse_format_string_def loops_agree)

section \<open>Templates of messages\<close>

lemma vformat_simple:
  "s \<noteq> [open_brace, close_brace] \<Longrightarrow>
   vformat F s args = bind_err (simple_loop F args [] s \<lparr>fmt_out = [], next_arg = 0\<rparr>) (\<lambda>h. Inr (fmt_out h))"
  by (simp add: vformat_def parse_format_string_def loops_agree)

text \<open>A template without braces is the text itself; one field takes the first argument as it is.\<close>

lemma vformat_plain:
  assumes "plain_text t"
  shows "vformat F t args = Inr t"
proof -
  have "t \<noteq> [open_brace, close_brace]" using assms by auto
  moreover have "simple_loop F args [] t h = Inr (on_text t h)" for h
    using simple_loop_plain [OF assms, of F args "[]" "[]" h] by (simp add: simple_loop.simps [of _ _ t "[]"])
  ultimately show ?thesis by (simp add: vformat_simple bind_err_def)
qed

lemma vformat_field:
  assumes "plain_text a" "plain_text b"
  shows "vformat F (a @ [open_brace, close_brace] @ b) args = (if args = [] then Inl ArgumentNotFound else Inr (a @ hd args @ b))"
proof (cases "a = [] \<and> b = []")
  case True
  then show ?thesis by (cases args) (simp_all add: vformat_def get_arg_def)
next
  case False
  let ?h = "\<lparr>fmt_out = [], next_arg = 0\<rparr> :: fmt_handler"
  have t: "a @ [open_brace, close_brace] @ b \<noteq> [open_brace, close_brace]"
    using False by (cases a; cases b) auto
  have e: "simple_loop F args [] b h = Inr (on_text b h)" for args h
    using simple_loop_plain [OF assms(2), of F args "[]" "[]" h] by (simp add: simple_loop.simps [of _ _ b "[]"])
  have "simple_loop F args [] (a @ [open_brace, close_brace] @ b) ?h = simple_loop F args a (open_brace # close_brace # b) ?h"
    using simple_loop_plain [OF assms(1), of F args "[]" "open_brace # close_brace # b" ?h] by simp
  also have "\<dots> = (if args = [] then Inl ArgumentNotFound
      else Inr (on_text (a @ hd args @ b) (?h\<lparr>next_arg := 1\<rparr>)))"
    by (subst simple_loop.simps)
      (cases args; simp add: parse_replacement_field_def next_arg_id_def on_replacement_field_def get_arg_def bind_err_def e on_text_def)
  finally show ?thesis unfolding vformat_simple [OF t] by (simp add: bind_err_def on_text_def)
qed

end
