(* ===== verification/I18n.thy ===== *)
theory I18n
  imports Storage Utils Fmt
begin

text \<open>
  \<^verbatim>\<open>common-cpp/src/I18n.h\<close> and \<^verbatim>\<open>I18n.cpp\<close>: the two message tables, the choice of the
  locale and the lookup. The static member \<^verbatim>\<open>m_Locale\<close> (-1 until it is determined) is
  passed and returned. What the operating system and the libraries answer is collected in
  a \<open>sysenv\<close>.
\<close>

section \<open>The environment\<close>

text \<open>
  \<open>locale_conf\<close> is the content of \<^verbatim>\<open>/etc/locale.conf\<close> (\<open>None\<close>: there is no such file),
  \<open>c_locale\<close> the answer of \<^verbatim>\<open>setlocale(LC_ALL, nullptr)\<close>, \<open>win_locale\<close> that of
  \<^verbatim>\<open>LCIDToLocaleName\<close> (\<open>None\<close>: it returned 0). \<open>specs\<close> is what fmt does with format
  specifications, which no message has.
\<close>

record sysenv =
  os :: platform
  json :: json_lib
  settings_file :: "string option"
  devices_file :: "string option"
  locale_conf :: "string option"
  c_locale :: string
  win_locale :: "string option"
  specs :: fmt_specs

section \<open>The message tables\<close>

text \<open>Characters beyond ASCII are their two UTF-8 bytes.\<close>

definition m_EnLangMap :: "(string \<times> string) list" where
  "m_EnLangMap =
     [(''initializing'', ''Initializing...''),
      (''password'', ''Password''),
      (''error_unknown'', ''Unknown Error.''),
      (''error_pam'', ''Error: Could not get PAM info.''),
      (''error_not_paired'', ''Error: User {} is not paired.''),
      (''error_invalid_user'', ''Error: Invalid user.''),
      (''error_start_handler'', ''Error: Could not start socket.''),
      (''error_password'', ''Invalid password.''),
      (''enter_password'', ''Please enter your password.''),
      (''wait_network'', ''Waiting for network connection...''),
      (''wait_key_press'', ''Press any key or click.''),
      (''wait_phone_connect'', ''Connecting to phone...''),
      (''wait_phone_unlock'', ''Use phone to unlock...''),
      (''unlock_success'', ''Success.''),
      (''unlock_canceled'', ''Canceled.''),
      (''unlock_timeout'', ''Timeout.''),
      (''unlock_error_connect'', ''Could not connect to phone.''),
      (''unlock_error_time'', ''Error: Time on PC does not match phone time.''),
      (''unlock_error_data'', ''Error: Invalid data received.''),
      (''unlock_error_not_paired'', ''Error: Not paired on phone.''),
      (''unlock_error_app'', ''Unknown app error. Please contact support.''),
      (''unlock_error_unknown'', ''Unknown error. Please contact support.'')]"

definition m_DeLangMap :: "(string \<times> string) list" where
  "m_DeLangMap =
     [(''initializing'', ''Initialisiere...''),
      (''password'', ''Passwort''),
      (''error_unknown'', ''Unbekannter Fehler.''),
      (''error_pam'', ''Fehler: Konnte PAM Infos nicht holen.''),
      (''error_not_paired'', ''Fehler: Benutzer {} ist nicht gepairt.''),
      (''error_invalid_user'', ''Fehler: Ung'' @ [CHR 0xC3, CHR 0xBC] @ ''ltiger Benutzer.''),
      (''error_start_handler'', ''Fehler: Konnte Socket nicht starten.''),
      (''error_password'', ''Ung'' @ [CHR 0xC3, CHR 0xBC] @ ''ltiges Passwort.''),
      (''enter_password'', ''Gib bitte dein Passwort ein.''),
      (''wait_network'', ''Warte auf Netzwerkverbindung...''),
      (''wait_key_press'', ''Dr'' @ [CHR 0xC3, CHR 0xBC] @ ''cke eine beliebige Taste.''),
      (''wait_phone_connect'', ''Verbinde mit Telefon...''),
      (''wait_phone_unlock'', ''Verwende Telefon, um zu entsperren...''),
      (''unlock_success'', ''Erfolg.''),
      (''unlock_canceled'', ''Abgebrochen.''),
      (''unlock_timeout'', ''Zeit abgelaufen.''),
      (''unlock_error_connect'', ''Verbindung zum Telefon fehlgeschlagen.''),
      (''unlock_error_time'', ''Fehler: Zeit auf PC stimmt nicht mit Telefon Zeit '' @ [CHR 0xC3, CHR 0xBC] @ ''berein.''),
      (''unlock_error_data'', ''Fehler: Ung'' @ [CHR 0xC3, CHR 0xBC] @ ''ltige Daten empfangen.''),
      (''unlock_error_not_paired'', ''Fehler: Nicht gepairt auf Telefon.''),
      (''unlock_error_app'', ''Unbekannter App Fehler. Bitte Support kontaktieren.''),
      (''unlock_error_unknown'', ''Unbekannter Fehler. Bitte Support kontaktieren.'')]"

section \<open>Reading the locale\<close>

text \<open>
  The lines \<^verbatim>\<open>while (std::getline(is_file, line))\<close> sees: text up to each newline; nothing
  after a final newline.
\<close>

function file_lines :: "string \<Rightarrow> string list" where
  "file_lines s =
     (if s = [] then []
      else takeWhile (\<lambda>c. c \<noteq> CHR 0x0A) s
           # file_lines (drop 1 (dropWhile (\<lambda>c. c \<noteq> CHR 0x0A) s)))"
  by pat_completeness auto
termination
proof (relation "measure length")
  fix s :: string
  assume "s \<noteq> []"
  then show "(drop 1 (dropWhile (\<lambda>c. c \<noteq> CHR 0x0A) s), s) \<in> measure length"
    using length_dropWhile_le [of "\<lambda>c. c \<noteq> CHR 0x0A" s] by (cases s) (auto simp: le_imp_less_Suc le_diff_conv)
qed simp

declare file_lines.simps [simp del]

text \<open>
  One line: \<^verbatim>\<open>getline(is_line, key, '=')\<close> fails on an empty line; the second \<^verbatim>\<open>getline\<close>
  fails if nothing follows the separator.
\<close>

definition conf_entry :: "string \<Rightarrow> (string \<times> string) option" where
  "conf_entry line =
     (if line = [] then None
      else let key = takeWhile (\<lambda>c. c \<noteq> CHR ''='') line;
               rest = drop 1 (dropWhile (\<lambda>c. c \<noteq> CHR ''='') line)
           in if rest = [] then None else Some (key, rest))"

fun conf_lang :: "string list \<Rightarrow> string" where
  "conf_lang [] = []"
| "conf_lang (line # rest) =
     (case conf_entry line of
        Some (key, val) \<Rightarrow> if key = ''LANG'' then val else conf_lang rest
      | None \<Rightarrow> conf_lang rest)"

definition FindLocale :: "sysenv \<Rightarrow> int" where
  "FindLocale E =
     (let settingsLang = language (AppStorage_Get (json E) (settings_file E)) in
      if settingsLang \<noteq> ''auto'' then (if settingsLang = ''de_DE'' then 1 else 0)
      else if os E = Windows then
        (case win_locale E of
           None \<Rightarrow> 0
         | Some locale \<Rightarrow> if StringStartsWith locale ''de'' then 1 else 0)
      else
        (let locale = (case locale_conf E of Some txt \<Rightarrow> conf_lang (file_lines txt) | None \<Rightarrow> c_locale E)
         in if StringStartsWith locale ''de'' then 1 else 0))"

section \<open>Lookup\<close>

definition lang_map :: "int \<Rightarrow> (string \<times> string) list" where
  "lang_map m_Locale = (if m_Locale = 1 then m_DeLangMap else m_EnLangMap)"

text \<open>An exception of \<^verbatim>\<open>fmt::format\<close> leaves the function.\<close>

definition I18n_Get :: "sysenv \<Rightarrow> int \<Rightarrow> string \<Rightarrow> string list \<Rightarrow> (fmt_error + string) \<times> int" where
  "I18n_Get E m_Locale key args =
     (let m_Locale = (if m_Locale = -1 then FindLocale E else m_Locale) in
      case map_of (lang_map m_Locale) key of
        None \<Rightarrow> (Inr key, m_Locale)
      | Some template \<Rightarrow> (vformat (specs E) template args, m_Locale))"

text \<open>
  The text of a message in the locale the environment selects. The messages the program asks
  for never raise an exception (\<open>messages_format\<close> below).
\<close>

definition message :: "sysenv \<Rightarrow> string \<Rightarrow> string list \<Rightarrow> string" where
  "message E key args = (case fst (I18n_Get E (-1) key args) of Inr s \<Rightarrow> s | Inl _ \<Rightarrow> [])"

lemma FindLocale_range: "FindLocale E = 0 \<or> FindLocale E = 1"
  by (auto simp: FindLocale_def Let_def split: option.split)

lemma FindLocale_not_unset [simp]: "FindLocale E \<noteq> -1"
  using FindLocale_range [of E] by auto

lemma map_fst_tables: "map fst m_DeLangMap = map fst m_EnLangMap"
  by (simp add: m_EnLangMap_def m_DeLangMap_def)

lemma distinct_keys: "distinct (map fst m_EnLangMap)"
  by (simp add: m_EnLangMap_def)

lemma lang_map_known: "map_of (lang_map l) key = None \<longleftrightarrow> key \<notin> set (map fst m_EnLangMap)"
  using map_fst_tables
  by (metis lang_map_def list.set_map map_of_eq_None_iff)

text \<open>
  The locale is determined once: the first lookup leaves \<^verbatim>\<open>m_Locale\<close> at 0 or 1, and every
  later one leaves it unchanged and answers in the same language, whatever the environment
  has become by then.
\<close>

theorem I18n_locale_once:
  assumes "I18n_Get E (-1) k0 args0 = (s0, l)"
  shows "(l = 0 \<or> l = 1) \<and> snd (I18n_Get E' l key args) = l
         \<and> fst (I18n_Get (E\<lparr>specs := specs E'\<rparr>) (-1) key args) = fst (I18n_Get E' l key args)"
proof -
  have l: "l = FindLocale E"
    using assms by (auto simp: I18n_Get_def Let_def split: option.splits)
  have f: "FindLocale (E\<lparr>specs := specs E'\<rparr>) = FindLocale E"
    by (simp add: FindLocale_def Let_def split: option.split)
  have "l \<noteq> -1" using l by simp
  then show ?thesis
    using l FindLocale_range [of E] f by (auto simp: I18n_Get_def Let_def split: option.split)
qed

text \<open>
  The two tables are translations of each other: they define the same keys, each once, so
  a key that is found in one language is found in the other, and an unknown key is
  answered by itself in both.
\<close>

theorem language_tables_agree:
  "map fst m_DeLangMap = map fst m_EnLangMap \<and> distinct (map fst m_EnLangMap)
   \<and> (map_of (lang_map l) key = None \<longleftrightarrow> map_of (lang_map l') key = None)"
  by (simp add: map_fst_tables distinct_keys lang_map_known del: map_of_eq_None_iff)

definition demo_env :: sysenv where
  "demo_env = \<lparr>os = Linux, json = demo_json, settings_file = None, devices_file = None,
     locale_conf = Some ([CHR ''#'', CHR 0x0A] @ ''LANG=de_AT.UTF-8'' @ [CHR 0x0A]), c_locale = ''C'',
     win_locale = None, specs = (\<lambda>_ _ _ _. Inl UnknownSpecifier)\<rparr>"

section \<open>The messages\<close>

text \<open>Only one message has a field.\<close>

lemma templates:
  "list_all (\<lambda>(k, t). k = ''error_not_paired'' \<or> plain_text t) (lang_map l)"
proof -
  have "list_all (\<lambda>(k, t). k = ''error_not_paired'' \<or> plain_text t) m_EnLangMap"
    "list_all (\<lambda>(k, t). k = ''error_not_paired'' \<or> plain_text t) m_DeLangMap"
    by code_simp+
  then show ?thesis by (simp add: lang_map_def)
qed

lemma plain_template: "map_of (lang_map l) key = Some t \<Longrightarrow> key \<noteq> ''error_not_paired'' \<Longrightarrow> plain_text t"
  using templates [of l] by (fastforce simp: list_all_iff dest: map_of_SomeD)

lemma I18n_Get_plain:
  assumes "map_of (lang_map l) key = Some t" "key \<noteq> ''error_not_paired''" "l \<noteq> -1"
  shows "I18n_Get E l key args = (Inr t, l)"
  using assms plain_template [OF assms(1,2)] by (simp add: I18n_Get_def vformat_plain)

definition field_parts :: "int \<Rightarrow> string \<times> string" where
  "field_parts l = (if l = 1 then (''Fehler: Benutzer '', '' ist nicht gepairt.'') else (''Error: User '', '' is not paired.''))"

lemma field_template:
  "map_of (lang_map l) ''error_not_paired'' = Some (fst (field_parts l) @ [open_brace, close_brace] @ snd (field_parts l))"
  by (simp add: lang_map_def m_EnLangMap_def m_DeLangMap_def field_parts_def)

lemma field_parts_plain: "plain_text (fst (field_parts l))" "plain_text (snd (field_parts l))"
  by (simp_all add: field_parts_def)

text \<open>
  C32: The messages are what the tables say. In both languages a known key is answered by its
  text, with no way for an argument to change it, and an unknown key by itself. The one
  message with a field puts the name it is given in the place of the field, braces in the
  name included, and without a name raises the exception that \<^verbatim>\<open>Get\<close> does not catch.
\<close>

theorem messages_format:
  assumes "l = 0 \<or> l = 1"
  shows "fst (I18n_Get E l key args) =
    (if key \<notin> set (map fst m_EnLangMap) then Inr key
     else if key = ''error_not_paired'' then
       (if args = [] then Inl ArgumentNotFound else Inr (fst (field_parts l) @ hd args @ snd (field_parts l)))
     else Inr (the (map_of (lang_map l) key)))"
proof (cases "map_of (lang_map l) key")
  case None
  then show ?thesis using lang_map_known [of l key] assms by (auto simp: I18n_Get_def simp del: map_of_eq_None_iff)
next
  case (Some t)
  then have k: "key \<in> set (map fst m_EnLangMap)" using lang_map_known [of l key] by force
  show ?thesis
  proof (cases "key = ''error_not_paired''")
    case True
    then show ?thesis
      using k assms field_template [of l] vformat_field [OF field_parts_plain [of l]] by (auto simp: I18n_Get_def)
  next
    case False
    then show ?thesis using k Some I18n_Get_plain [OF Some False] assms by auto
  qed
qed

text \<open>A name with braces is shown as it is.\<close>

theorem messages_format_witness:
  "fst (I18n_Get demo_env 0 ''error_not_paired'' [''{0}'']) = Inr ''Error: User {0} is not paired.''
   \<and> fst (I18n_Get demo_env 1 ''error_not_paired'' []) = Inl ArgumentNotFound"
  using messages_format [of 0 demo_env "''error_not_paired''" "[''{0}'']"]
    messages_format [of 1 demo_env "''error_not_paired''" "[]"]
  by (simp add: field_parts_def m_EnLangMap_def)

theorem I18n_locale_once_witness:
  "I18n_Get demo_env (-1) ''password'' [] = (Inr ''Passwort'', 1)
   \<and> snd (I18n_Get (demo_env\<lparr>locale_conf := None\<rparr>) 1 ''unlock_success'' []) = 1
   \<and> fst (I18n_Get (demo_env\<lparr>locale_conf := None\<rparr>) 1 ''unlock_success'' []) = Inr ''Erfolg.''"
proof -
  have "FindLocale demo_env = 1"
    by (simp add: FindLocale_def demo_env_def AppStorage_Get_def json_from_file_def
        default_settings_def file_lines.simps conf_entry_def StringStartsWith_def rfind_at_0_def)
  then have g: "I18n_Get demo_env (-1) ''password'' [] = (Inr ''Passwort'', 1)"
    by (simp add: I18n_Get_def lang_map_def m_DeLangMap_def demo_env_def vformat_plain)
  show ?thesis
    using g I18n_locale_once [OF g, of "demo_env\<lparr>locale_conf := None\<rparr>" "''unlock_success''" "[]"]
    by (simp add: I18n_Get_def lang_map_def m_DeLangMap_def demo_env_def vformat_plain)
qed

end
