(* ===== verification/UnlockState.thy ===== *)
theory UnlockState
  imports I18n
begin

text \<open>
  \<^verbatim>\<open>common-cpp/src/handler/UnlockState.h\<close>: the outcomes of an unlock attempt, their integer
  values, and the message shown for each.
\<close>

datatype UnlockState =
    UNKNOWN | SUCCESS | CANCELED | TIMEOUT | CONNECT_ERROR | TIME_ERROR | DATA_ERROR
  | NOT_PAIRED_ERROR | APP_ERROR | START_ERROR | UNK_ERROR

definition state_code :: "UnlockState \<Rightarrow> int" where
  "state_code s =
     (case s of UNKNOWN \<Rightarrow> 0 | SUCCESS \<Rightarrow> 1 | CANCELED \<Rightarrow> 2 | TIMEOUT \<Rightarrow> 3 | CONNECT_ERROR \<Rightarrow> 4
      | TIME_ERROR \<Rightarrow> 5 | DATA_ERROR \<Rightarrow> 6 | NOT_PAIRED_ERROR \<Rightarrow> 7 | APP_ERROR \<Rightarrow> 8
      | START_ERROR \<Rightarrow> 9 | UNK_ERROR \<Rightarrow> 10)"

lemma state_code_inject: "state_code s = state_code t \<longleftrightarrow> s = t"
  by (cases s; cases t) (simp_all add: state_code_def)

text \<open>The states are ordered as the integers of the enumeration.\<close>

instantiation UnlockState :: linorder
begin

definition less_eq_UnlockState :: "UnlockState \<Rightarrow> UnlockState \<Rightarrow> bool" where
  "s \<le> t \<longleftrightarrow> state_code s \<le> state_code t"

definition less_UnlockState :: "UnlockState \<Rightarrow> UnlockState \<Rightarrow> bool" where
  "s < t \<longleftrightarrow> state_code s < state_code t"

instance
  by standard (auto simp: less_eq_UnlockState_def less_UnlockState_def state_code_inject)

end

text \<open>\<^verbatim>\<open>UnlockStateUtils::ToString\<close>: the key looked up for each state.\<close>

definition state_key :: "UnlockState \<Rightarrow> string" where
  "state_key state =
     (if state = SUCCESS then ''unlock_success''
      else if state = CANCELED then ''unlock_canceled''
      else if state = TIMEOUT then ''unlock_timeout''
      else if state = CONNECT_ERROR then ''unlock_error_connect''
      else if state = TIME_ERROR then ''unlock_error_time''
      else if state = DATA_ERROR then ''unlock_error_data''
      else if state = NOT_PAIRED_ERROR then ''unlock_error_not_paired''
      else if state = APP_ERROR then ''unlock_error_app''
      else if state = START_ERROR then ''error_start_handler''
      else if state = UNK_ERROR then ''unlock_error_unknown''
      else ''error_unknown'')"

definition ToString :: "sysenv \<Rightarrow> int \<Rightarrow> UnlockState \<Rightarrow> (fmt_error + string) \<times> int" where
  "ToString E m_Locale state = I18n_Get E m_Locale (state_key state) []"

lemma state_templates:
  "\<exists>t. map_of (lang_map l) (state_key s) = Some t \<and> state_key s \<noteq> ''error_not_paired''"
  by (cases s) (simp_all add: state_key_def lang_map_def m_EnLangMap_def m_DeLangMap_def)

lemma ToString_template:
  assumes "l \<noteq> -1"
  shows "ToString E l s = (Inr (the (map_of (lang_map l) (state_key s))), l)"
  using state_templates [of l s] I18n_Get_plain [OF _ _ assms] by (auto simp: ToString_def)

text \<open>The message of a state, once the locale is determined.\<close>

definition state_message :: "sysenv \<Rightarrow> UnlockState \<Rightarrow> string" where
  "state_message E state = (case fst (ToString E (FindLocale E) state) of Inr s \<Rightarrow> s | Inl _ \<Rightarrow> [])"

definition all_states :: "UnlockState list" where
  "all_states = [UNKNOWN, SUCCESS, CANCELED, TIMEOUT, CONNECT_ERROR, TIME_ERROR, DATA_ERROR,
     NOT_PAIRED_ERROR, APP_ERROR, START_ERROR, UNK_ERROR]"

lemma all_states_UNIV: "s \<in> set all_states"
  by (cases s) (simp_all add: all_states_def)

lemma templates_distinct: "distinct (map (\<lambda>s. the (map_of (lang_map l) (state_key s))) all_states)"
proof (cases "l = 1")
  case True
  have "map (\<lambda>s. the (map_of m_DeLangMap (state_key s))) all_states =
          map (\<lambda>k. the (map_of m_DeLangMap k)) (map state_key all_states)"
    by simp
  also have "distinct \<dots>"
    by (simp add: all_states_def state_key_def m_DeLangMap_def)
  finally show ?thesis using True by (simp add: lang_map_def)
next
  case False
  have "map (\<lambda>s. the (map_of m_EnLangMap (state_key s))) all_states =
          map (\<lambda>k. the (map_of m_EnLangMap k)) (map state_key all_states)"
    by simp
  also have "distinct \<dots>"
    by (simp add: all_states_def state_key_def m_EnLangMap_def)
  finally show ?thesis using False by (simp add: lang_map_def)
qed

lemma state_templates_inject:
  "the (map_of (lang_map l) (state_key s)) = the (map_of (lang_map l) (state_key t)) \<Longrightarrow> s = t"
  using templates_distinct [of l] all_states_UNIV [of s] all_states_UNIV [of t]
  unfolding distinct_map inj_on_def by blast

text \<open>
  The user can tell every outcome from every other: in each language the message of a state
  is its own text, taken from the table, and no two states share one.
\<close>

theorem ToString_distinguishes:
  assumes "l = 0 \<or> l = 1"
  shows "(fst (ToString E l s) = fst (ToString E l t) \<longleftrightarrow> s = t)
         \<and> (\<exists>t. map_of (lang_map l) (state_key s) = Some t \<and> fst (ToString E l s) = Inr t)"
proof -
  have "l \<noteq> -1" using assms by auto
  note T = ToString_template [OF this]
  show ?thesis
    using T [of E s] T [of E t] state_templates_inject [of l s t] state_templates [of l s]
    by auto
qed

theorem ToString_distinguishes_witness:
  "fst (ToString demo_env 1 TIMEOUT) = Inr ''Zeit abgelaufen.''
   \<and> fst (ToString demo_env 1 TIMEOUT) \<noteq> fst (ToString demo_env 1 CANCELED)"
  using ToString_distinguishes [of 1 demo_env TIMEOUT CANCELED]
  by (auto simp: state_key_def lang_map_def m_DeLangMap_def)

end
