(* ===== verification/BaseUnlockServer.thy ===== *)
theory BaseUnlockServer
  imports CryptCorrect UnlockState
begin

text \<open>
  \<^verbatim>\<open>common-cpp/src/connection/BaseUnlockServer.cpp\<close>: the state every unlock connection has,
  the unlock-info packet it sends to the phone and the evaluation of the phone's reply.
  The clock is an argument (\<open>now\<close>), JSON and OpenSSL are the records \<open>json_lib\<close> and
  \<open>host\<close>. An exception that leaves the thread function is the fault \<open>Terminate\<close>.
\<close>

section \<open>State\<close>

record UnlockResponseData =
  unlockToken :: string
  password :: string

text \<open>\<open>m_AcceptThread\<close> tells whether the thread object is joinable.\<close>

record server_base =
  m_IsRunning :: bool
  m_AcceptThread :: bool
  m_HasConnection :: bool
  m_UserName :: string
  m_UnlockState :: UnlockState
  m_PairedDevice :: PairedDevice
  m_ResponseData :: UnlockResponseData
  m_AuthUser :: string
  m_AuthProgram :: string
  m_UnlockToken :: string

definition no_response :: UnlockResponseData where
  "no_response = \<lparr>unlockToken = '''', password = ''''\<rparr>"

definition BaseUnlockServer_new :: "endian \<Rightarrow> (nat \<Rightarrow> bytes) \<Rightarrow> PairedDevice \<Rightarrow> server_base" where
  "BaseUnlockServer_new e draw device =
     \<lparr>m_IsRunning = False, m_AcceptThread = False, m_HasConnection = False, m_UserName = '''',
      m_UnlockState = UNKNOWN, m_PairedDevice = device, m_ResponseData = no_response,
      m_AuthUser = '''', m_AuthProgram = '''', m_UnlockToken = GetRandomString e draw 64\<rparr>"

definition BaseUnlockServer_delete :: "'s server_base_scheme \<Rightarrow> 's server_base_scheme" where
  "BaseUnlockServer_delete s = (if m_AcceptThread s then s\<lparr>m_AcceptThread := False\<rparr> else s)"

definition SetUnlockInfo :: "string \<Rightarrow> string \<Rightarrow> 's server_base_scheme \<Rightarrow> 's server_base_scheme" where
  "SetUnlockInfo authUser authProgram s = s\<lparr>m_AuthUser := authUser, m_AuthProgram := authProgram\<rparr>"

definition GetDevice :: "'s server_base_scheme \<Rightarrow> PairedDevice" where
  "GetDevice s = m_PairedDevice s"

definition GetResponseData :: "'s server_base_scheme \<Rightarrow> UnlockResponseData" where
  "GetResponseData s = m_ResponseData s"

definition HasClient :: "'s server_base_scheme \<Rightarrow> bool" where
  "HasClient s = m_HasConnection s"

definition PollResult :: "'s server_base_scheme \<Rightarrow> UnlockState" where
  "PollResult s = m_UnlockState s"

section \<open>The unlock-info packet\<close>

text \<open>The two JSON objects; \<^verbatim>\<open>nlohmann::json\<close> keeps the members in the order of the keys.\<close>

definition encServerData :: "'s server_base_scheme \<Rightarrow> json" where
  "encServerData s = JObj
     [(''authProgram'', JStr (m_AuthProgram s)), (''authUser'', JStr (m_AuthUser s)),
      (''unlockToken'', JStr (m_UnlockToken s))]"

definition serverData :: "'s server_base_scheme \<Rightarrow> string \<Rightarrow> json" where
  "serverData s encStr = JObj [(''encData'', JStr encStr), (''pairingId'', JStr (pairingId (m_PairedDevice s)))]"

definition GetUnlockInfoPacket ::
  "'x host \<Rightarrow> json_lib \<Rightarrow> 64 word \<Rightarrow> 's server_base_scheme \<Rightarrow> crypt_heap \<Rightarrow> fault + string \<times> crypt_heap" where
  "GetUnlockInfoPacket H J now s h =
     (case json_dump J (encServerData s) of
        None \<Rightarrow> Inl Terminate
      | Some encServerDataStr \<Rightarrow>
          bind_err (EncryptAESPacket H now (bytes_of encServerDataStr) (encryptionKey (m_PairedDevice s)) h)
            (\<lambda>(cryptResult, encLen, encData, h).
              case encData of
                None \<Rightarrow> Inr ('''', h)
              | Some d \<Rightarrow>
                  if cryptResult \<noteq> OK then Inr ('''', h)
                  else
                    let encStr = ToHexString (malloc_ok H (encLen * 2 + 1)) d;
                        h = buf_free h
                    in case json_dump J (serverData s encStr) of
                         None \<Rightarrow> Inl Terminate
                       | Some txt \<Rightarrow> Inr (txt, h)))"

section \<open>The reply\<close>

text \<open>The part of \<^verbatim>\<open>OnResponseReceived\<close> after a packet that did not decrypt.\<close>

definition plain_reply :: "PacketCryptResult \<Rightarrow> string \<Rightarrow> UnlockState" where
  "plain_reply cryptResult respStr =
     (if respStr = ''CANCEL'' then CANCELED
      else if respStr = ''NOT_PAIRED'' then NOT_PAIRED_ERROR
      else if respStr = ''ERROR'' then APP_ERROR
      else if respStr = ''TIME_ERROR'' then TIME_ERROR
      else case cryptResult of INVALID_TIMESTAMP \<Rightarrow> TIME_ERROR | _ \<Rightarrow> DATA_ERROR)"

text \<open>The part after one that did: the \<^verbatim>\<open>try\<close> block and its handler.\<close>

definition json_reply :: "json_lib \<Rightarrow> string \<Rightarrow> 's server_base_scheme \<Rightarrow> 's server_base_scheme" where
  "json_reply J dataStr s =
     (case bind_err (case json_parse J dataStr of None \<Rightarrow> Inl ParseError | Some j \<Rightarrow> Inr j) (\<lambda>j.
           bind_err (json_field_string j ''unlockToken'') (\<lambda>token.
           bind_err (json_field_string j ''password'') (\<lambda>pwd.
           Inr \<lparr>unlockToken = token, password = pwd\<rparr>))) of
        Inl _ \<Rightarrow> s\<lparr>m_UnlockState := DATA_ERROR\<rparr>
      | Inr response \<Rightarrow>
          let s = s\<lparr>m_ResponseData := response\<rparr>
          in if unlockToken response = m_UnlockToken s then s\<lparr>m_UnlockState := SUCCESS\<rparr>
             else s\<lparr>m_UnlockState := UNK_ERROR\<rparr>)"

definition OnResponseReceived ::
  "'x host \<Rightarrow> json_lib \<Rightarrow> 64 word \<Rightarrow> bytes \<Rightarrow> 's server_base_scheme \<Rightarrow> crypt_heap
   \<Rightarrow> fault + 's server_base_scheme \<times> crypt_heap" where
  "OnResponseReceived H J now buffer s h =
     (if buffer = [] then Inr (s\<lparr>m_UnlockState := DATA_ERROR\<rparr>, h)
      else
        bind_err (DecryptAESPacket H now (Some buffer) (encryptionKey (m_PairedDevice s)) h)
          (\<lambda>(cryptResult, decLen, decData, h).
            case decData of
              None \<Rightarrow> Inr (s\<lparr>m_UnlockState := plain_reply cryptResult (string_of buffer)\<rparr>, h)
            | Some d \<Rightarrow>
                if cryptResult \<noteq> OK
                then Inr (s\<lparr>m_UnlockState := plain_reply cryptResult (string_of buffer)\<rparr>, h)
                else Inr (json_reply J (string_of d) s, buf_free h)))"

section \<open>Lemmas\<close>

text \<open>What the evaluation of a reply leaves alone.\<close>

lemma json_reply_frame [frame_simps]:
  "m_IsRunning (json_reply J d s) = m_IsRunning s"
  "m_AcceptThread (json_reply J d s) = m_AcceptThread s"
  "m_HasConnection (json_reply J d s) = m_HasConnection s"
  "m_PairedDevice (json_reply J d s) = m_PairedDevice s"
  "m_UnlockToken (json_reply J d s) = m_UnlockToken s"
  "server_base.more (json_reply J d s) = server_base.more s"
  by (simp_all add: json_reply_def Let_def split: sum.split)

lemma OnResponseReceived_frame:
  assumes "OnResponseReceived H J now buf s h = Inr (s', h')"
  shows "m_IsRunning s' = m_IsRunning s" "m_HasConnection s' = m_HasConnection s"
    "m_AcceptThread s' = m_AcceptThread s" "m_PairedDevice s' = m_PairedDevice s"
    "m_UnlockToken s' = m_UnlockToken s" "server_base.more s' = server_base.more s"
  using assms
  by (auto simp: OnResponseReceived_def frame_simps elim!: bind_err_InrE split: if_split_asm option.split_asm)

text \<open>The reply of a decrypted text, as a relation to the JSON members.\<close>

definition reply_members :: "json_lib \<Rightarrow> string \<Rightarrow> UnlockResponseData option" where
  "reply_members J dataStr =
     (case json_parse J dataStr of
        Some (JObj kvs) \<Rightarrow>
          (case (map_of kvs ''unlockToken'', map_of kvs ''password'') of
             (Some (JStr t), Some (JStr p)) \<Rightarrow> Some \<lparr>unlockToken = t, password = p\<rparr>
           | _ \<Rightarrow> None)
      | _ \<Rightarrow> None)"

lemma json_reply_members:
  "json_reply J d s =
     (case reply_members J d of
        None \<Rightarrow> s\<lparr>m_UnlockState := DATA_ERROR\<rparr>
      | Some r \<Rightarrow> s\<lparr>m_ResponseData := r,
          m_UnlockState := if unlockToken r = m_UnlockToken s then SUCCESS else UNK_ERROR\<rparr>)"
proof (cases "json_parse J d")
  case None
  then show ?thesis by (simp add: json_reply_def reply_members_def)
next
  case (Some j)
  then show ?thesis
    by (cases j) (auto simp: json_reply_def reply_members_def json_field_string_def Let_def
        split: option.split json.split)
qed

text \<open>Packets shorter than vector and salt are never decrypted.\<close>

lemma DecryptAESPacket_short:
  "length pkt < 32 \<Longrightarrow> DecryptAESPacket H now (Some pkt) pwd h = Inr (OTHER_ERROR, 0, None, h)"
  by (simp add: DecryptAESPacket_def DecryptAES_refused)

lemma OnResponseReceived_short:
  assumes "buf \<noteq> []" "length buf < 32"
  shows "OnResponseReceived H J now buf s h =
           Inr (s\<lparr>m_UnlockState := plain_reply OTHER_ERROR (string_of buf)\<rparr>, h)"
  using assms by (simp add: OnResponseReceived_def DecryptAESPacket_short)

text \<open>The contract of \<^verbatim>\<open>OnResponseReceived\<close> on packets the cipher is applied to.\<close>

definition reply_spec ::
  "'x host \<Rightarrow> json_lib \<Rightarrow> 64 word \<Rightarrow> bytes \<Rightarrow> 's server_base_scheme \<Rightarrow> 's server_base_scheme" where
  "reply_spec H J now buf s =
     (case receive_spec H now buf (c_str (encryptionKey (m_PairedDevice s))) of
        (r, None) \<Rightarrow> s\<lparr>m_UnlockState := plain_reply r (string_of buf)\<rparr>
      | (_, Some d) \<Rightarrow> json_reply J (string_of d) s)"

lemma receive_spec_OK: "fst (receive_spec H now pkt pwd) = OK \<longleftrightarrow> snd (receive_spec H now pkt pwd) \<noteq> None"
  by (simp add: receive_spec_def split: option.split)

lemma buf_alloc_free [simp]: "buf_free (buf_alloc h) = h"
  by (simp add: heap_defs)

lemma OnResponseReceived_eq:
  assumes ok: "openssl_ok H" and len: "48 \<le> length buf" "length buf < 2 ^ 31"
  shows "OnResponseReceived H J now buf s h = Inr (reply_spec H J now buf s, h)"
proof -
  define k where "k = encryptionKey (m_PairedDevice s)"
  obtain n where d: "DecryptAESPacket H now (Some buf) k h =
           Inr (fst (receive_spec H now buf (c_str k)), n, snd (receive_spec H now buf (c_str k)),
                if fst (receive_spec H now buf (c_str k)) = OK then buf_alloc h else h)"
    using DecryptAESPacket_eq [OF ok len] by blast
  obtain r out where ro: "receive_spec H now buf (c_str k) = (r, out)" by force
  have "buf \<noteq> []" using len by auto
  then show ?thesis
    using d ro receive_spec_OK [of H now buf "c_str k"]
    by (cases out) (simp_all add: OnResponseReceived_def reply_spec_def k_def [symmetric])
qed

section \<open>What the protocol promises\<close>

text \<open>
  The password a reply brings, if it is to be accepted: the packet authenticates under the
  device's key, is fresh, and its JSON text repeats the token of this very connection.
\<close>

definition accepted ::
  "'x host \<Rightarrow> json_lib \<Rightarrow> 64 word \<Rightarrow> bytes \<Rightarrow> 's server_base_scheme \<Rightarrow> string option" where
  "accepted H J now buf s =
     (if length buf < 48 then None
      else case receive_spec H now buf (c_str (encryptionKey (m_PairedDevice s))) of
        (_, None) \<Rightarrow> None
      | (_, Some d) \<Rightarrow>
          (case reply_members J (string_of d) of
             None \<Rightarrow> None
           | Some r \<Rightarrow> if unlockToken r = m_UnlockToken s then Some (password r) else None))"

lemma plain_reply_not_success [simp]: "plain_reply r t \<noteq> SUCCESS"
  by (simp add: plain_reply_def split: PacketCryptResult.split)

lemma reply_accepted:
  assumes ok: "openssl_ok H" and len: "length buf < 32 \<or> 48 \<le> length buf" "length buf < 2 ^ 31"
  shows "\<exists>s'. OnResponseReceived H J now buf s h = Inr (s', h)
           \<and> (m_UnlockState s' = SUCCESS \<longleftrightarrow> accepted H J now buf s \<noteq> None)
           \<and> (case accepted H J now buf s of None \<Rightarrow> True
              | Some p \<Rightarrow> m_ResponseData s' = \<lparr>unlockToken = m_UnlockToken s, password = p\<rparr>)"
proof (cases "length buf < 32")
  case True
  then show ?thesis
    by (cases "buf = []")
       (simp add: OnResponseReceived_def accepted_def, simp add: OnResponseReceived_short accepted_def)
next
  case False
  with len have "48 \<le> length buf" by simp
  note eq = OnResponseReceived_eq [OF ok this len(2), of J now s h]
  obtain r out where ro: "receive_spec H now buf (c_str (encryptionKey (m_PairedDevice s))) = (r, out)"
    by force
  show ?thesis
    using eq \<open>48 \<le> length buf\<close>
    by (auto simp: reply_spec_def accepted_def ro json_reply_members split: option.split)
qed


definition demo_base :: server_base where
  "demo_base = SetUnlockInfo ''alice'' ''sudo''
     (BaseUnlockServer_new LittleEndian (\<lambda>i. [word_of_nat i, 0, 0, 0]) demo_device)"


text \<open>
  C26: a reply in plain text, which anyone on the network can send, has exactly the four
  effects the protocol gives it, independent of key, clock and cipher; any other text
  shorter than a packet is a data error, and none of them reports success or brings a
  password.
\<close>

theorem plain_replies_refuse:
  "OnResponseReceived H J now (bytes_of ''CANCEL'') s h = Inr (s\<lparr>m_UnlockState := CANCELED\<rparr>, h)
   \<and> OnResponseReceived H J now (bytes_of ''NOT_PAIRED'') s h = Inr (s\<lparr>m_UnlockState := NOT_PAIRED_ERROR\<rparr>, h)
   \<and> OnResponseReceived H J now (bytes_of ''ERROR'') s h = Inr (s\<lparr>m_UnlockState := APP_ERROR\<rparr>, h)
   \<and> OnResponseReceived H J now (bytes_of ''TIME_ERROR'') s h = Inr (s\<lparr>m_UnlockState := TIME_ERROR\<rparr>, h)
   \<and> (txt \<in> {''CANCEL'', ''NOT_PAIRED'', ''ERROR'', ''TIME_ERROR''} \<or> 32 \<le> length txt
      \<or> OnResponseReceived H J now (bytes_of txt) s h = Inr (s\<lparr>m_UnlockState := DATA_ERROR\<rparr>, h))"
proof (intro conjI)
  show "txt \<in> {''CANCEL'', ''NOT_PAIRED'', ''ERROR'', ''TIME_ERROR''} \<or> 32 \<le> length txt
      \<or> OnResponseReceived H J now (bytes_of txt) s h = Inr (s\<lparr>m_UnlockState := DATA_ERROR\<rparr>, h)"
  proof (cases "txt = ''''")
    case True
    then show ?thesis by (simp add: OnResponseReceived_def)
  next
    case False
    then show ?thesis
      by (cases "32 \<le> length txt") (auto simp: OnResponseReceived_short plain_reply_def)
  qed
qed (simp_all add: OnResponseReceived_short plain_reply_def)

text \<open>The packet a connection sends, seen from the phone.\<close>

lemma string_members_info: "string_members [(''authProgram'', JStr a), (''authUser'', JStr b), (''unlockToken'', JStr c)]"
  by (simp add: string_members_def less_char_def)

lemma string_members_server: "string_members [(''encData'', JStr a), (''pairingId'', JStr b)]"
  by (simp add: string_members_def less_char_def)

lemma GetUnlockInfoPacket_sends:
  assumes "GetUnlockInfoPacket H J now s h = Inr (txt, h')" and "txt \<noteq> ''''"
  obtains info n pkt h1 where "json_dump J (encServerData s) = Some info"
    "EncryptAESPacket H now (bytes_of info) (encryptionKey (m_PairedDevice s)) h = Inr (OK, n, Some pkt, h1)"
    "json_dump J (serverData s (ToHexString (malloc_ok H (n * 2 + 1)) pkt)) = Some txt" "h' = buf_free h1"
  using assms
  by (auto simp: GetUnlockInfoPacket_def Let_def split: option.split_asm if_split_asm elim!: bind_err_InrE)

lemma info_reaches_phone:
  assumes ok: "openssl_ok H" and J: "json_ok J" and mem: "\<And>n. malloc_ok H n"
    and info: "json_dump J (encServerData s) = Some info" "length info \<le> 968"
    and sent: "GetUnlockInfoPacket H J t0 s h = Inr (txt, h')" "txt \<noteq> ''''"
    and t: "fresh p t1 t0"
  obtains kvs encStr pkt k kvs' where
    "json_parse J txt = Some (JObj kvs)" "map_of kvs ''pairingId'' = Some (JStr (pairingId (m_PairedDevice s)))"
    "map_of kvs ''encData'' = Some (JStr encStr)" "from_hex (c_str encStr) = Some pkt"
    "DecryptAESPacket (H\<lparr>byte_order := e, build := p\<rparr>) t1 (Some pkt) (encryptionKey (m_PairedDevice s)) hp
       = Inr (OK, k, Some (bytes_of info), buf_alloc hp)"
    "json_parse J info = Some (JObj kvs')" "map_of kvs' ''authUser'' = Some (JStr (m_AuthUser s))"
    "map_of kvs' ''authProgram'' = Some (JStr (m_AuthProgram s))"
    "map_of kvs' ''unlockToken'' = Some (JStr (m_UnlockToken s))"
proof -
  define key where "key = encryptionKey (m_PairedDevice s)"
  obtain n pkt h1 where enc: "EncryptAESPacket H t0 (bytes_of info) key h = Inr (OK, n, Some pkt, h1)"
    and d: "json_dump J (serverData s (ToHexString True pkt)) = Some txt"
  proof (rule GetUnlockInfoPacket_sends [OF sent])
    fix info' n pkt h1
    assume a: "json_dump J (encServerData s) = Some info'"
      "EncryptAESPacket H t0 (bytes_of info') (encryptionKey (m_PairedDevice s)) h = Inr (OK, n, Some pkt, h1)"
      "json_dump J (serverData s (ToHexString (malloc_ok H (n * 2 + 1)) pkt)) = Some txt"
    with info(1) mem show thesis by (intro that [of n pkt h1]) (simp_all add: key_def)
  qed
  obtain kvs' where i: "info \<noteq> ''''" "json_parse J info = Some (JObj kvs')"
    "map_of kvs' = map_of [(''authProgram'', JStr (m_AuthProgram s)), (''authUser'', JStr (m_AuthUser s)),
        (''unlockToken'', JStr (m_UnlockToken s))]"
    using json_okD [OF J string_members_info info(1) [unfolded encServerData_def]] by metis
  obtain kvs where o: "json_parse J txt = Some (JObj kvs)"
    "map_of kvs = map_of [(''encData'', JStr (ToHexString True pkt)), (''pairingId'', JStr (pairingId (m_PairedDevice s)))]"
    using json_okD [OF J string_members_server d [unfolded serverData_def]] by metis
  have "length pkt = length info + 56"
    using EncryptAESPacket_OK [OF ok _ enc] info(2) by (metis length_bytes_of option.inject)
  then have "pkt \<noteq> []" by auto
  then have hex: "from_hex (c_str (ToHexString True pkt)) = Some pkt"
    by (simp add: ToHexString_def c_str_append_nul [OF hex_bytes_no_nul] from_hex_bytes)
  obtain k where "DecryptAESPacket (H\<lparr>byte_order := e, build := p\<rparr>) t1 (Some pkt) key hp
       = Inr (OK, k, Some (bytes_of info), buf_alloc hp)"
    using packet_reopens [OF ok _ _ enc t, of e hp] info(2) i(1) mem by auto
  then show thesis using that [OF o(1) _ _ hex _ i(2)] o(2) i(3) by (simp add: key_def)
qed

text \<open>
  C20: the phone learns what it has to decide on: a packet \<^verbatim>\<open>GetUnlockInfoPacket\<close> returns
  parses to an object that names the pairing and carries hexadecimal data; these decode to
  a packet that opens under the device's key, on a phone of either byte order whose clock
  is within the time-out, to the user, the program and the token of this connection.
\<close>

theorem unlock_info_reaches_phone:
  assumes "openssl_ok H" and "\<And>n. malloc_ok H n"
    and "json_dump (nlohmann C F) (encServerData s) = Some info" "length info \<le> 968"
    and "GetUnlockInfoPacket H (nlohmann C F) t0 s h = Inr (txt, h')" "txt \<noteq> ''''"
    and "fresh p t1 t0"
  shows "\<exists>kvs encStr pkt k kvs'.
           json_parse (nlohmann C F) txt = Some (JObj kvs)
         \<and> map_of kvs ''pairingId'' = Some (JStr (pairingId (m_PairedDevice s)))
         \<and> map_of kvs ''encData'' = Some (JStr encStr) \<and> from_hex (c_str encStr) = Some pkt
         \<and> DecryptAESPacket (H\<lparr>byte_order := e, build := p\<rparr>) t1 (Some pkt) (encryptionKey (m_PairedDevice s)) hp
             = Inr (OK, k, Some (bytes_of info), buf_alloc hp)
         \<and> json_parse (nlohmann C F) info = Some (JObj kvs') \<and> map_of kvs' ''authUser'' = Some (JStr (m_AuthUser s))
         \<and> map_of kvs' ''authProgram'' = Some (JStr (m_AuthProgram s))
         \<and> map_of kvs' ''unlockToken'' = Some (JStr (m_UnlockToken s))"
  by (rule info_reaches_phone [OF assms(1) nlohmann_ok assms(2-), of e hp]) blast

text \<open>An unlock-info packet on the concrete host.\<close>

lemma hex_digits_ascii: "list_all (\<lambda>n. code (hex_digit n) \<le> 0x7F) [0..<16]"
  by (simp add: hex_digit_def upt_rec)

lemma ToHexString_ascii: "valid_utf8 (ToHexString ok data)"
proof (rule valid_ascii)
  have "unat b div 16 < 16" for b :: byte using byte_nibbles [of b] by simp
  then have "code (hex_digit (unat b div 16)) \<le> 0x7F" "code (hex_digit (unat b mod 16)) \<le> 0x7F" for b :: byte
    using hex_digits_ascii by (simp_all add: list_all_iff)
  then show "list_all (\<lambda>c. code c \<le> 0x7F) (ToHexString ok data)"
    by (auto simp: ToHexString_def hex_byte_def list_all_iff)
qed

lemma demo_info_sent:
  assumes "json_dump demo_json (encServerData s) = Some info" "length info \<le> 968"
    and "valid_utf8 (pairingId (m_PairedDevice s))"
  shows "\<exists>txt. GetUnlockInfoPacket demo_host demo_json t s h = Inr (txt, rand_tick (rand_tick h)) \<and> txt \<noteq> ''''"
proof -
  obtain pkt where e: "EncryptAESPacket demo_host t (bytes_of info) (encryptionKey (m_PairedDevice s)) h
      = Inr (OK, length (bytes_of info) + 56, Some pkt, buf_alloc (rand_tick (rand_tick h)))"
    using demo_sends [of "bytes_of info"] assms(2) by fastforce
  have "valid_utf8 ''encData''" "valid_utf8 ''pairingId''" by (rule valid_ascii, simp)+
  then have "plain_json (serverData s (ToHexString True pkt))"
    using assms(3) ToHexString_ascii [of True pkt]
    by (simp add: serverData_def less_char_def del: valid_utf8.simps)
  note demo_json_dump [OF this]
  moreover have "json_text (serverData s (ToHexString True pkt)) \<noteq> ''''" by (simp add: serverData_def)
  ultimately show ?thesis using e assms(1) by (simp add: GetUnlockInfoPacket_def)
qed

definition short_base :: server_base where
  "short_base = demo_base\<lparr>m_UnlockToken := ''T0''\<rparr>"

lemma short_base_fields [simp]:
  "m_AuthUser short_base = ''alice''" "m_AuthProgram short_base = ''sudo''" "m_UnlockToken short_base = ''T0''"
  "m_PairedDevice short_base = demo_device"
  by (simp_all add: short_base_def demo_base_def SetUnlockInfo_def BaseUnlockServer_new_def)

definition info_json :: json where
  "info_json = JObj [(''authProgram'', JStr ''sudo''), (''authUser'', JStr ''alice''), (''unlockToken'', JStr ''T0'')]"

lemma info_json_plain: "plain_json info_json" "length (json_text info_json) \<le> 300"
  by code_simp+

lemma short_base_info:
  "json_dump demo_json (encServerData short_base) = Some (json_text info_json)"
  using demo_json_dump [OF info_json_plain(1)] by (simp add: encServerData_def info_json_def)

lemma demo_device_id: "valid_utf8 (pairingId demo_device)"
  by code_simp

theorem unlock_info_reaches_phone_witness:
  "\<exists>txt kvs. GetUnlockInfoPacket demo_host demo_json 1000 short_base empty_heap
                = Inr (txt, rand_tick (rand_tick empty_heap))
     \<and> json_parse demo_json txt = Some (JObj kvs) \<and> map_of kvs ''pairingId'' = Some (JStr ''p1'')"
proof -
  obtain msg where t: "GetUnlockInfoPacket demo_host demo_json 1000 short_base empty_heap
      = Inr (msg, rand_tick (rand_tick empty_heap))" "msg \<noteq> ''''"
    using demo_info_sent [OF short_base_info, of 1000 empty_heap] info_json_plain(2) demo_device_id by auto
  have f: "fresh Linux 2000 1000" by (simp add: fresh_def PACKET_TIMEOUT_def)
  have i: "pairingId demo_device = ''p1''" by (simp add: demo_device_def)
  have d: "json_dump (nlohmann demo_c (\<lambda>_. ''0.0'')) (encServerData short_base) = Some (json_text info_json)"
    using short_base_info by (simp only: demo_json_def)
  have "length (json_text info_json) \<le> 968" using info_json_plain(2) by simp
  from unlock_info_reaches_phone [OF demo_ok demo_malloc d this t [unfolded demo_json_def] f, of LittleEndian empty_heap] t i
  show ?thesis unfolding demo_json_def by (metis short_base_fields(4))
qed

text \<open>
  \<^verbatim>\<open>GetUnlockInfoPacket\<close> releases what it allocated on every path, a failed encryption
  included, and so does the evaluation of a reply.
\<close>

theorem connection_releases_all:
  "(GetUnlockInfoPacket H J now s h = Inr (txt, h') \<longrightarrow>
      keys_live h' = keys_live h \<and> ctxs_live h' = ctxs_live h \<and> bufs_live h' = bufs_live h)
   \<and> (OnResponseReceived H J now buf s h = Inr (s', h') \<longrightarrow>
      keys_live h' = keys_live h \<and> ctxs_live h' = ctxs_live h \<and> bufs_live h' = bufs_live h)"
  by (auto simp: GetUnlockInfoPacket_def OnResponseReceived_def Let_def balanced_def buf_free_def
      split: option.split_asm if_split_asm elim!: bind_err_InrE
      dest!: EncryptAESPacket_balanced DecryptAESPacket_balanced)

theorem connection_releases_all_witness:
  "\<exists>txt h'. GetUnlockInfoPacket demo_host demo_json 1000 short_base empty_heap = Inr (txt, h')
     \<and> bufs_live h' = 0 \<and> ctxs_live h' = 0 \<and> keys_live h' = 0"
proof -
  obtain msg where "GetUnlockInfoPacket demo_host demo_json 1000 short_base empty_heap
      = Inr (msg, rand_tick (rand_tick empty_heap))" "msg \<noteq> ''''"
    using demo_info_sent [OF short_base_info, of 1000 empty_heap] info_json_plain(2) demo_device_id by auto
  then show ?thesis
    using connection_releases_all [of demo_host demo_json 1000 short_base empty_heap msg
        "rand_tick (rand_tick empty_heap)" "[]"]
    by (simp add: empty_heap_def)
qed

end
