(* ===== verification/PacketIO.thy ===== *)
theory PacketIO
  imports Prelude
begin

text \<open>
  The framing that \<^verbatim>\<open>TCPUnlockClient\<close> and \<^verbatim>\<open>BTUnlockClient\<close> put on a stream socket: a
  16-bit length in network byte order, then the data. A socket is a \<open>stream\<close>: the bytes
  the peer has sent, the bytes sent to it, and how the kernel cuts both up. The number of
  bytes each call delivers or accepts is arbitrary (\<open>rd_sizes\<close>, \<open>wr_sizes\<close>), so a statement
  about every stream is one about every fragmentation.
\<close>

section \<open>Stream sockets\<close>

record stream =
  incoming :: bytes
  rd_sizes :: "nat list"
  outgoing :: bytes
  wr_sizes :: "nat list"

text \<open>
  \<^verbatim>\<open>read(fd, buf, n)\<close>: \<open>None\<close> is a result of 0 or -1 (end of stream or error, to which the
  code reacts in the same way).
\<close>

definition sock_read :: "nat \<Rightarrow> stream \<Rightarrow> bytes option \<times> stream" where
  "sock_read n s =
     (case rd_sizes s of
        [] \<Rightarrow> (None, s)
      | k # ks \<Rightarrow>
          let m = min n (min k (length (incoming s)))
          in if m = 0 then (None, s\<lparr>rd_sizes := ks\<rparr>)
             else (Some (take m (incoming s)), s\<lparr>incoming := drop m (incoming s), rd_sizes := ks\<rparr>))"

text \<open>\<^verbatim>\<open>write(fd, bs, len)\<close>: the number of bytes accepted, 0 also for an error.\<close>

definition sock_write :: "bytes \<Rightarrow> stream \<Rightarrow> nat \<times> stream" where
  "sock_write bs s =
     (case wr_sizes s of
        [] \<Rightarrow> (0, s)
      | k # ks \<Rightarrow>
          let m = min k (length bs)
          in (m, s\<lparr>outgoing := outgoing s @ take m bs, wr_sizes := ks\<rparr>))"

lemma sock_read_Some:
  assumes "sock_read n s = (Some bs, s')"
  shows "bs \<noteq> []" "length bs \<le> n" "incoming s = bs @ incoming s'"
    "length (rd_sizes s') < length (rd_sizes s)" "outgoing s' = outgoing s" "wr_sizes s' = wr_sizes s"
  using assms by (auto simp: sock_read_def Let_def min_def split: list.split_asm if_split_asm)

lemma sock_read_None_outgoing:
  "sock_read n s = (None, s') \<Longrightarrow> outgoing s' = outgoing s \<and> incoming s' = incoming s"
  by (auto simp: sock_read_def Let_def split: list.split_asm if_split_asm)

lemma sock_write_length: "sock_write bs s = (m, s') \<Longrightarrow> 0 < m \<Longrightarrow> length (wr_sizes s') < length (wr_sizes s)"
  by (auto simp: sock_write_def Let_def split: list.split_asm)

section \<open>Byte order\<close>

text \<open>
  \<^verbatim>\<open>htons\<close> gives the value whose memory image is the big-endian image of its argument,
  \<^verbatim>\<open>ntohs\<close> reads a memory image as a big-endian number.
\<close>

definition htons :: "endian \<Rightarrow> 16 word \<Rightarrow> 16 word" where
  "htons e v = word_of_nat (mem_load e (be_bytes 2 (unat v)))"

definition ntohs :: "endian \<Rightarrow> 16 word \<Rightarrow> 16 word" where
  "ntohs e v = word_of_nat (be_nat (mem_store e 2 (unat v)))"

section \<open>Receiving\<close>

text \<open>
  Both loops of \<^verbatim>\<open>ReadPacket\<close>: \<open>got\<close> is the \<^verbatim>\<open>uint16_t\<close> counter, which wraps.
  A failed call returns from the function (\<open>None\<close>).
\<close>

function read_loop :: "16 word \<Rightarrow> 16 word \<Rightarrow> bytes \<Rightarrow> stream \<Rightarrow> fault + bytes option \<times> stream" where
  "read_loop target got buffer s =
     (if got < target
      then case sock_read (unat target - unat got) s of
             (None, s) \<Rightarrow> Inr (None, s)
           | (Some bs, s) \<Rightarrow>
               (case buf_write buffer (unat got) bs of
                  Inl f \<Rightarrow> Inl f
                | Inr buffer \<Rightarrow> read_loop target (got + word_of_nat (length bs)) buffer s)
      else Inr (Some buffer, s))"
  by pat_completeness auto
termination
  by (relation "measure (\<lambda>(target, got, buffer, s). length (rd_sizes s))")
     (auto dest: sock_read_Some(4) [OF sym])

declare read_loop.simps [simp del]

section \<open>Sending\<close>

text \<open>Both loops of \<^verbatim>\<open>WritePacket\<close>; the result tells whether all bytes were accepted.\<close>

function write_loop :: "bytes \<Rightarrow> nat \<Rightarrow> stream \<Rightarrow> bool \<times> stream" where
  "write_loop data bytesWritten s =
     (if bytesWritten < length data
      then case sock_write (drop bytesWritten data) s of
             (result, s) \<Rightarrow> if result = 0 then (False, s) else write_loop data (bytesWritten + result) s
      else (True, s))"
  by pat_completeness auto
termination
  by (relation "measure (\<lambda>(data, n, s). length (wr_sizes s))") (auto dest: sock_write_length [OF sym])

declare write_loop.simps [simp del]

section \<open>Lemmas on the loops\<close>

lemma unat_le_16: "unat (w :: 16 word) < 65536"
  using unsigned_less [of w, where 'a = nat] by simp

lemma unat_add_16: "unat (g :: 16 word) + n < 65536 \<Longrightarrow> unat (g + word_of_nat n) = unat g + n"
  by (simp add: unat_word_ariths unat_of_nat)

text \<open>
  The receiving loop never writes outside its buffer and its counter never wraps: it fills
  the buffer with the next bytes of the stream, or gives up.
\<close>

lemma read_loop_result:
  assumes "length buffer = unat target" "got \<le> target"
  shows "\<exists>r s'. read_loop target got buffer s = Inr (r, s') \<and> outgoing s' = outgoing s \<and> wr_sizes s' = wr_sizes s \<and>
           (case r of None \<Rightarrow> True
            | Some out \<Rightarrow> \<exists>bs. out = take (unat got) buffer @ bs \<and> length out = unat target
                             \<and> incoming s = bs @ incoming s')"
  using assms
proof (induction target got buffer s rule: read_loop.induct)
  case (1 target got buffer s)
  show ?case
  proof (cases "got < target")
    case False
    then have "read_loop target got buffer s = Inr (Some buffer, s)" by (subst read_loop.simps) simp
    with False "1.prems" show ?thesis by simp
  next
    case True
    obtain r s1 where r: "sock_read (unat target - unat got) s = (r, s1)" by force
    show ?thesis
    proof (cases r)
      case None
      with r True show ?thesis
        by (auto simp: read_loop.simps [of target got] sock_read_def Let_def split: list.splits if_splits)
    next
      case (Some bs)
      note sr = sock_read_Some [OF r [unfolded Some]]
      define buf' where "buf' = take (unat got) buffer @ bs @ drop (unat got + length bs) buffer"
      have lt: "unat got < unat target" using True by (simp add: word_less_nat_alt)
      have w: "buf_write buffer (unat got) bs = Inr buf'"
        using sr "1.prems" lt by (simp add: buf_write_ok buf'_def)
      have g: "unat (got + word_of_nat (length bs)) = unat got + length bs"
        using sr lt unat_le_16 [of target] by (intro unat_add_16) linarith
      have len: "length buf' = unat target" using sr "1.prems" lt by (simp add: buf'_def)
      have le: "got + word_of_nat (length bs) \<le> target"
        using g sr lt by (simp add: word_le_nat_alt)
      have tk: "take (unat got + length bs) buf' = take (unat got) buffer @ bs"
        using "1.prems" lt by (simp add: buf'_def)
      have eq: "read_loop target got buffer s = read_loop target (got + word_of_nat (length bs)) buf' s1"
        using True r Some w by (subst read_loop.simps) simp
      obtain r' s' where "read_loop target (got + word_of_nat (length bs)) buf' s1 = Inr (r', s')"
        "outgoing s' = outgoing s1" "wr_sizes s' = wr_sizes s1"
        "case r' of None \<Rightarrow> True
           | Some out \<Rightarrow> \<exists>bs'. out = take (unat (got + word_of_nat (length bs))) buf' @ bs' \<and> length out = unat target
               \<and> incoming s1 = bs' @ incoming s'"
        using "1.IH" [OF True r [symmetric] Some w len le] by blast
      with sr tk [folded g] show ?thesis by (auto simp: eq split: option.splits)
    qed
  qed
qed

text \<open>It does not give up if the stream holds enough bytes and no call fails.\<close>

lemma read_loop_total:
  assumes "length buffer = unat target" "got \<le> target"
    and "unat target - unat got \<le> length (incoming s)"
    and "unat target - unat got \<le> length (rd_sizes s)" "list_all (\<lambda>k. 0 < k) (rd_sizes s)"
  shows "\<exists>out s'. read_loop target got buffer s = Inr (Some out, s')
           \<and> length (rd_sizes s) - (unat target - unat got) \<le> length (rd_sizes s') \<and> list_all (\<lambda>k. 0 < k) (rd_sizes s')"
  using assms
proof (induction target got buffer s rule: read_loop.induct)
  case (1 target got buffer s)
  show ?case
  proof (cases "got < target")
    case False
    then have "read_loop target got buffer s = Inr (Some buffer, s)" by (subst read_loop.simps) simp
    with False "1.prems" show ?thesis by simp
  next
    case True
    then have lt: "unat got < unat target" by (simp add: word_less_nat_alt)
    then obtain k ks where ks: "rd_sizes s = k # ks" using "1.prems"(4) by (cases "rd_sizes s") auto
    define m where "m = min (unat target - unat got) (min k (length (incoming s)))"
    define s1 where "s1 = s\<lparr>incoming := drop m (incoming s), rd_sizes := ks\<rparr>"
    have m: "0 < m" "m \<le> unat target - unat got" "m \<le> length (incoming s)"
      using lt "1.prems"(3,5) ks by (auto simp: m_def)
    have r: "sock_read (unat target - unat got) s = (Some (take m (incoming s)), s1)"
      using ks m unfolding sock_read_def m_def [symmetric] s1_def by (simp add: m_def [symmetric])
    note sr = sock_read_Some [OF r]
    obtain buf' where w: "buf_write buffer (unat got) (take m (incoming s)) = Inr buf'" "length buf' = unat target"
      using m lt "1.prems"(1) by (simp add: buf_write_ok)
    have g: "unat (got + word_of_nat m) = unat got + m"
      using m lt unat_le_16 [of target] by (intro unat_add_16) linarith
    have le: "got + word_of_nat m \<le> target" using g m lt by (simp add: word_le_nat_alt)
    have eq: "read_loop target got buffer s = read_loop target (got + word_of_nat m) buf' s1"
      using True r w m by (subst read_loop.simps) simp
    have pre: "unat target - unat (got + word_of_nat m) \<le> length (incoming s1)"
      "unat target - unat (got + word_of_nat m) \<le> length (rd_sizes s1)" "list_all (\<lambda>k. 0 < k) (rd_sizes s1)"
      using m "1.prems"(3-5) ks unfolding g by (simp_all add: s1_def)
    have l: "length (take m (incoming s)) = m" using m by simp
    obtain out s' where "read_loop target (got + word_of_nat m) buf' s1 = Inr (Some out, s')"
      "length (rd_sizes s1) - (unat target - unat (got + word_of_nat m)) \<le> length (rd_sizes s')"
      "list_all (\<lambda>k. 0 < k) (rd_sizes s')"
      using "1.IH" [OF True r [symmetric] refl w(1), unfolded l, OF w(2) le pre] by blast
    moreover have "length (rd_sizes s) - (unat target - unat got)
        \<le> length (rd_sizes s1) - (unat target - unat (got + word_of_nat m))"
      using g m ks by (simp add: s1_def)
    ultimately have "read_loop target got buffer s = Inr (Some out, s')"
      "length (rd_sizes s) - (unat target - unat got) \<le> length (rd_sizes s')" "list_all (\<lambda>k. 0 < k) (rd_sizes s')"
      unfolding eq by linarith+
    then show ?thesis by blast
  qed
qed

lemma write_loop_total:
  assumes "length data - n \<le> length (wr_sizes s)" "list_all (\<lambda>k. 0 < k) (wr_sizes s)"
  shows "\<exists>s'. write_loop data n s = (True, s') \<and> outgoing s' = outgoing s @ drop n data \<and> incoming s' = incoming s
           \<and> rd_sizes s' = rd_sizes s \<and> length (wr_sizes s) - (length data - n) \<le> length (wr_sizes s')
           \<and> list_all (\<lambda>k. 0 < k) (wr_sizes s')"
  using assms
proof (induction data n s rule: write_loop.induct)
  case (1 data n s)
  show ?case
  proof (cases "n < length data")
    case False
    then show ?thesis using "1.prems" by (simp add: write_loop.simps [of data n])
  next
    case True
    then obtain k ks where ks: "wr_sizes s = k # ks" using "1.prems"(1) by (cases "wr_sizes s") auto
    define m where "m = min k (length (drop n data))"
    define s1 where "s1 = s\<lparr>outgoing := outgoing s @ take m (drop n data), wr_sizes := ks\<rparr>"
    have m: "0 < m" "m \<le> length data - n" using True "1.prems"(2) ks by (auto simp: m_def)
    have r: "sock_write (drop n data) s = (m, s1)"
      using ks by (simp add: sock_write_def m_def s1_def Let_def)
    have eq: "write_loop data n s = write_loop data (n + m) s1"
      using True r m by (subst write_loop.simps) simp
    have "take m (drop n data) @ drop (n + m) data = drop n data"
      by (metis add.commute append_take_drop_id drop_drop)
    moreover have pre: "length data - (n + m) \<le> length (wr_sizes s1)" "list_all (\<lambda>k. 0 < k) (wr_sizes s1)"
      using m ks "1.prems" by (simp_all add: s1_def)
    moreover obtain s' where "write_loop data (n + m) s1 = (True, s')"
      "outgoing s' = outgoing s1 @ drop (n + m) data" "incoming s' = incoming s1" "rd_sizes s' = rd_sizes s1"
      "length (wr_sizes s1) - (length data - (n + m)) \<le> length (wr_sizes s')" "list_all (\<lambda>k. 0 < k) (wr_sizes s')"
      using "1.IH" [OF True r [symmetric] _ pre] m by blast
    moreover have "length (wr_sizes s) - (length data - n) \<le> length (wr_sizes s1) - (length data - (n + m))"
      using m ks by (simp add: s1_def)
    ultimately show ?thesis unfolding eq by (simp add: s1_def)
  qed
qed

section \<open>Packets\<close>

text \<open>\<^verbatim>\<open>TCPUnlockClient::ReadPacket\<close> and \<^verbatim>\<open>WritePacket\<close>; the empty vector reports a failure.\<close>

definition ReadPacket :: "endian \<Rightarrow> stream \<Rightarrow> fault + bytes \<times> stream" where
  "ReadPacket e s =
     bind_err (read_loop 2 0 (replicate 2 0) s) (\<lambda>(r, s).
     case r of
       None \<Rightarrow> Inr ([], s)
     | Some lenBuffer \<Rightarrow>
         let packetSize = ntohs e (word_of_nat (mem_load e lenBuffer))
         in if packetSize = 0 then Inr ([], s)
            else
              bind_err (read_loop packetSize 0 (replicate (unat packetSize) 0) s) (\<lambda>(r, s).
              case r of None \<Rightarrow> Inr ([], s) | Some buffer \<Rightarrow> Inr (buffer, s)))"

definition WritePacket :: "endian \<Rightarrow> bytes \<Rightarrow> stream \<Rightarrow> stream" where
  "WritePacket e data s =
     (let packetSize = htons e (word_of_nat (length data)) in
      case write_loop (mem_store e 2 (unat packetSize)) 0 s of
        (False, s) \<Rightarrow> s
      | (True, s) \<Rightarrow> snd (write_loop data 0 s))"

text \<open>Writing does not touch the receiving side.\<close>

lemma write_loop_keeps:
  "incoming (snd (write_loop data n s)) = incoming s \<and> rd_sizes (snd (write_loop data n s)) = rd_sizes s"
proof (induction data n s rule: write_loop.induct)
  case (1 data n s)
  obtain m s1 where w: "sock_write (drop n data) s = (m, s1)" by force
  then have k: "incoming s1 = incoming s" "rd_sizes s1 = rd_sizes s"
    by (auto simp: sock_write_def Let_def split: list.split_asm)
  show ?case
    using 1 [OF _ w [symmetric]] w k
    by (cases "n < length data \<and> m \<noteq> 0") (auto simp: write_loop.simps [of data n s])
qed

lemma WritePacket_keeps:
  "incoming (WritePacket e data s) = incoming s" "rd_sizes (WritePacket e data s) = rd_sizes s"
proof -
  obtain r s1 where w: "write_loop (mem_store e 2 (unat (htons e (word_of_nat (length data))))) 0 s = (r, s1)"
    by force
  have "incoming s1 = incoming s \<and> rd_sizes s1 = rd_sizes s"
    using write_loop_keeps [of "mem_store e 2 (unat (htons e (word_of_nat (length data))))" 0 s] w by simp
  then show "incoming (WritePacket e data s) = incoming s" "rd_sizes (WritePacket e data s) = rd_sizes s"
    using w write_loop_keeps [of data 0 s1] by (cases r; simp add: WritePacket_def Let_def)+
qed

section \<open>The framing as an interface\<close>

text \<open>A stream whose next \<open>n\<close> calls deliver, or accept, something.\<close>

definition readable :: "nat \<Rightarrow> stream \<Rightarrow> bool" where
  "readable n s \<longleftrightarrow> n \<le> length (rd_sizes s) \<and> list_all (\<lambda>k. 0 < k) (rd_sizes s)"

definition writable :: "nat \<Rightarrow> stream \<Rightarrow> bool" where
  "writable n s \<longleftrightarrow> n \<le> length (wr_sizes s) \<and> list_all (\<lambda>k. 0 < k) (wr_sizes s)"

definition frame :: "bytes \<Rightarrow> bytes" where
  "frame data = be_bytes 2 (length data mod 65536) @ data"

text \<open>
  What a connection needs of its packet functions: a packet that is accepted appears on the
  wire as one frame; reading never faults, and what it returns is the content of a frame; a
  frame that has arrived is read.
\<close>

locale packet_link =
  fixes rd :: "endian \<Rightarrow> stream \<Rightarrow> fault + bytes \<times> stream"
    and wr :: "endian \<Rightarrow> bytes \<Rightarrow> stream \<Rightarrow> stream"
  assumes wr_frame: "writable (length data + 2) s \<Longrightarrow> outgoing (wr e data s) = outgoing s @ frame data"
    and rd_sound: "\<exists>out s'. rd e s = Inr (out, s') \<and> outgoing s' = outgoing s \<and>
          (out = [] \<or> (\<exists>hdr. incoming s = hdr @ out @ incoming s' \<and> length hdr = 2 \<and> be_nat hdr = length out))"
    and rd_complete: "incoming s = hdr @ data @ rest \<Longrightarrow> length hdr = 2 \<Longrightarrow> be_nat hdr = length data \<Longrightarrow>
          readable (length data + 2) s \<Longrightarrow> \<exists>s'. rd e s = Inr (data, s') \<and> incoming s' = rest"
begin

text \<open>What one end writes the other end reads, whatever the byte orders and the fragmentation.\<close>

lemma delivered:
  assumes "writable (length data + 2) s" "0 < length data" "length data < 65536"
    and "incoming t = drop (length (outgoing s)) (outgoing (wr e data s)) @ rest"
    and "readable (length data + 2) t"
  shows "\<exists>t'. rd e' t = Inr (data, t') \<and> incoming t' = rest"
proof -
  have "incoming t = be_bytes 2 (length data) @ data @ rest"
    using assms(3,4) wr_frame [OF assms(1), of e] by (simp add: frame_def)
  moreover have "be_nat (be_bytes 2 (length data)) = length data"
    using assms(3) by (simp add: be_nat_be_bytes)
  ultimately show ?thesis using rd_complete assms(5) by (metis length_be_bytes)
qed

text \<open>
  Data of 65536 bytes or more are announced with their length modulo 65536: the reader
  takes a prefix for the packet.
\<close>

lemma truncated:
  assumes "writable (length data + 2) s" "0 < length data mod 65536"
    and "incoming t = drop (length (outgoing s)) (outgoing (wr e data s))"
    and "readable (length data + 2) t"
  shows "\<exists>t'. rd e' t = Inr (take (length data mod 65536) data, t')
           \<and> incoming t' = drop (length data mod 65536) data"
proof -
  define n where "n = length data mod 65536"
  have n: "n \<le> length data" "n < 65536" by (simp_all add: n_def)
  have "incoming t = be_bytes 2 n @ take n data @ drop n data"
    using assms(1,3) wr_frame [OF assms(1), of e] by (simp add: frame_def n_def)
  moreover have "be_nat (be_bytes 2 n) = length (take n data)"
    using n by (simp add: be_nat_be_bytes)
  moreover have "readable (length (take n data) + 2) t"
    using assms(4) n by (simp add: readable_def)
  ultimately show ?thesis using rd_complete unfolding n_def [symmetric] by (metis length_be_bytes)
qed

lemma never_faults: "rd e s \<noteq> Inl f"
  using rd_sound [of e s] by auto

end

section \<open>The packet functions implement it\<close>

lemma mem_store_load: "length bs = n \<Longrightarrow> mem_store e n (mem_load e bs) = bs"
  using be_bytes_be_nat [of bs] be_bytes_be_nat [of "rev bs"]
  by (auto simp: mem_store_def mem_load_def split: endian.split)

lemma mem_load_less: "mem_load e bs < 256 ^ length bs"
  using be_nat_less [of bs] be_nat_less [of "rev bs"] by (simp add: mem_load_def split: endian.split)

lemma unat_16: "n < 65536 \<Longrightarrow> unat (word_of_nat n :: 16 word) = n"
  by (simp add: unat_of_nat)

lemma ntohs_header:
  assumes "length hdr = 2"
  shows "unat (ntohs e (word_of_nat (mem_load e hdr))) = be_nat hdr"
proof -
  have "mem_load e hdr < 65536" "be_nat hdr < 65536"
    using mem_load_less [of e hdr] be_nat_less [of hdr] assms by simp_all
  then show ?thesis using assms by (simp add: ntohs_def unat_16 mem_store_load)
qed

lemma htons_image: "mem_store e 2 (unat (htons e v)) = be_bytes 2 (unat v)"
proof -
  have "mem_load e (be_bytes 2 (unat v)) < 65536" using mem_load_less [of e "be_bytes 2 (unat v)"] by simp
  then show ?thesis by (simp add: htons_def unat_16 mem_store_load)
qed

lemma WritePacket_frame:
  assumes "writable (length data + 2) s"
  shows "outgoing (WritePacket e data s) = outgoing s @ frame data"
proof -
  define hdr where "hdr = mem_store e 2 (unat (htons e (word_of_nat (length data))))"
  have hdr: "hdr = be_bytes 2 (length data mod 65536)" "length hdr = 2"
    unfolding hdr_def htons_image by (simp_all add: unat_of_nat)
  obtain s1 where s1: "write_loop hdr 0 s = (True, s1)" "outgoing s1 = outgoing s @ hdr"
    "length (wr_sizes s) - 2 \<le> length (wr_sizes s1)" "list_all (\<lambda>k. 0 < k) (wr_sizes s1)"
    using write_loop_total [of hdr 0 s] assms hdr by (auto simp: writable_def)
  have "length data - 0 \<le> length (wr_sizes s1)" using s1(3) assms [unfolded writable_def, THEN conjunct1] by linarith
  from write_loop_total [OF this s1(4)] obtain s2 where "write_loop data 0 s1 = (True, s2)"
    "outgoing s2 = outgoing s1 @ data" by auto
  then show ?thesis
    using s1 hdr by (simp add: WritePacket_def hdr_def [symmetric] frame_def Let_def)
qed

lemma ReadPacket_sound:
  "\<exists>out s'. ReadPacket e s = Inr (out, s') \<and> outgoing s' = outgoing s \<and>
     (out = [] \<or> (\<exists>hdr. incoming s = hdr @ out @ incoming s' \<and> length hdr = 2 \<and> be_nat hdr = length out))"
proof -
  obtain r s1 where r: "read_loop 2 0 (replicate 2 0) s = Inr (r, s1)" "outgoing s1 = outgoing s"
    and o: "case r of None \<Rightarrow> True | Some hdr \<Rightarrow> length hdr = 2 \<and> incoming s = hdr @ incoming s1"
    using read_loop_result [of "replicate 2 0" 2 0 s] by (auto split: option.splits)
  show ?thesis
  proof (cases r)
    case None
    with r show ?thesis by (simp add: ReadPacket_def)
  next
    case (Some hdr)
    define p where "p = ntohs e (word_of_nat (mem_load e hdr))"
    have p: "unat p = be_nat hdr" and hdr: "length hdr = 2" "incoming s = hdr @ incoming s1"
      using Some o by (simp_all add: p_def ntohs_header)
    obtain r2 s2 where r2: "read_loop p 0 (replicate (unat p) 0) s1 = Inr (r2, s2)" "outgoing s2 = outgoing s1"
      and o2: "case r2 of None \<Rightarrow> True | Some out \<Rightarrow> length out = unat p \<and> incoming s1 = out @ incoming s2"
      using read_loop_result [of "replicate (unat p) 0" p 0 s1] by (auto split: option.splits)
    have "ReadPacket e s = (if p = 0 then Inr ([], s1) else case r2 of None \<Rightarrow> Inr ([], s2) | Some out \<Rightarrow> Inr (out, s2))"
      using r r2 Some by (simp add: ReadPacket_def p_def Let_def)
    then show ?thesis using r r2 o2 p hdr by (auto split: option.splits)
  qed
qed

lemma ReadPacket_complete:
  assumes inc: "incoming s = hdr @ data @ rest" "length hdr = 2" "be_nat hdr = length data"
    and rd: "readable (length data + 2) s"
  shows "\<exists>s'. ReadPacket e s = Inr (data, s') \<and> incoming s' = rest"
proof -
  obtain r s1 where r: "read_loop 2 0 (replicate 2 0) s = Inr (r, s1)"
    and o: "case r of None \<Rightarrow> True | Some out \<Rightarrow> length out = 2 \<and> incoming s = out @ incoming s1"
    using read_loop_result [of "replicate 2 0" 2 0 s] by (auto split: option.splits)
  obtain out s1' where t: "read_loop 2 0 (replicate 2 0) s = Inr (Some out, s1')"
    "length (rd_sizes s) - 2 \<le> length (rd_sizes s1')" "list_all (\<lambda>k. 0 < k) (rd_sizes s1')"
    using read_loop_total [of "replicate 2 0" 2 0 s] inc rd by (auto simp: readable_def)
  have h: "r = Some hdr" "s1' = s1" "incoming s1 = data @ rest"
    using r t(1) o inc(1,2) by auto
  define p where "p = ntohs e (word_of_nat (mem_load e hdr))"
  have p: "unat p = length data" using inc by (simp add: p_def ntohs_header)
  obtain r2 s2 where r2: "read_loop p 0 (replicate (unat p) 0) s1 = Inr (r2, s2)"
    and o2: "case r2 of None \<Rightarrow> True | Some out \<Rightarrow> length out = unat p \<and> incoming s1 = out @ incoming s2"
    using read_loop_result [of "replicate (unat p) 0" p 0 s1] by (auto split: option.splits)
  have "length data \<le> length (rd_sizes s1)" using t(2) rd [unfolded readable_def, THEN conjunct1] h(2) by simp
  then have pre: "length (replicate (unat p) (0 :: byte)) = unat p" "0 \<le> p"
    "unat p - unat (0 :: 16 word) \<le> length (incoming s1)" "unat p - unat (0 :: 16 word) \<le> length (rd_sizes s1)"
    using h(3) p by simp_all
  obtain out2 s2' where "read_loop p 0 (replicate (unat p) 0) s1 = Inr (Some out2, s2')"
    using read_loop_total [OF pre t(3) [unfolded h(2)]] by blast
  then have r2': "r2 = Some out2" using r2 by simp
  have "data @ rest = out2 @ incoming s2" "length out2 = length data"
    using o2 h(3) p unfolding r2' by simp_all
  then have d: "r2 = Some data" "incoming s2 = rest" using r2' by simp_all
  have "ReadPacket e s = (if p = 0 then Inr ([], s1) else Inr (data, s2))"
    using r r2 h(1) d(1) by (simp add: ReadPacket_def p_def Let_def)
  moreover have "p = 0 \<longleftrightarrow> data = []" using p by (metis length_0_conv unsigned_0 unsigned_eq_0_iff)
  ultimately show ?thesis using h(3) d(2) by (cases "p = 0") simp_all
qed

interpretation tcp: packet_link ReadPacket WritePacket
  by unfold_locales (rule WritePacket_frame ReadPacket_sound ReadPacket_complete; assumption)+

section \<open>What the framing guarantees\<close>

text \<open>
  C12: a packet of 1 to 65535 bytes arrives as it was sent, between machines of any byte
  order, however the kernel cuts up what is written and what is read, and the bytes that
  follow it stay in the stream.
\<close>

theorem packet_delivered:
  assumes "writable (length data + 2) s" "0 < length data" "length data < 65536"
    and "incoming t = drop (length (outgoing s)) (outgoing (WritePacket e data s)) @ rest"
    and "readable (length data + 2) t"
  shows "\<exists>t'. ReadPacket e' t = Inr (data, t') \<and> incoming t' = rest"
  by (rule tcp.delivered [OF assms])

text \<open>Streams to evaluate on: every call moves the given number of bytes.\<close>

definition demo_stream :: "bytes \<Rightarrow> nat \<Rightarrow> stream" where
  "demo_stream bs k = \<lparr>incoming = bs, rd_sizes = replicate 40 k, outgoing = [], wr_sizes = replicate 40 k\<rparr>"

lemma demo_stream_ready [simp]:
  "0 < k \<Longrightarrow> n \<le> 40 \<Longrightarrow> readable n (demo_stream bs k)"
  "0 < k \<Longrightarrow> n \<le> 40 \<Longrightarrow> writable n (demo_stream bs k)"
  by (simp_all add: demo_stream_def readable_def writable_def list_all_iff)

lemma demo_stream_simps [simp]:
  "incoming (demo_stream bs k) = bs" "outgoing (demo_stream bs k) = []"
  by (simp_all add: demo_stream_def)

theorem packet_delivered_witness:
  "\<exists>t'. ReadPacket BigEndian
          (demo_stream (outgoing (WritePacket LittleEndian [10, 20, 30] (demo_stream [] 1)) @ [9]) 4)
        = Inr ([10, 20, 30], t') \<and> incoming t' = [9]"
  using packet_delivered [of "[10, 20, 30]" "demo_stream [] 1"
      "demo_stream (outgoing (WritePacket LittleEndian [10, 20, 30] (demo_stream [] 1)) @ [9]) 4"
      LittleEndian "[9]" BigEndian]
  by simp

text \<open>
  Whatever the peer sends and whenever the connection breaks, \<^verbatim>\<open>ReadPacket\<close> stays
  inside its two buffers, its 16-bit counters do not wrap, and it returns either nothing or
  exactly the bytes the length prefix announced, never a part of a packet.
\<close>

theorem ReadPacket_all_or_nothing:
  "\<exists>out s'. ReadPacket e s = Inr (out, s') \<and>
     (out = [] \<or> (\<exists>hdr. incoming s = hdr @ out @ incoming s' \<and> length hdr = 2 \<and> be_nat hdr = length out))"
  using ReadPacket_sound [of e s] by blast

text \<open>
  Data of 65536 bytes or more are not refused: the length prefix is the length modulo
  65536, so the peer takes a prefix of the data for the packet and the rest for whatever
  follows.
\<close>

theorem long_packets_truncated:
  assumes "writable (length data + 2) s" "0 < length data mod 65536"
    and "incoming t = drop (length (outgoing s)) (outgoing (WritePacket e data s))"
    and "readable (length data + 2) t"
  shows "\<exists>t'. ReadPacket e' t = Inr (take (length data mod 65536) data, t')
           \<and> incoming t' = drop (length data mod 65536) data"
  by (rule tcp.truncated [OF assms])

definition big_stream :: "bytes \<Rightarrow> stream" where
  "big_stream bs = \<lparr>incoming = bs, rd_sizes = replicate 70000 1, outgoing = [], wr_sizes = replicate 70000 1\<rparr>"

theorem long_packets_truncated_witness:
  "\<exists>t'. ReadPacket LittleEndian (big_stream (outgoing (WritePacket LittleEndian (replicate 65538 7) (big_stream []))))
        = Inr ([7, 7], t')"
proof -
  have w: "writable (length (replicate 65538 (7 :: byte)) + 2) (big_stream bs)"
    "readable (length (replicate 65538 (7 :: byte)) + 2) (big_stream bs)" for bs
    by (simp_all only: big_stream_def readable_def writable_def list_all_iff length_replicate stream.simps) simp_all
  have t: "take (length (replicate 65538 (7 :: byte)) mod 65536) (replicate 65538 (7 :: byte)) = [7, 7]"
    by (simp add: take_replicate numeral_2_eq_2)
  have o: "outgoing (big_stream []) = []" "\<And>bs. incoming (big_stream bs) = bs"
    by (simp_all add: big_stream_def)
  show ?thesis
    using long_packets_truncated [OF w(1) [of "[]"] _ _ w(2), of _ LittleEndian LittleEndian] unfolding t o
    by auto
qed

end
