(* ===== verification/UnlockClient.thy ===== *)
theory UnlockClient
  imports BaseUnlockServer PacketIO
begin

text \<open>
  What \<^verbatim>\<open>TCPUnlockClient\<close> and \<^verbatim>\<open>BTUnlockClient\<close> share, in the same words in both files:
  the socket member, the conversation with the phone once \<^verbatim>\<open>connect\<close> has succeeded, the
  end of the thread function and \<^verbatim>\<open>Stop\<close>.

  A \<open>world\<close> is what lies outside the object: the stream behind the socket, the
  descriptors that are open, the allocations of the packet code. A \<open>net_env\<close> holds the
  answers of the system calls. The thread function blocks in \<^verbatim>\<open>connect\<close> and in \<^verbatim>\<open>read\<close>
  only, so it is composed of the parts between these calls, and \<^verbatim>\<open>Stop\<close> takes the place
  where the thread is blocked (\<open>blocked\<close>).
\<close>

section \<open>State\<close>

record client_base = server_base +
  m_ClientSocket :: int

record world =
  link :: stream
  open_fds :: "int list"
  heap :: crypt_heap

record net_env =
  wsa_startup :: int
  inet_pton :: "string \<Rightarrow> int"
  new_socket :: int
  connect_result :: int

text \<open>\<^verbatim>\<open>SAFE_CLOSE\<close>; -1 is the invalid descriptor.\<close>

definition SAFE_CLOSE :: "int \<Rightarrow> world \<Rightarrow> int \<times> world" where
  "SAFE_CLOSE x w = (if x \<noteq> -1 then (-1, w\<lparr>open_fds := remove1 x (open_fds w)\<rparr>) else (x, w))"

definition close_client :: "'s client_base_scheme \<Rightarrow> world \<Rightarrow> 's client_base_scheme \<times> world" where
  "close_client s w = (let (fd, w) = SAFE_CLOSE (m_ClientSocket s) w in (s\<lparr>m_ClientSocket := fd\<rparr>, w))"

section \<open>Start\<close>

text \<open>Assigning to a \<^verbatim>\<open>std::thread\<close> that is still joinable calls \<^verbatim>\<open>std::terminate\<close>.\<close>

definition Start :: "'x host \<Rightarrow> net_env \<Rightarrow> 's server_base_scheme \<Rightarrow> fault + bool \<times> 's server_base_scheme" where
  "Start H N s =
     (if m_IsRunning s then Inr (True, s)
      else if build H = Windows \<and> wsa_startup N \<noteq> 0 then Inr (False, s)
      else
        let s = s\<lparr>m_IsRunning := True\<rparr> in
        if m_AcceptThread s then Inl Terminate else Inr (True, s\<lparr>m_AcceptThread := True\<rparr>))"

section \<open>The thread function\<close>

text \<open>The last three statements.\<close>

definition thread_end :: "'s client_base_scheme \<Rightarrow> world \<Rightarrow> 's client_base_scheme \<times> world" where
  "thread_end s w = close_client (s\<lparr>m_IsRunning := False, m_HasConnection := False\<rparr>) w"

text \<open>
  From a successful \<^verbatim>\<open>connect\<close> to the call of \<^verbatim>\<open>ReadPacket\<close>; \<open>True\<close> if the function has not
  returned before.
\<close>

definition on_connected ::
  "'x host \<Rightarrow> json_lib \<Rightarrow> 64 word \<Rightarrow> 's client_base_scheme \<Rightarrow> world
   \<Rightarrow> fault + bool \<times> 's client_base_scheme \<times> world" where
  "on_connected H J now s w =
     (let s = s\<lparr>m_HasConnection := True\<rparr> in
      bind_err (GetUnlockInfoPacket H J now s (heap w)) (\<lambda>(serverDataStr, hp).
      let w = w\<lparr>heap := hp\<rparr> in
      if serverDataStr = '''' then
        let (s, w) = close_client (s\<lparr>m_IsRunning := False, m_UnlockState := UNK_ERROR\<rparr>) w
        in Inr (False, s, w)
      else Inr (True, s, w\<lparr>link := WritePacket (byte_order H) (bytes_of serverDataStr) (link w)\<rparr>)))"

text \<open>From the return of \<^verbatim>\<open>ReadPacket\<close> to the end.\<close>

definition on_packet ::
  "'x host \<Rightarrow> json_lib \<Rightarrow> 64 word \<Rightarrow> bytes \<Rightarrow> 's client_base_scheme \<Rightarrow> world
   \<Rightarrow> fault + 's client_base_scheme \<times> world" where
  "on_packet H J now response s w =
     bind_err (OnResponseReceived H J now response s (heap w)) (\<lambda>(s, hp).
     Inr (thread_end s (w\<lparr>heap := hp\<rparr>)))"

definition on_connect_failed :: "'s client_base_scheme \<Rightarrow> world \<Rightarrow> 's client_base_scheme \<times> world" where
  "on_connect_failed s w = thread_end (s\<lparr>m_UnlockState := CONNECT_ERROR\<rparr>) w"

text \<open>Everything after \<^verbatim>\<open>connect\<close> returned \<open>result\<close>: \<open>t0\<close> and \<open>t1\<close> are the two readings of the clock.\<close>

definition after_connect ::
  "'x host \<Rightarrow> json_lib \<Rightarrow> 64 word \<Rightarrow> 64 word \<Rightarrow> int \<Rightarrow> 's client_base_scheme \<Rightarrow> world
   \<Rightarrow> fault + 's client_base_scheme \<times> world" where
  "after_connect H J t0 t1 result s w =
     (if result = 0 then
        bind_err (on_connected H J t0 s w) (\<lambda>(go_on, s, w).
        if \<not> go_on then Inr (s, w)
        else
          bind_err (ReadPacket (byte_order H) (link w)) (\<lambda>(response, l).
          on_packet H J t1 response s (w\<lparr>link := l\<rparr>)))
      else Inr (on_connect_failed s w))"

section \<open>Stop\<close>

datatype blocked = InConnect | InRead | Returned

text \<open>
  What the thread still does after its socket was closed under it: the blocked call fails,
  so \<^verbatim>\<open>connect\<close> leads to the error branch and \<^verbatim>\<open>ReadPacket\<close> returns the empty vector.
\<close>

definition drain ::
  "'x host \<Rightarrow> json_lib \<Rightarrow> 64 word \<Rightarrow> blocked \<Rightarrow> 's client_base_scheme \<Rightarrow> world
   \<Rightarrow> fault + 's client_base_scheme \<times> world" where
  "drain H J now b s w =
     (case b of
        InConnect \<Rightarrow> Inr (on_connect_failed s w)
      | InRead \<Rightarrow> on_packet H J now [] s w
      | Returned \<Rightarrow> Inr (s, w))"

definition Stop ::
  "'x host \<Rightarrow> json_lib \<Rightarrow> 64 word \<Rightarrow> blocked \<Rightarrow> 's client_base_scheme \<Rightarrow> world
   \<Rightarrow> fault + 's client_base_scheme \<times> world" where
  "Stop H J now b s w =
     (if \<not> m_IsRunning s then Inr (s, w)
      else
        let w = (if m_ClientSocket s \<noteq> -1 \<and> m_HasConnection s
                 then w\<lparr>link := snd (sock_write (bytes_of ''CLOSE'') (link w))\<rparr> else w);
            (s, w) = close_client (s\<lparr>m_IsRunning := False, m_HasConnection := False\<rparr>) w
        in if m_AcceptThread s
           then bind_err (drain H J now b s w) (\<lambda>(s, w). Inr (s\<lparr>m_AcceptThread := False\<rparr>, w))
           else Inr (s, w))"

section \<open>Lemmas\<close>

lemma close_client_eq:
  "close_client s w =
     (s\<lparr>m_ClientSocket := -1\<rparr>,
      if m_ClientSocket s = -1 then w else w\<lparr>open_fds := remove1 (m_ClientSocket s) (open_fds w)\<rparr>)"
  by (simp add: close_client_def SAFE_CLOSE_def)

text \<open>The descriptors a client object owns.\<close>

definition owned :: "'s client_base_scheme \<Rightarrow> int list" where
  "owned s = (if m_ClientSocket s = -1 then [] else [m_ClientSocket s])"

definition fds_balanced :: "int list \<Rightarrow> 's client_base_scheme \<Rightarrow> world \<Rightarrow> bool" where
  "fds_balanced fds s w \<longleftrightarrow> open_fds w = owned s @ fds"

text \<open>What holds whenever the thread function has returned.\<close>

definition ended :: "int list \<Rightarrow> 's client_base_scheme \<Rightarrow> world \<Rightarrow> bool" where
  "ended fds s w \<longleftrightarrow>
     \<not> m_IsRunning s \<and> m_ClientSocket s = -1 \<and> open_fds w = fds \<and> m_UnlockState s \<noteq> UNKNOWN"

lemma close_client_balanced:
  "fds_balanced fds s w \<Longrightarrow> close_client s w = (s', w') \<Longrightarrow>
     open_fds w' = fds \<and> m_ClientSocket s' = -1 \<and> m_UnlockState s' = m_UnlockState s \<and> m_IsRunning s' = m_IsRunning s"
  by (auto simp: fds_balanced_def owned_def close_client_eq split: if_split_asm)

lemma thread_end_ended:
  assumes "fds_balanced fds s w" "m_UnlockState s \<noteq> UNKNOWN" "thread_end s w = (s', w')"
  shows "ended fds s' w' \<and> m_UnlockState s' = m_UnlockState s \<and> m_ResponseData s' = m_ResponseData s
         \<and> \<not> m_HasConnection s' \<and> heap w' = heap w \<and> link w' = link w"
  using assms
  by (auto simp: thread_end_def close_client_eq fds_balanced_def owned_def ended_def split: if_split_asm)

lemma plain_reply_not_unknown [simp]: "plain_reply r t \<noteq> UNKNOWN"
  by (simp add: plain_reply_def split: PacketCryptResult.split)

lemma json_reply_not_unknown [simp]: "m_UnlockState (json_reply J d s) \<noteq> UNKNOWN"
  by (simp add: json_reply_members split: option.split)

lemma OnResponseReceived_decides:
  "OnResponseReceived H J now buf s h = Inr (s', h') \<Longrightarrow> m_UnlockState s' \<noteq> UNKNOWN"
  by (auto simp: OnResponseReceived_def elim!: bind_err_InrE split: if_split_asm option.split_asm)

lemma OnResponseReceived_socket:
  assumes "OnResponseReceived H J now buf s h = Inr (s', h')"
  shows "m_ClientSocket s' = m_ClientSocket s"
  using OnResponseReceived_frame(6) [OF assms] by (cases s; cases s') simp

lemma on_packet_ended:
  assumes "fds_balanced fds s w" "on_packet H J now buf s w = Inr (s', w')"
  shows "ended fds s' w' \<and> \<not> m_HasConnection s'"
proof -
  obtain s1 hp where r: "OnResponseReceived H J now buf s (heap w) = Inr (s1, hp)"
    and e: "thread_end s1 (w\<lparr>heap := hp\<rparr>) = (s', w')"
    using assms(2) by (auto simp: on_packet_def elim!: bind_err_InrE)
  have "fds_balanced fds s1 (w\<lparr>heap := hp\<rparr>)"
    using assms(1) OnResponseReceived_socket [OF r] by (simp add: fds_balanced_def owned_def)
  from thread_end_ended [OF this OnResponseReceived_decides [OF r] e] show ?thesis by blast
qed

lemma on_connect_failed_ended:
  "fds_balanced fds s w \<Longrightarrow> on_connect_failed s w = (s', w') \<Longrightarrow> ended fds s' w' \<and> m_UnlockState s' = CONNECT_ERROR"
  using thread_end_ended [of fds "s\<lparr>m_UnlockState := CONNECT_ERROR\<rparr>" w s' w']
  by (auto simp: on_connect_failed_def fds_balanced_def owned_def)

lemma on_connected_balanced:
  assumes "fds_balanced fds s w" "on_connected H J t s w = Inr (go_on, s', w')"
  shows "if go_on then fds_balanced fds s' w' else ended fds s' w' \<and> m_UnlockState s' = UNK_ERROR"
  using assms
  by (auto simp: on_connected_def Let_def fds_balanced_def owned_def close_client_eq ended_def
      elim!: bind_err_InrE split: if_split_asm)

lemma after_connect_ended:
  assumes "fds_balanced fds s w" "after_connect H J t0 t1 result s w = Inr (s', w')"
  shows "ended fds s' w'"
proof (cases "result = 0")
  case False
  then show ?thesis using assms on_connect_failed_ended [of fds s w s' w'] by (simp add: after_connect_def)
next
  case True
  then obtain go_on s1 w1 where c: "on_connected H J t0 s w = Inr (go_on, s1, w1)"
    using assms(2) by (auto simp: after_connect_def elim!: bind_err_InrE)
  note b = on_connected_balanced [OF assms(1) c]
  show ?thesis
  proof (cases go_on)
    case False
    then show ?thesis using assms(2) b c True by (simp add: after_connect_def)
  next
    case go: True
    then obtain response l where "on_packet H J t1 response s1 (w1\<lparr>link := l\<rparr>) = Inr (s', w')"
      using assms(2) c True by (auto simp: after_connect_def elim!: bind_err_InrE)
    moreover have "fds_balanced fds s1 (w1\<lparr>link := l\<rparr>)" using b go by (simp add: fds_balanced_def)
    ultimately show ?thesis using on_packet_ended by blast
  qed
qed

section \<open>What a connection promises to its user\<close>

text \<open>
  The password came with a reply that was accepted. (A reply of 32 to 47 bytes passes the
  length check of \<^verbatim>\<open>DecryptAES\<close> although it cannot hold a tag; what OpenSSL does with the
  negative length it is then given is not documented, so nothing is claimed of it.)
\<close>

definition genuine :: "'x host \<Rightarrow> json_lib \<Rightarrow> 's server_base_scheme \<Rightarrow> string \<Rightarrow> bool" where
  "genuine H J s pwd \<longleftrightarrow>
     (\<exists>now buf. length buf < 2 ^ 31 \<and> (accepted H J now buf s = Some pwd \<or> 32 \<le> length buf \<and> length buf < 48))"

text \<open>
  The interface of a connection as \<^verbatim>\<open>UnlockHandler\<close> uses it: \<open>thread\<close> is the thread function
  with its environment, \<open>base\<close> the part of the object the base class reads.
\<close>

locale unlock_connection =
  fixes thread :: "'x host \<Rightarrow> json_lib \<Rightarrow> 'e \<Rightarrow> 's \<Rightarrow> fault + 's"
    and base :: "'s \<Rightarrow> server_base"
  assumes success_genuine:
    "openssl_ok H \<Longrightarrow> thread H J e s = Inr s' \<Longrightarrow> m_UnlockState (base s) = UNKNOWN \<Longrightarrow>
     m_UnlockState (base s') = SUCCESS \<Longrightarrow> genuine H J (base s) (password (m_ResponseData (base s')))"
begin

text \<open>Someone who cannot produce an acceptable reply never causes a success.\<close>

lemma no_key_no_success:
  assumes "openssl_ok H" "thread H J e s = Inr s'" "PollResult (base s) = UNKNOWN"
    and "\<And>pwd. \<not> genuine H J (base s) pwd"
  shows "PollResult (base s') \<noteq> SUCCESS"
  using success_genuine [OF assms(1,2)] assms(3,4) unfolding PollResult_def by blast

end

text \<open>A connection whose thread leaves a decision behind, on the platforms that support it.\<close>

locale deciding_connection = unlock_connection thread base
  for thread :: "'x host \<Rightarrow> json_lib \<Rightarrow> 'e \<Rightarrow> 's \<Rightarrow> fault + 's" and base :: "'s \<Rightarrow> server_base" +
  fixes supported :: "platform \<Rightarrow> bool"
  assumes decides: "thread H J e s = Inr s' \<Longrightarrow> supported (build H) \<Longrightarrow> m_UnlockState (base s') \<noteq> UNKNOWN \<and> \<not> m_IsRunning (base s')"
begin

lemma poll_decided: "thread H J e s = Inr s' \<Longrightarrow> supported (build H) \<Longrightarrow> PollResult (base s') \<noteq> UNKNOWN"
  using decides by (simp add: PollResult_def)

end

lemma accepted_cong:
  "m_PairedDevice s = m_PairedDevice t \<Longrightarrow> m_UnlockToken s = m_UnlockToken t \<Longrightarrow>
   accepted H J now buf s = accepted H J now buf t"
  by (auto simp: accepted_def split: option.split prod.split)

lemma after_connect_ends:
  "after_connect H J t0 t1 r s w = Inr (s', w') \<Longrightarrow> m_UnlockState s' \<noteq> UNKNOWN \<and> \<not> m_IsRunning s'"
  by (auto simp: after_connect_def on_connected_def on_packet_def on_connect_failed_def thread_end_def
      close_client_eq Let_def elim!: bind_err_InrE split: if_split_asm dest!: OnResponseReceived_decides)

lemma reply_genuine:
  assumes ok: "openssl_ok H" and len: "length buf < 2 ^ 31"
    and r: "OnResponseReceived H J now buf s h = Inr (s', h')" and su: "m_UnlockState s' = SUCCESS"
  shows "genuine H J s (password (m_ResponseData s'))"
proof (cases "length buf < 32 \<or> 48 \<le> length buf")
  case True
  from reply_accepted [OF ok this len, of J now s h] r su
  obtain p where "accepted H J now buf s = Some p" "password (m_ResponseData s') = p"
    by (auto split: option.splits)
  then show ?thesis using len unfolding genuine_def by blast
next
  case False
  then show ?thesis unfolding genuine_def using len by (intro exI [of _ now] exI [of _ buf]) auto
qed

lemma on_connected_keeps:
  assumes "on_connected H J t s w = Inr (go_on, s', w')"
  shows "m_PairedDevice s' = m_PairedDevice s \<and> m_UnlockToken s' = m_UnlockToken s
         \<and> (if go_on then m_UnlockState s' = m_UnlockState s else m_UnlockState s' = UNK_ERROR)"
  using assms
  by (auto simp: on_connected_def Let_def close_client_eq elim!: bind_err_InrE split: if_split_asm)

lemma on_packet_genuine:
  assumes ok: "openssl_ok H" and len: "length buf < 2 ^ 31"
    and r: "on_packet H J now buf s w = Inr (s', w')" and su: "m_UnlockState s' = SUCCESS"
  shows "genuine H J s (password (m_ResponseData s'))"
proof -
  obtain s1 hp where o: "OnResponseReceived H J now buf s (heap w) = Inr (s1, hp)"
    and e: "thread_end s1 (w\<lparr>heap := hp\<rparr>) = (s', w')"
    using r by (auto simp: on_packet_def elim!: bind_err_InrE)
  then have "m_UnlockState s1 = SUCCESS" "m_ResponseData s' = m_ResponseData s1"
    using su by (auto simp: thread_end_def close_client_eq)
  then show ?thesis using reply_genuine [OF ok len o] by simp
qed

lemma ReadPacket_length:
  assumes "ReadPacket e s = Inr (out, s')"
  shows "length out < 2 ^ 31"
proof (cases "out = []")
  case False
  then obtain hdr where "length hdr = 2" "be_nat hdr = length out"
    using ReadPacket_sound [of e s] assms by auto
  then show ?thesis using be_nat_less [of hdr] by simp
qed simp

lemma genuine_cong:
  "m_PairedDevice s = m_PairedDevice t \<Longrightarrow> m_UnlockToken s = m_UnlockToken t \<Longrightarrow>
   genuine H J s pwd = genuine H J t pwd"
  unfolding genuine_def using accepted_cong [of s t] by metis

lemma after_connect_genuine:
  assumes ok: "openssl_ok H" and r: "after_connect H J t0 t1 result s w = Inr (s', w')"
    and su: "m_UnlockState s' = SUCCESS"
  shows "genuine H J s (password (m_ResponseData s'))"
proof -
  have "result = 0"
    using r su by (auto simp: after_connect_def on_connect_failed_def thread_end_def close_client_eq split: if_split_asm)
  then obtain go_on s1 w1 where c: "on_connected H J t0 s w = Inr (go_on, s1, w1)"
    using r by (auto simp: after_connect_def elim!: bind_err_InrE)
  note k = on_connected_keeps [OF c]
  have go_on using k r su c \<open>result = 0\<close> by (cases go_on) (auto simp: after_connect_def)
  then obtain response l where rd: "ReadPacket (byte_order H) (link w1) = Inr (response, l)"
    and p: "on_packet H J t1 response s1 (w1\<lparr>link := l\<rparr>) = Inr (s', w')"
    using r c \<open>result = 0\<close> by (auto simp: after_connect_def elim!: bind_err_InrE)
  from on_packet_genuine [OF ok ReadPacket_length [OF rd] p su] show ?thesis
    using genuine_cong [of s1 s H J] k by simp
qed

lemma base_truncate [frame_simps]:
  "m_UnlockState (server_base.truncate s) = m_UnlockState s"
  "m_IsRunning (server_base.truncate s) = m_IsRunning s"
  "m_ResponseData (server_base.truncate s) = m_ResponseData s"
  "m_PairedDevice (server_base.truncate s) = m_PairedDevice s"
  "m_UnlockToken (server_base.truncate s) = m_UnlockToken s"
  "m_HasConnection (server_base.truncate s) = m_HasConnection s"
  by (simp_all add: server_base.truncate_def)

lemma genuine_truncate [frame_simps]: "genuine H J (server_base.truncate s) pwd = genuine H J s pwd"
  by (rule genuine_cong) (simp_all add: frame_simps)

section \<open>A complete exchange\<close>

text \<open>The reply of the phone: token and password, sealed under the device's key.\<close>

definition reply_json :: "string \<Rightarrow> string \<Rightarrow> json" where
  "reply_json token pwd = JObj [(''password'', JStr pwd), (''unlockToken'', JStr token)]"

lemma string_members_reply: "string_members [(''password'', JStr a), (''unlockToken'', JStr b)]"
  by (simp add: string_members_def less_char_def)

lemma reply_json_members:
  assumes "json_ok J" "json_dump J (reply_json token pwd) = Some txt"
  shows "txt \<noteq> '''' \<and> reply_members J txt = Some \<lparr>unlockToken = token, password = pwd\<rparr>"
proof -
  obtain kvs where "txt \<noteq> ''''" "json_parse J txt = Some (JObj kvs)"
    "map_of kvs = map_of [(''password'', JStr pwd), (''unlockToken'', JStr token)]"
    using json_okD [OF assms(1) string_members_reply assms(2) [unfolded reply_json_def]] by metis
  then show ?thesis by (simp add: reply_members_def)
qed

lemma reply_succeeds:
  assumes ok: "openssl_ok H" and J: "json_ok J" and mem: "\<And>n. malloc_ok H n"
    and d: "json_dump J (reply_json (m_UnlockToken s) pwd) = Some txt" "length txt \<le> 968"
    and enc: "EncryptAESPacket (H\<lparr>byte_order := e, build := p\<rparr>) tp (bytes_of txt)
                (encryptionKey (m_PairedDevice s)) hp = Inr (OK, n, Some pkt, hp')"
    and t: "fresh (build H) t1 tp"
  shows "\<exists>s'. OnResponseReceived H J t1 pkt s h = Inr (s', h) \<and> m_UnlockState s' = SUCCESS
           \<and> password (m_ResponseData s') = pwd" and "length pkt = length txt + 56"
proof -
  note r = reply_json_members [OF J d(1)]
  have ok': "openssl_ok (H\<lparr>byte_order := e, build := p\<rparr>)" using ok by simp
  show len: "length pkt = length txt + 56"
    using EncryptAESPacket_OK [OF ok' _ enc] d(2) by (metis length_bytes_of option.inject)
  obtain k where dec: "DecryptAESPacket H t1 (Some pkt) (encryptionKey (m_PairedDevice s)) h
      = Inr (OK, k, Some (bytes_of txt), buf_alloc h)"
    using packet_reopens [OF ok' _ _ enc t, of "byte_order H" h] r d(2) mem by auto
  have "pkt \<noteq> []" using len by auto
  then show "\<exists>s'. OnResponseReceived H J t1 pkt s h = Inr (s', h) \<and> m_UnlockState s' = SUCCESS
           \<and> password (m_ResponseData s') = pwd"
    using dec r by (simp add: OnResponseReceived_def json_reply_members)
qed

lemma conn_data_connected [simp]:
  "serverData (s\<lparr>m_HasConnection := b\<rparr>) x = serverData s x"
  "encServerData (s\<lparr>m_HasConnection := b\<rparr>) = encServerData s"
  "m_PairedDevice (s\<lparr>m_HasConnection := b\<rparr>) = m_PairedDevice s"
  by (simp_all add: serverData_def encServerData_def)

lemma GetUnlockInfoPacket_connected:
  "GetUnlockInfoPacket H J t (s\<lparr>m_HasConnection := b\<rparr>) h = GetUnlockInfoPacket H J t s h"
  unfolding GetUnlockInfoPacket_def conn_data_connected by (rule refl)

lemma conn_data_socket [simp]:
  "serverData (s\<lparr>m_ClientSocket := b\<rparr>) x = serverData s x"
  "encServerData (s\<lparr>m_ClientSocket := b\<rparr>) = encServerData s"
  "m_PairedDevice (s\<lparr>m_ClientSocket := b\<rparr>) = m_PairedDevice s"
  by (simp_all add: serverData_def encServerData_def)

lemma GetUnlockInfoPacket_socket:
  "GetUnlockInfoPacket H J t (s\<lparr>m_ClientSocket := b\<rparr>) h = GetUnlockInfoPacket H J t s h"
  unfolding GetUnlockInfoPacket_def conn_data_socket by (rule refl)

text \<open>After a successful \<^verbatim>\<open>connect\<close>, with the phone's frame on the wire.\<close>

lemma after_connect_succeeds:
  assumes ok: "openssl_ok H" and J: "json_ok J" and mem: "\<And>n. malloc_ok H n"
    and info: "GetUnlockInfoPacket H J t0 s (heap w) = Inr (txt, hp)" "txt \<noteq> ''''"
    and d: "json_dump J (reply_json (m_UnlockToken s) pwd) = Some reply" "length reply \<le> 968"
    and enc: "EncryptAESPacket (H\<lparr>byte_order := e, build := p\<rparr>) tp (bytes_of reply)
                (encryptionKey (m_PairedDevice s)) h0 = Inr (OK, n, Some pkt, h1)"
    and t: "fresh (build H) t1 tp"
    and wire: "incoming (link w) = frame pkt @ rest" "readable (length pkt + 2) (link w)"
  shows "\<exists>s' w'. after_connect H J t0 t1 0 s w = Inr (s', w') \<and> m_UnlockState s' = SUCCESS
           \<and> password (m_ResponseData s') = pwd \<and> incoming (link w') = rest \<and> heap w' = hp"
proof -
  define s1 where "s1 = s\<lparr>m_HasConnection := True\<rparr>"
  define l1 where "l1 = WritePacket (byte_order H) (bytes_of txt) (link w)"
  have same: "GetUnlockInfoPacket H J t0 s1 (heap w) = Inr (txt, hp)"
    using info(1) by (simp add: GetUnlockInfoPacket_connected s1_def)
  have enc1: "EncryptAESPacket (H\<lparr>byte_order := e, build := p\<rparr>) tp (bytes_of reply)
                (encryptionKey (m_PairedDevice s1)) h0 = Inr (OK, n, Some pkt, h1)"
    and d1: "json_dump J (reply_json (m_UnlockToken s1) pwd) = Some reply"
    using enc d by (simp_all add: s1_def)
  note R = reply_succeeds [OF ok J mem d1 d(2) enc1 t]
  have l: "incoming l1 = frame pkt @ rest" "readable (length pkt + 2) l1"
    using wire by (simp_all add: l1_def WritePacket_keeps readable_def)
  have "length pkt < 65536" using R(2) d(2) by simp
  then obtain l2 where rd: "ReadPacket (byte_order H) l1 = Inr (pkt, l2)" "incoming l2 = rest"
    using ReadPacket_complete [of l1 "be_bytes 2 (length pkt)" pkt rest "byte_order H"] l
    by (auto simp: frame_def be_nat_be_bytes)
  obtain s2 where s2: "OnResponseReceived H J t1 pkt s1 hp = Inr (s2, hp)" "m_UnlockState s2 = SUCCESS"
    "password (m_ResponseData s2) = pwd"
    using R(1) [of hp] by blast
  show ?thesis
    using same info(2) rd s2
    by (simp add: after_connect_def on_connected_def on_packet_def thread_end_def close_client_eq
        s1_def [symmetric] l1_def [symmetric])
qed

end
