(* ===== verification/TCPUnlockClient.thy ===== *)
theory TCPUnlockClient
  imports UnlockClient
begin

text \<open>
  \<^verbatim>\<open>common-cpp/src/connection/clients/TCPUnlockClient.cpp\<close>: the connection to a phone at a
  known address.
\<close>

section \<open>State and operations\<close>

record tcp_client = client_base +
  m_IP :: string
  m_Port :: int

definition TCPUnlockClient_new ::
  "endian \<Rightarrow> (nat \<Rightarrow> bytes) \<Rightarrow> string \<Rightarrow> int \<Rightarrow> PairedDevice \<Rightarrow> tcp_client" where
  "TCPUnlockClient_new e draw ip port device =
     server_base.extend (BaseUnlockServer_new e draw device)
       (client_base_ext (-1) (tcp_client_ext ip port ()))"

definition ConnectThread ::
  "'x host \<Rightarrow> json_lib \<Rightarrow> net_env \<times> 64 word \<times> 64 word \<Rightarrow> tcp_client \<times> world \<Rightarrow> fault + tcp_client \<times> world" where
  "ConnectThread H J env sw =
     (case env of (N, t0, t1) \<Rightarrow> case sw of (s, w) \<Rightarrow>
      if inet_pton N (c_str (m_IP s)) \<le> 0
      then Inr (s\<lparr>m_IsRunning := False, m_UnlockState := UNK_ERROR\<rparr>, w)
      else
        let s = s\<lparr>m_ClientSocket := new_socket N\<rparr> in
        if m_ClientSocket s = -1
        then Inr (s\<lparr>m_IsRunning := False, m_UnlockState := UNK_ERROR\<rparr>, w)
        else
          let w = w\<lparr>open_fds := m_ClientSocket s # open_fds w\<rparr>
          in after_connect H J t0 t1 (connect_result N) s w)"

section \<open>Lemmas\<close>

lemma ConnectThread_ended:
  assumes "open_fds w = fds" "m_ClientSocket s = -1" "ConnectThread H J e (s, w) = Inr (s', w')"
  shows "ended fds s' w'"
proof -
  obtain N t0 t1 where e: "e = (N, t0, t1)" by (cases e)
  let ?s = "s\<lparr>m_ClientSocket := new_socket N\<rparr>" and ?w = "w\<lparr>open_fds := new_socket N # open_fds w\<rparr>"
  show ?thesis
  proof (cases "inet_pton N (c_str (m_IP s)) \<le> 0 \<or> new_socket N = -1")
    case True
    then show ?thesis using assms by (auto simp: ConnectThread_def e ended_def split: if_split_asm)
  next
    case False
    then have "after_connect H J t0 t1 (connect_result N) ?s ?w = Inr (s', w')"
      using assms(3) by (simp add: ConnectThread_def e Let_def)
    moreover have "fds_balanced fds ?s ?w"
      using False assms(1) by (simp add: fds_balanced_def owned_def)
    ultimately show ?thesis using after_connect_ended by blast
  qed
qed

lemma ConnectThread_ends:
  "ConnectThread H J e (s, w) = Inr (s', w') \<Longrightarrow> m_UnlockState s' \<noteq> UNKNOWN \<and> \<not> m_IsRunning s'"
  by (auto simp: ConnectThread_def Let_def split: if_split_asm prod.splits dest!: after_connect_ends)

lemma ConnectThread_genuine:
  assumes "openssl_ok H" "ConnectThread H J e (s, w) = Inr (s', w')"
    and "m_UnlockState s' = SUCCESS"
  shows "genuine H J s (password (m_ResponseData s'))"
proof -
  obtain N t0 t1 where e: "e = (N, t0, t1)" by (cases e)
  then obtain w1 where "after_connect H J t0 t1 (connect_result N) (s\<lparr>m_ClientSocket := new_socket N\<rparr>) w1 = Inr (s', w')"
    using assms by (auto simp: ConnectThread_def Let_def split: if_split_asm)
  from after_connect_genuine [OF assms(1) this assms(3)] show ?thesis
    using genuine_cong [of "s\<lparr>m_ClientSocket := new_socket N\<rparr>" s H J] by simp
qed

interpretation tcp_client: deciding_connection ConnectThread "\<lambda>(s, w). server_base.truncate s" "\<lambda>_. True"
  by unfold_locales
     (auto simp: frame_simps dest: ConnectThread_genuine ConnectThread_ends)

section \<open>What the connection guarantees\<close>

text \<open>
  C21: however an attempt over TCP ends, a bad address, no socket, a refused connection, a
  failed encryption, a broken stream or any reply, the thread leaves a decision behind, the
  socket is closed exactly once, and no descriptor is lost.
\<close>

theorem tcp_thread_cleans_up:
  assumes "m_ClientSocket s = -1" and "ConnectThread H J e (s, w) = Inr (s', w')"
  shows "PollResult s' \<noteq> UNKNOWN \<and> \<not> m_IsRunning s' \<and> m_ClientSocket s' = -1 \<and> open_fds w' = open_fds w"
  using ConnectThread_ended [OF refl assms] by (simp add: ended_def PollResult_def)

lemma tcp_exchange:
  assumes "openssl_ok H" and "json_ok J" and "\<And>n. malloc_ok H n"
    and "0 < inet_pton N (c_str (m_IP s))" "new_socket N \<noteq> -1" "connect_result N = 0"
    and "GetUnlockInfoPacket H J t0 s (heap w) = Inr (txt, hp)" "txt \<noteq> ''''"
    and "json_dump J (reply_json (m_UnlockToken s) pwd) = Some reply" "length reply \<le> 968"
    and "EncryptAESPacket (H\<lparr>byte_order := e, build := p\<rparr>) tp (bytes_of reply)
           (encryptionKey (m_PairedDevice s)) h0 = Inr (OK, n, Some pkt, h1)"
    and "fresh (build H) t1 tp"
    and "incoming (link w) = frame pkt @ rest" "readable (length pkt + 2) (link w)"
  shows "\<exists>s' w'. ConnectThread H J (N, t0, t1) (s, w) = Inr (s', w') \<and> PollResult s' = SUCCESS
           \<and> password (GetResponseData s') = pwd \<and> incoming (link w') = rest"
proof -
  let ?s = "s\<lparr>m_ClientSocket := new_socket N\<rparr>" and ?w = "w\<lparr>open_fds := new_socket N # open_fds w\<rparr>"
  have info: "GetUnlockInfoPacket H J t0 ?s (heap ?w) = Inr (txt, hp)"
    using assms(7) by (simp add: GetUnlockInfoPacket_socket)
  have d: "json_dump J (reply_json (m_UnlockToken ?s) pwd) = Some reply" using assms(9) by simp
  have enc: "EncryptAESPacket (H\<lparr>byte_order := e, build := p\<rparr>) tp (bytes_of reply)
           (encryptionKey (m_PairedDevice ?s)) h0 = Inr (OK, n, Some pkt, h1)"
    using assms(11) by simp
  have wire: "incoming (link ?w) = frame pkt @ rest" "readable (length pkt + 2) (link ?w)"
    using assms(13,14) by simp_all
  obtain s' w' where "after_connect H J t0 t1 0 ?s ?w = Inr (s', w')" "m_UnlockState s' = SUCCESS"
    "password (m_ResponseData s') = pwd" "incoming (link w') = rest"
    using after_connect_succeeds [OF assms(1-3) info assms(8) d assms(10) enc assms(12) wire] by blast
  then show ?thesis
    using assms(4-6) by (auto simp: ConnectThread_def Let_def PollResult_def GetResponseData_def)
qed

text \<open>
  C14: a phone that answers in time with the token and the password unlocks the PC: the
  thread, with the JSON library of the program at both ends, reports success and hands over exactly that password, whatever the byte order of
  the phone and the fragmentation of the stream.
\<close>

theorem tcp_exchange_succeeds:
  assumes "openssl_ok H" and "\<And>n. malloc_ok H n"
    and "0 < inet_pton N (c_str (m_IP s))" "new_socket N \<noteq> -1" "connect_result N = 0"
    and "GetUnlockInfoPacket H (nlohmann C F) t0 s (heap w) = Inr (txt, hp)" "txt \<noteq> ''''"
    and "json_dump (nlohmann C F) (reply_json (m_UnlockToken s) pwd) = Some reply" "length reply \<le> 968"
    and "EncryptAESPacket (H\<lparr>byte_order := e, build := p\<rparr>) tp (bytes_of reply)
           (encryptionKey (m_PairedDevice s)) h0 = Inr (OK, n, Some pkt, h1)"
    and "fresh (build H) t1 tp"
    and "incoming (link w) = frame pkt @ rest" "readable (length pkt + 2) (link w)"
  shows "\<exists>s' w'. ConnectThread H (nlohmann C F) (N, t0, t1) (s, w) = Inr (s', w') \<and> PollResult s' = SUCCESS
           \<and> password (GetResponseData s') = pwd \<and> incoming (link w') = rest"
  by (rule tcp_exchange [OF assms(1) nlohmann_ok assms(2-)])

subsection \<open>On concrete values\<close>

definition demo_net :: net_env where
  "demo_net = \<lparr>wsa_startup = 0, inet_pton = (\<lambda>_. 1), new_socket = 5, connect_result = 0\<rparr>"

definition demo_client :: tcp_client where
  "demo_client = server_base.extend short_base (client_base_ext (-1) (tcp_client_ext ''192.168.0.7'' 43298 ()))"

definition demo_world :: "bytes \<Rightarrow> world" where
  "demo_world bs = \<lparr>link = \<lparr>incoming = bs, rd_sizes = replicate 400 3, outgoing = [], wr_sizes = replicate 400 7\<rparr>,
     open_fds = [0, 1, 2], heap = empty_heap\<rparr>"

lemma demo_client_simps [simp]:
  "m_ClientSocket demo_client = -1" "m_UnlockToken demo_client = ''T0''"
  "m_PairedDevice demo_client = demo_device" "m_IP demo_client = ''192.168.0.7''"
  by (simp_all add: demo_client_def short_base_def demo_base_def SetUnlockInfo_def BaseUnlockServer_new_def
      server_base.extend_def)

lemma demo_client_info: "encServerData demo_client = encServerData short_base"
  by (simp add: demo_client_def encServerData_def server_base.extend_def)

definition demo_reply :: json where
  "demo_reply = JObj [(''password'', JStr ''secret''), (''unlockToken'', JStr ''T0'')]"

lemma demo_reply_plain: "plain_json demo_reply" "length (json_text demo_reply) \<le> 300"
  by code_simp+

lemma demo_reply_text:
  "json_dump demo_json (reply_json ''T0'' ''secret'') = Some (json_text demo_reply)"
  using demo_json_dump [OF demo_reply_plain(1)] by (simp add: reply_json_def demo_reply_def)

theorem tcp_thread_cleans_up_witness:
  "\<exists>s' w'. ConnectThread demo_host demo_json (demo_net\<lparr>connect_result := -1\<rparr>, 0, 0) (demo_client, demo_world []) = Inr (s', w')
     \<and> PollResult s' \<noteq> UNKNOWN \<and> open_fds w' = [0, 1, 2]"
proof -
  obtain s' w' where r: "ConnectThread demo_host demo_json (demo_net\<lparr>connect_result := -1\<rparr>, 0, 0)
      (demo_client, demo_world []) = Inr (s', w')"
    by (simp add: ConnectThread_def demo_net_def Let_def after_connect_def on_connect_failed_def
        thread_end_def close_client_eq)
  then show ?thesis
    using tcp_thread_cleans_up [OF _ r] by (auto simp: demo_world_def)
qed

theorem tcp_exchange_succeeds_witness:
  "\<exists>bs s' w'. ConnectThread demo_host demo_json (demo_net, 1000, 9000) (demo_client, demo_world bs) = Inr (s', w')
     \<and> PollResult s' = SUCCESS \<and> password (GetResponseData s') = ''secret''"
proof -
  define reply where "reply = json_text demo_reply"
  have len: "length reply \<le> 300" using demo_reply_plain(2) by (simp add: reply_def)
  then have l: "length (bytes_of reply) \<le> 968" by simp
  have big: "openssl_ok (demo_host\<lparr>byte_order := BigEndian, build := Linux\<rparr>)" by (simp add: demo_ok)
  obtain pkt h1 where enc: "EncryptAESPacket (demo_host\<lparr>byte_order := BigEndian, build := Linux\<rparr>) 5000 (bytes_of reply)
      (encryptionKey (m_PairedDevice demo_client)) empty_heap = Inr (OK, length (bytes_of reply) + 56, Some pkt, h1)"
    using phone_sends [of "bytes_of reply"] len by fastforce
  have "length pkt = length reply + 56"
    by (rule EncryptAESPacket_OK [OF big l enc]) simp
  then have rd: "readable (length pkt + 2) (link (demo_world (frame pkt)))"
    using len by (simp add: readable_def demo_world_def list_all_iff)
  obtain msg where info: "GetUnlockInfoPacket demo_host demo_json 1000 demo_client (heap (demo_world (frame pkt)))
      = Inr (msg, rand_tick (rand_tick empty_heap))" "msg \<noteq> ''''"
    using demo_info_sent [of demo_client _ 1000 empty_heap] demo_client_info short_base_info
      info_json_plain(2) demo_device_id
    by (auto simp: demo_world_def)
  have f: "fresh (build demo_host) 9000 5000" by (simp add: fresh_def PACKET_TIMEOUT_def demo_host_def)
  show ?thesis
    using tcp_exchange_succeeds [OF demo_ok demo_malloc _ _ _ info [unfolded demo_json_def] _ _ enc f _ rd, of demo_net "''secret''" "[]"]
      len demo_reply_text
    by (auto simp: demo_net_def reply_def demo_world_def demo_json_def)
qed

end
