(* ===== verification/BTUtils.thy ===== *)
theory BTUtils
  imports Utils
begin

text \<open>
  \<^verbatim>\<open>common-cpp/src/utils/BTUtils.cpp\<close>: the search for the RFCOMM channel in the service
  records of a phone (Linux) and the two address conversions (Windows). The answers of the
  Bluetooth library are parameters: \<open>sdp_env\<close> holds them, \<open>'u\<close> is its UUID type.
\<close>

section \<open>Service discovery\<close>

text \<open>One \<^verbatim>\<open>sdp_data_t\<close>: a UUID of any width, an 8-bit number, anything else.\<close>

datatype 'u sdp_data = Sdp_UUID 'u | Sdp_UINT8 byte | Sdp_Other

text \<open>
  A protocol descriptor list is a list of protocols, a protocol a list of descriptors, a
  descriptor a list of data. \<open>None\<close> stands for a call that reports failure.
\<close>

type_synonym 'u protocol = "'u sdp_data list list"

record 'u sdp_env =
  sdp_connects :: bool
  sdp_responses :: "'u protocol list option list option"
  uuid_to_proto :: "'u \<Rightarrow> int"

definition RFCOMM_UUID :: int where "RFCOMM_UUID = 3"

text \<open>The innermost loop; the state is \<^verbatim>\<open>(protocolCount, channel)\<close>.\<close>

fun scan_data :: "('u \<Rightarrow> int) \<Rightarrow> 'u sdp_data list \<Rightarrow> int \<times> int \<Rightarrow> int \<times> int" where
  "scan_data proto [] st = st"
| "scan_data proto (d # ds) (protocolCount, channel) =
     (case d of
        Sdp_UUID u \<Rightarrow> scan_data proto ds (proto u, channel)
      | Sdp_UINT8 v \<Rightarrow>
          (if protocolCount = RFCOMM_UUID then scan_data proto ds (protocolCount, int (unat v))
           else scan_data proto ds (protocolCount, channel))
      | Sdp_Other \<Rightarrow> scan_data proto ds (protocolCount, channel))"

fun scan_pds :: "('u \<Rightarrow> int) \<Rightarrow> 'u protocol \<Rightarrow> int \<times> int \<Rightarrow> int \<times> int" where
  "scan_pds proto [] st = st"
| "scan_pds proto (p # ps) st = scan_pds proto ps (scan_data proto p st)"

text \<open>\<^verbatim>\<open>protocolCount\<close> starts at 0 for every protocol, \<^verbatim>\<open>channel\<close> is kept.\<close>

fun scan_protocols :: "('u \<Rightarrow> int) \<Rightarrow> 'u protocol list \<Rightarrow> int \<Rightarrow> int" where
  "scan_protocols proto [] channel = channel"
| "scan_protocols proto (p # ps) channel = scan_protocols proto ps (snd (scan_pds proto p (0, channel)))"

fun scan_responses :: "('u \<Rightarrow> int) \<Rightarrow> 'u protocol list option list \<Rightarrow> int \<Rightarrow> int option" where
  "scan_responses proto [] channel = Some channel"
| "scan_responses proto (None # rs) channel = None"
| "scan_responses proto (Some protos # rs) channel =
     scan_responses proto rs (scan_protocols proto protos channel)"

definition FindChannelSDP :: "'u sdp_env \<Rightarrow> int" where
  "FindChannelSDP E =
     (if \<not> sdp_connects E then -1
      else case sdp_responses E of
        None \<Rightarrow> -1
      | Some responseList \<Rightarrow>
          if length responseList = 0 then -1
          else case scan_responses (uuid_to_proto E) responseList 0 of
            None \<Rightarrow> -1
          | Some channel \<Rightarrow> if channel \<le> 0 \<or> channel > 30 then -1 else channel)"

subsection \<open>The channel as a list function\<close>

text \<open>The numbers that follow an RFCOMM UUID with no other UUID between.\<close>

fun rfcomm_numbers :: "('u \<Rightarrow> int) \<Rightarrow> int \<Rightarrow> 'u sdp_data list \<Rightarrow> int list" where
  "rfcomm_numbers proto k [] = []"
| "rfcomm_numbers proto k (Sdp_UUID u # ds) = rfcomm_numbers proto (proto u) ds"
| "rfcomm_numbers proto k (Sdp_UINT8 v # ds) =
     (if k = RFCOMM_UUID then [int (unat v)] else []) @ rfcomm_numbers proto k ds"
| "rfcomm_numbers proto k (Sdp_Other # ds) = rfcomm_numbers proto k ds"

definition all_numbers :: "('u \<Rightarrow> int) \<Rightarrow> 'u protocol list \<Rightarrow> int list" where
  "all_numbers proto protos = concat (map (\<lambda>p. rfcomm_numbers proto 0 (concat p)) protos)"

lemma scan_data_append: "scan_data proto (xs @ ys) st = scan_data proto ys (scan_data proto xs st)"
  by (induction proto xs st rule: scan_data.induct) (auto split: sdp_data.split)

lemma scan_pds_concat: "scan_pds proto ps st = scan_data proto (concat ps) st"
  by (induction ps arbitrary: st) (simp_all add: scan_data_append)

lemma last_append_cons: "last (c # xs @ ys) = last (last (c # xs) # ys)"
  by (cases ys) auto

lemma scan_data_numbers: "snd (scan_data proto ds (k, c)) = last (c # rfcomm_numbers proto k ds)"
proof (induction ds arbitrary: k c)
  case (Cons d ds)
  then show ?case by (cases d) auto
qed simp

lemma scan_protocols_numbers: "scan_protocols proto ps c = last (c # all_numbers proto ps)"
proof (induction ps arbitrary: c)
  case (Cons p ps)
  have "scan_protocols proto (p # ps) c = last (last (c # rfcomm_numbers proto 0 (concat p)) # all_numbers proto ps)"
    by (simp only: scan_protocols.simps scan_pds_concat scan_data_numbers Cons.IH)
  also have "\<dots> = last (c # rfcomm_numbers proto 0 (concat p) @ all_numbers proto ps)"
    by (rule last_append_cons [symmetric])
  finally show ?case by (simp add: all_numbers_def)
qed (simp add: all_numbers_def)

lemma scan_responses_numbers:
  "scan_responses proto rs c =
     (if None \<in> set rs then None else Some (last (c # all_numbers proto (concat (map the rs)))))"
proof (induction rs arbitrary: c)
  case Nil
  then show ?case by (simp add: all_numbers_def)
next
  case (Cons r rs)
  show ?case
  proof (cases r)
    case (Some protos)
    have "last (scan_protocols proto protos c # all_numbers proto (concat (map the rs)))
            = last (c # all_numbers proto protos @ all_numbers proto (concat (map the rs)))"
      by (simp only: scan_protocols_numbers last_append_cons)
    with Some Cons show ?thesis by (simp add: all_numbers_def)
  qed simp
qed

text \<open>
  The channel is the last number announced for RFCOMM in any record, or -1: if the phone
  is unreachable, has no record, has one record without protocols, or announces a number
  outside 1 to 30, the caller gets -1 and never a channel it cannot connect to.
\<close>

theorem FindChannelSDP_last:
  "FindChannelSDP E =
     (case sdp_responses E of
        None \<Rightarrow> -1
      | Some rs \<Rightarrow>
          let channel = last (0 # all_numbers (uuid_to_proto E) (concat (map the rs)))
          in if sdp_connects E \<and> None \<notin> set rs \<and> 1 \<le> channel \<and> channel \<le> 30 then channel else -1)"
  by (auto simp: FindChannelSDP_def scan_responses_numbers Let_def all_numbers_def split: option.split)

section \<open>Addresses\<close>

text \<open>
  \<^verbatim>\<open>str2ba\<close>: the scanner (\<^verbatim>\<open>sscanf_s\<close> with \<^verbatim>\<open>"%02x:%02x:%02x:%02x:%02x:%02x"\<close>) is the
  parameter \<open>scan\<close>; it delivers the numbers converted. The result is the return value and
  the address written, if any.
\<close>

definition str2ba :: "(string \<Rightarrow> nat list) \<Rightarrow> string \<Rightarrow> int \<times> 64 word option" where
  "str2ba scan straddr =
     (let aaddr = scan straddr in
      if length aaddr \<noteq> 6 then (1, None)
      else (0, Some (foldl (\<lambda>btaddr i. push_bit 8 btaddr + word_of_nat (i mod 256)) 0 aaddr)))"

text \<open>
  \<^verbatim>\<open>ba2str\<close>: \<^verbatim>\<open>sprintf_s\<close> returns the number of characters it printed, 17, and the code
  compares it with 6.
\<close>

definition ba_byte :: "64 word \<Rightarrow> nat \<Rightarrow> byte" where
  "ba_byte btaddr i = ucast (and (drop_bit (i * 8) btaddr) 0xFF)"

definition ba_text :: "byte list \<Rightarrow> string" where
  "ba_text bs = join_with CHR '':'' (map hex_byte bs)"

definition ba2str :: "64 word \<Rightarrow> int \<times> string" where
  "ba2str btaddr =
     (let text = ba_text (map (\<lambda>k. ba_byte btaddr (5 - k)) [0..<6])
      in (if length text \<noteq> 6 then 1 else 0, text))"

lemma unat_ba_byte: "unat (ba_byte btaddr i) = unat btaddr div 256 ^ i mod 256"
proof -
  have "ba_byte btaddr i = word_of_nat (unat btaddr div 2 ^ (i * 8))"
  proof -
    have "and (drop_bit (i * 8) btaddr) 0xFF = take_bit 8 (drop_bit (i * 8) btaddr)"
      by (simp add: take_bit_eq_mask mask_eq_exp_minus_1)
    then have "ba_byte btaddr i = ucast (take_bit 8 (drop_bit (i * 8) btaddr))" by (simp add: ba_byte_def)
    also have "\<dots> = ucast (drop_bit (i * 8) btaddr)"
      by (rule bit_word_eqI) (simp add: bit_simps)
    also have "\<dots> = word_of_nat (unat (drop_bit (i * 8) btaddr))" by simp
    finally show ?thesis unfolding unat_drop_bit_eq by (simp only: drop_bit_eq_div)
  qed
  moreover have "(2 :: nat) ^ (i * 8) = 256 ^ i"
    by (simp add: mult.commute [of i] power_mult)
  ultimately show ?thesis by (simp add: unat_of_nat)
qed

definition be_value :: "nat list \<Rightarrow> nat" where
  "be_value ns = foldl (\<lambda>a i. 256 * a + i mod 256) 0 ns"

lemma str2ba_fold:
  "foldl (\<lambda>btaddr i. push_bit 8 btaddr + word_of_nat (i mod 256)) (word_of_nat a) ns
     = (word_of_nat (foldl (\<lambda>a i. 256 * a + i mod 256) a ns) :: 64 word)"
proof (induction ns arbitrary: a)
  case (Cons i ns)
  have "push_bit 8 (word_of_nat a) + word_of_nat (i mod 256) = (word_of_nat (256 * a + i mod 256) :: 64 word)"
    by (simp add: push_bit_eq_mult mult.commute)
  then show ?case by (simp only: foldl_Cons Cons.IH)
qed simp

lemma str2ba_value: "length (scan s) = 6 \<Longrightarrow> str2ba scan s = (0, Some (word_of_nat (be_value (scan s))))"
  using str2ba_fold [of 0 "scan s"] by (simp add: str2ba_def be_value_def)

lemma be_bytes_digits: "be_bytes n x = map (\<lambda>k. word_of_nat (x div 256 ^ (n - 1 - k) mod 256)) [0..<n]"
proof (induction n arbitrary: x)
  case (Suc n)
  have "x div 256 div 256 ^ (n - 1 - k) = x div 256 ^ (n - k)" if "k < n" for k
  proof -
    have "n - k = Suc (n - 1 - k)" using that by simp
    then show ?thesis by (simp only: power_Suc div_mult2_eq)
  qed
  then have "map (\<lambda>k. word_of_nat (x div 256 div 256 ^ (n - 1 - k) mod 256) :: byte) [0..<n]
      = map (\<lambda>k. word_of_nat (x div 256 ^ (n - k) mod 256)) [0..<n]"
    by (intro map_cong refl) simp
  with Suc.IH show ?case by simp
qed simp

lemma ba_byte_eq: "ba_byte btaddr i = word_of_nat (unat btaddr div 256 ^ i mod 256)"
  using unat_ba_byte [of btaddr i] by (metis of_nat_unat ucast_id)

lemma ba_bytes: "map (\<lambda>k. ba_byte btaddr (5 - k)) [0..<6] = be_bytes 6 (unat btaddr)"
  by (simp only: be_bytes_digits ba_byte_eq diff_diff_left) simp

lemma be_value_bytes: "be_value (map unat bs) = be_nat (bs :: bytes)"
proof -
  have "foldl (\<lambda>a i. 256 * a + i mod 256) x (map unat bs) = foldl (\<lambda>a b. 256 * a + unat b) x bs" for x
    by (induction bs arbitrary: x) (simp_all add: unat_byte_less)
  then show ?thesis by (simp add: be_value_def be_nat_def)
qed

lemma length_join_hex: "length (join_with c (map hex_byte bs)) = 3 * length bs - 1"
  by (induction bs rule: induct_list012) (simp_all add: hex_byte_def)

lemma length_ba_text: "length bs = 6 \<Longrightarrow> length (ba_text bs) = 17"
  using length_join_hex [of _ bs] by (simp add: ba_text_def)

text \<open>
  The text \<^verbatim>\<open>ba2str\<close> makes of a Bluetooth address has 17 characters, and \<^verbatim>\<open>str2ba\<close> gets
  the lower 48 bits of the address back from it, for every scanner that reads the six
  hexadecimal pairs; but \<^verbatim>\<open>ba2str\<close> reports failure (1) for every address, because it
  compares the number of characters printed with 6.
\<close>

theorem ba_roundtrip:
  assumes "\<And>bs. length bs = 6 \<Longrightarrow> scan (ba_text bs) = map unat bs"
  shows "str2ba scan (snd (ba2str btaddr)) = (0, Some (word_of_nat (unat btaddr mod 2 ^ 48)))
         \<and> length (snd (ba2str btaddr)) = 17 \<and> fst (ba2str btaddr) = 1"
proof -
  have t: "snd (ba2str btaddr) = ba_text (be_bytes 6 (unat btaddr))"
    by (simp only: ba2str_def Let_def snd_conv ba_bytes)
  have s: "scan (ba_text (be_bytes 6 (unat btaddr))) = map unat (be_bytes 6 (unat btaddr))"
    by (rule assms) simp
  have "be_value (map unat (be_bytes 6 (unat btaddr))) = unat btaddr mod 256 ^ 6"
    by (simp only: be_value_bytes be_nat_be_bytes)
  then have "str2ba scan (ba_text (be_bytes 6 (unat btaddr))) = (0, Some (word_of_nat (unat btaddr mod 256 ^ 6)))"
    by (simp add: str2ba_value s)
  moreover have l: "length (ba_text (be_bytes 6 (unat btaddr))) = 17"
    by (rule length_ba_text) simp
  moreover have "fst (ba2str btaddr) = (if length (ba_text (be_bytes 6 (unat btaddr))) \<noteq> 6 then 1 else 0)"
    by (simp only: ba2str_def Let_def fst_conv ba_bytes)
  ultimately show ?thesis by (simp add: t)
qed

text \<open>A scanner to evaluate on: it reads the pairs at the fixed positions.\<close>

definition demo_scan :: "string \<Rightarrow> nat list" where
  "demo_scan s = map unat (the (from_hex (filter (\<lambda>c. c \<noteq> CHR '':'') s)))"

lemma hex_digits_no_colon: "list_all (\<lambda>n. hex_digit n \<noteq> CHR '':'') [0..<16]"
  by (simp add: hex_digit_def upt_rec)

lemma hex_byte_no_colon: "filter (\<lambda>c. c \<noteq> CHR '':'') (hex_byte b) = hex_byte b"
  using byte_nibbles [of b] hex_digits_no_colon by (simp add: hex_byte_def list_all_iff)

lemma demo_scan_text: "demo_scan (ba_text bs) = map unat bs"
proof -
  have "filter (\<lambda>c. c \<noteq> CHR '':'') (join_with CHR '':'' (map hex_byte bs)) = concat (map hex_byte bs)"
    by (induction bs rule: induct_list012) (simp_all add: hex_byte_no_colon)
  then show ?thesis by (simp add: demo_scan_def ba_text_def from_hex_bytes)
qed

theorem ba_roundtrip_witness:
  "str2ba demo_scan (snd (ba2str 0x001122334455)) = (0, Some 0x001122334455) \<and> fst (ba2str 0x001122334455) = 1"
  using ba_roundtrip [of demo_scan "0x001122334455"] demo_scan_text by simp

end
