(* ===== verification/BTUnlockClient.thy ===== *)
theory BTUnlockClient
  imports UnlockClient BTUtils
begin

text \<open>
  \<^verbatim>\<open>common-cpp/src/connection/clients/BTUnlockClient.cpp\<close>: the connection over Bluetooth.
  On Linux the channel is looked up in the service records first; on Apple neither the
  thread function nor \<^verbatim>\<open>Stop\<close> has a body.
\<close>

section \<open>State and operations\<close>

record bt_client = client_base +
  m_DeviceAddress :: string
  m_Channel :: int

definition BTUnlockClient_new ::
  "endian \<Rightarrow> (nat \<Rightarrow> bytes) \<Rightarrow> string \<Rightarrow> PairedDevice \<Rightarrow> bt_client" where
  "BTUnlockClient_new e draw address device =
     server_base.extend (BaseUnlockServer_new e draw device)
       (client_base_ext (-1) (bt_client_ext address (-1) ()))"

definition BT_Start :: "'x host \<Rightarrow> net_env \<Rightarrow> bt_client \<Rightarrow> fault + bool \<times> bt_client" where
  "BT_Start H N s =
     (if m_IsRunning s then Inr (True, s)
      else if build H = Windows \<and> wsa_startup N \<noteq> 0 then Inr (False, s)
      else
        let s = s\<lparr>m_IsRunning := True\<rparr> in
        if m_AcceptThread s then Inl Terminate else Inr (True, s\<lparr>m_AcceptThread := True\<rparr>))"

text \<open>Its own copies of the packet functions.\<close>

definition BT_ReadPacket :: "endian \<Rightarrow> stream \<Rightarrow> fault + bytes \<times> stream" where
  "BT_ReadPacket e s =
     bind_err (read_loop 2 0 (replicate 2 0) s) (\<lambda>(r, s).
     case r of
       None \<Rightarrow> Inr ([], s)
     | Some lenBuffer \<Rightarrow>
         let packetSize = ntohs e (word_of_nat (mem_load e lenBuffer))
         in if packetSize = 0 then Inr ([], s)
            else
              bind_err (read_loop packetSize 0 (replicate (unat packetSize) 0) s) (\<lambda>(r, s).
              case r of None \<Rightarrow> Inr ([], s) | Some buffer \<Rightarrow> Inr (buffer, s)))"

definition BT_WritePacket :: "endian \<Rightarrow> bytes \<Rightarrow> stream \<Rightarrow> stream" where
  "BT_WritePacket e data s =
     (let packetSize = htons e (word_of_nat (length data)) in
      case write_loop (mem_store e 2 (unat packetSize)) 0 s of
        (False, s) \<Rightarrow> s
      | (True, s) \<Rightarrow> snd (write_loop data 0 s))"

definition BT_after_connect ::
  "'x host \<Rightarrow> json_lib \<Rightarrow> 64 word \<Rightarrow> 64 word \<Rightarrow> int \<Rightarrow> bt_client \<Rightarrow> world \<Rightarrow> fault + bt_client \<times> world" where
  "BT_after_connect H J t0 t1 result s w =
     (if result = 0 then
        let s = s\<lparr>m_HasConnection := True\<rparr> in
        bind_err (GetUnlockInfoPacket H J t0 s (heap w)) (\<lambda>(serverDataStr, hp).
        let w = w\<lparr>heap := hp\<rparr> in
        if serverDataStr = '''' then
          Inr (close_client (s\<lparr>m_IsRunning := False, m_UnlockState := UNK_ERROR\<rparr>) w)
        else
          let w = w\<lparr>link := BT_WritePacket (byte_order H) (bytes_of serverDataStr) (link w)\<rparr> in
          bind_err (BT_ReadPacket (byte_order H) (link w)) (\<lambda>(response, l).
          let w = w\<lparr>link := l\<rparr> in
          bind_err (OnResponseReceived H J t1 response s (heap w)) (\<lambda>(s, hp).
          Inr (thread_end s (w\<lparr>heap := hp\<rparr>)))))
      else Inr (thread_end (s\<lparr>m_UnlockState := CONNECT_ERROR\<rparr>) w))"

text \<open>From \<^verbatim>\<open>socket()\<close> on.\<close>

definition BT_connect ::
  "'x host \<Rightarrow> json_lib \<Rightarrow> net_env \<Rightarrow> 64 word \<Rightarrow> 64 word \<Rightarrow> bt_client \<Rightarrow> world \<Rightarrow> fault + bt_client \<times> world" where
  "BT_connect H J N t0 t1 s w =
     (let s = s\<lparr>m_ClientSocket := new_socket N\<rparr> in
      if m_ClientSocket s = -1 then Inr (s\<lparr>m_IsRunning := False, m_UnlockState := UNK_ERROR\<rparr>, w)
      else BT_after_connect H J t0 t1 (connect_result N) s
             (w\<lparr>open_fds := m_ClientSocket s # open_fds w\<rparr>))"

definition BT_ConnectThread ::
  "'x host \<Rightarrow> json_lib \<Rightarrow> net_env \<times> 'u sdp_env \<times> 64 word \<times> 64 word \<Rightarrow> bt_client \<times> world
   \<Rightarrow> fault + bt_client \<times> world" where
  "BT_ConnectThread H J env sw =
     (case env of (N, sdp, t0, t1) \<Rightarrow> case sw of (s, w) \<Rightarrow>
      (case build H of
         Linux \<Rightarrow>
           let s = s\<lparr>m_Channel := FindChannelSDP sdp\<rparr> in
           if m_Channel s = -1
           then Inr (s\<lparr>m_IsRunning := False, m_UnlockState := CONNECT_ERROR\<rparr>, w)
           else BT_connect H J N t0 t1 s w
       | Windows \<Rightarrow> BT_connect H J N t0 t1 s w
       | Apple \<Rightarrow> Inr (s, w)))"

definition BT_Stop ::
  "'x host \<Rightarrow> json_lib \<Rightarrow> 64 word \<Rightarrow> blocked \<Rightarrow> bt_client \<Rightarrow> world \<Rightarrow> fault + bt_client \<times> world" where
  "BT_Stop H J now b s w =
     (if \<not> m_IsRunning s then Inr (s, w)
      else if build H = Apple then Inr (s, w)
      else
        let w = (if m_ClientSocket s \<noteq> -1 \<and> m_HasConnection s
                 then w\<lparr>link := snd (sock_write (bytes_of ''CLOSE'') (link w))\<rparr> else w);
            (s, w) = close_client (s\<lparr>m_IsRunning := False, m_HasConnection := False\<rparr>) w
        in if m_AcceptThread s
           then bind_err (drain H J now b s w) (\<lambda>(s, w). Inr (s\<lparr>m_AcceptThread := False\<rparr>, w))
           else Inr (s, w))"

section \<open>The same protocol as over TCP\<close>

lemma BT_ReadPacket_eq: "BT_ReadPacket = ReadPacket"
  by (simp add: fun_eq_iff BT_ReadPacket_def ReadPacket_def)

lemma BT_WritePacket_eq: "BT_WritePacket = WritePacket"
  by (simp add: fun_eq_iff BT_WritePacket_def WritePacket_def)

interpretation bt: packet_link BT_ReadPacket BT_WritePacket
  unfolding BT_ReadPacket_eq BT_WritePacket_eq by (rule tcp.packet_link_axioms)

lemma BT_after_connect_eq: "BT_after_connect H J t0 t1 result s w = after_connect H J t0 t1 result s w"
  by (auto simp: BT_after_connect_def after_connect_def on_connected_def on_packet_def on_connect_failed_def
      BT_ReadPacket_eq BT_WritePacket_eq Let_def bind_err_def split: sum.split prod.split)

lemma BT_connect_ended:
  assumes "open_fds w = fds" "m_ClientSocket s = -1" "BT_connect H J N t0 t1 s w = Inr (s', w')"
  shows "ended fds s' w'"
proof (cases "new_socket N = -1")
  case True
  then show ?thesis using assms by (auto simp: BT_connect_def ended_def)
next
  case False
  then have "after_connect H J t0 t1 (connect_result N) (s\<lparr>m_ClientSocket := new_socket N\<rparr>)
      (w\<lparr>open_fds := new_socket N # open_fds w\<rparr>) = Inr (s', w')"
    using assms(3) by (simp add: BT_connect_def BT_after_connect_eq)
  moreover have "fds_balanced fds (s\<lparr>m_ClientSocket := new_socket N\<rparr>) (w\<lparr>open_fds := new_socket N # open_fds w\<rparr>)"
    using False assms(1) by (simp add: fds_balanced_def owned_def)
  ultimately show ?thesis using after_connect_ended by blast
qed

lemma BT_ConnectThread_cases:
  assumes "BT_ConnectThread H J e (s, w) = Inr (s', w')"
  obtains (apple) "build H = Apple" "s' = s" "w' = w"
  | (nochannel) "s' = s\<lparr>m_Channel := -1, m_IsRunning := False, m_UnlockState := CONNECT_ERROR\<rparr>" "w' = w"
  | (connect) N t0 t1 c where "BT_connect H J N t0 t1 (s\<lparr>m_Channel := c\<rparr>) w = Inr (s', w')"
proof -
  obtain N sdp t0 t1 where e: "e = (N, sdp, t0, t1)" by (cases e)
  have same: "s\<lparr>m_Channel := m_Channel s\<rparr> = s" by simp
  show thesis
  proof (cases "build H")
    case Windows
    then show thesis using assms connect [of N t0 t1 "m_Channel s"] same by (simp add: BT_ConnectThread_def e)
  next
    case Linux
    then show thesis
      using assms nochannel connect [of N t0 t1 "FindChannelSDP sdp"]
      by (auto simp: BT_ConnectThread_def e Let_def split: if_split_asm)
  next
    case Apple
    then show thesis using assms apple by (simp add: BT_ConnectThread_def e)
  qed
qed

lemma BT_connect_genuine:
  assumes "openssl_ok H" "BT_connect H J N t0 t1 s w = Inr (s', w')" "m_UnlockState s' = SUCCESS"
  shows "genuine H J s (password (m_ResponseData s'))"
proof -
  have "new_socket N \<noteq> -1" using assms(2,3) by (auto simp: BT_connect_def split: if_split_asm)
  then have "after_connect H J t0 t1 (connect_result N) (s\<lparr>m_ClientSocket := new_socket N\<rparr>)
      (w\<lparr>open_fds := new_socket N # open_fds w\<rparr>) = Inr (s', w')"
    using assms(2) by (simp add: BT_connect_def BT_after_connect_eq)
  from after_connect_genuine [OF assms(1) this assms(3)] show ?thesis
    using genuine_cong [of "s\<lparr>m_ClientSocket := new_socket N\<rparr>" s H J] by simp
qed

lemma BT_ConnectThread_genuine:
  assumes "openssl_ok H" "BT_ConnectThread H J e (s, w) = Inr (s', w')" "m_UnlockState s = UNKNOWN"
    and "m_UnlockState s' = SUCCESS"
  shows "genuine H J s (password (m_ResponseData s'))"
  using assms(2)
proof (cases rule: BT_ConnectThread_cases)
  case (connect N t0 t1 c)
  then show ?thesis
    using BT_connect_genuine [OF assms(1) connect assms(4)] genuine_cong [of "s\<lparr>m_Channel := c\<rparr>" s H J] by simp
qed (use assms in auto)

lemma BT_ConnectThread_ends:
  assumes "BT_ConnectThread H J e (s, w) = Inr (s', w')" "build H \<noteq> Apple"
  shows "m_UnlockState s' \<noteq> UNKNOWN \<and> \<not> m_IsRunning s'"
  using assms(1)
proof (cases rule: BT_ConnectThread_cases)
  case (connect N t0 t1 c)
  then show ?thesis
    by (auto simp: BT_connect_def BT_after_connect_eq Let_def split: if_split_asm dest!: after_connect_ends)
qed (use assms in auto)

interpretation bt_client: deciding_connection BT_ConnectThread "\<lambda>(s, w). server_base.truncate s" "\<lambda>p. p \<noteq> Apple"
  by unfold_locales
     (auto simp: frame_simps dest: BT_ConnectThread_genuine BT_ConnectThread_ends)

section \<open>What the connection guarantees\<close>

text \<open>
  On Linux and Windows an attempt over Bluetooth ends as one over TCP does: a decision is
  left behind, no descriptor is lost; a phone without a usable channel is a connect error
  before any socket is opened. On Apple the thread does nothing at all, so the attempt
  stays undecided.
\<close>

theorem bt_thread_cleans_up:
  assumes "m_ClientSocket s = -1" "m_UnlockState s = UNKNOWN"
    and "BT_ConnectThread H J (N, sdp, t0, t1) (s, w) = Inr (s', w')"
  shows "open_fds w' = open_fds w \<and> m_ClientSocket s' = -1
         \<and> (PollResult s' = UNKNOWN \<longleftrightarrow> build H = Apple)
         \<and> (build H = Linux \<and> FindChannelSDP sdp = -1 \<longrightarrow> PollResult s' = CONNECT_ERROR)"
proof -
  have "open_fds w' = open_fds w \<and> m_ClientSocket s' = -1"
    using assms(3)
  proof (cases rule: BT_ConnectThread_cases)
    case (connect N t0 t1 c)
    then show ?thesis using BT_connect_ended [OF refl _ connect] assms(1) by (simp add: ended_def)
  qed (use assms in auto)
  moreover have "PollResult s' = UNKNOWN \<longleftrightarrow> build H = Apple"
    using assms(2,3) BT_ConnectThread_ends [OF assms(3)]
    by (auto simp: PollResult_def BT_ConnectThread_def)
  moreover have "build H = Linux \<and> FindChannelSDP sdp = -1 \<longrightarrow> PollResult s' = CONNECT_ERROR"
    using assms(3) by (auto simp: PollResult_def BT_ConnectThread_def)
  ultimately show ?thesis by blast
qed

definition demo_bt :: bt_client where
  "demo_bt = server_base.extend short_base (client_base_ext (-1) (bt_client_ext ''00:11:22:33:44:55'' (-1) ()))"

definition demo_sdp :: "int sdp_env" where
  "demo_sdp = \<lparr>sdp_connects = True, sdp_responses = Some [Some [[[Sdp_UUID 3, Sdp_UINT8 31]]]], uuid_to_proto = (\<lambda>u. u)\<rparr>"

definition demo_bt_net :: net_env where
  "demo_bt_net = \<lparr>wsa_startup = 0, inet_pton = (\<lambda>_. 1), new_socket = 5, connect_result = 0\<rparr>"

definition demo_bt_world :: world where
  "demo_bt_world = \<lparr>link = demo_stream [] 3, open_fds = [0], heap = empty_heap\<rparr>"

theorem bt_thread_cleans_up_witness:
  "\<exists>s'. BT_ConnectThread demo_host demo_json (demo_bt_net, demo_sdp, 0, 0) (demo_bt, demo_bt_world) = Inr (s', demo_bt_world)
     \<and> PollResult s' = CONNECT_ERROR"
proof -
  have c: "FindChannelSDP demo_sdp = -1" by (simp add: FindChannelSDP_def demo_sdp_def RFCOMM_UUID_def)
  then obtain s' where r: "BT_ConnectThread demo_host demo_json (demo_bt_net, demo_sdp, 0, 0) (demo_bt, demo_bt_world) = Inr (s', demo_bt_world)"
    by (simp add: BT_ConnectThread_def demo_host_def)
  have i: "m_ClientSocket demo_bt = -1" "m_UnlockState demo_bt = UNKNOWN"
    by (simp_all add: demo_bt_def short_base_def demo_base_def SetUnlockInfo_def BaseUnlockServer_new_def
        server_base.extend_def)
  have "build demo_host = Linux" by (simp add: demo_host_def)
  then show ?thesis using bt_thread_cleans_up [OF i r] c r by blast
qed

lemma Stop_running:
  assumes "fds_balanced fds s w" "m_IsRunning s" "m_AcceptThread s" "b \<noteq> Returned"
  shows "\<exists>s' w'. Stop H J now b s w = Inr (s', w') \<and> ended fds s' w' \<and> \<not> m_AcceptThread s'
           \<and> m_UnlockState s' = (if b = InConnect then CONNECT_ERROR else DATA_ERROR)"
  using assms
  by (cases b)
     (auto simp: Stop_def Let_def close_client_eq drain_def on_connect_failed_def on_packet_def thread_end_def
       OnResponseReceived_def fds_balanced_def owned_def ended_def)

lemma BT_Stop_eq: "build H \<noteq> Apple \<Longrightarrow> BT_Stop H J now b s w = Stop H J now b s w"
  by (simp add: BT_Stop_def Stop_def)



end
