(* ===== verification/TCPUnlockServer.thy ===== *)
theory TCPUnlockServer
  imports UnlockClient
begin

text \<open>
  \<^verbatim>\<open>common-cpp/src/connection/servers/TCPUnlockServer.cpp\<close>: the connection for devices paired
  through the cloud, which waits for the phone to connect. Here 0 marks a descriptor that
  is not open. What another thread does to \<^verbatim>\<open>m_IsRunning\<close> while the accept thread polls is
  part of the environment: each turn of the loop sees a value of it and a result of
  \<^verbatim>\<open>select\<close>.
\<close>

section \<open>State and operations\<close>

record tcp_server = server_base +
  m_ServerSocket :: int
  m_PeerSocket :: int
  sin_port :: "16 word"

record srv_env =
  srv_wsa :: int
  srv_socket :: int
  srv_setsockopt :: int
  srv_bind :: int
  srv_listen :: int
  srv_select :: "(bool \<times> int) list"
  srv_accept :: int

definition TCPUnlockServer_new :: "endian \<Rightarrow> (nat \<Rightarrow> bytes) \<Rightarrow> int \<Rightarrow> PairedDevice \<Rightarrow> tcp_server" where
  "TCPUnlockServer_new e draw port device =
     (server_base.extend (BaseUnlockServer_new e draw device)
        (tcp_server_ext 0 0 (htons e (word_of_int port)) ()))
       \<lparr>m_IsRunning := False, m_HasConnection := False, m_UnlockState := UNKNOWN, m_ResponseData := no_response\<rparr>"

text \<open>The macro of this file: 0 is the value that is not closed.\<close>

definition SAFE_CLOSE0 :: "int \<Rightarrow> world \<Rightarrow> int \<times> world" where
  "SAFE_CLOSE0 x w = (if x \<noteq> 0 then (0, w\<lparr>open_fds := remove1 x (open_fds w)\<rparr>) else (x, w))"

definition close_server :: "tcp_server \<Rightarrow> world \<Rightarrow> tcp_server \<times> world" where
  "close_server s w = (let (fd, w) = SAFE_CLOSE0 (m_ServerSocket s) w in (s\<lparr>m_ServerSocket := fd\<rparr>, w))"

definition close_peer :: "tcp_server \<Rightarrow> world \<Rightarrow> tcp_server \<times> world" where
  "close_peer s w = (let (fd, w) = SAFE_CLOSE0 (m_PeerSocket s) w in (s\<lparr>m_PeerSocket := fd\<rparr>, w))"

text \<open>\<^verbatim>\<open>socket\<close> and \<^verbatim>\<open>accept\<close> open a descriptor unless they return a negative number.\<close>

definition opened :: "int \<Rightarrow> world \<Rightarrow> world" where
  "opened fd w = (if fd < 0 then w else w\<lparr>open_fds := fd # open_fds w\<rparr>)"

definition Server_Start ::
  "'x host \<Rightarrow> srv_env \<Rightarrow> tcp_server \<Rightarrow> world \<Rightarrow> fault + bool \<times> tcp_server \<times> world" where
  "Server_Start H N s w =
     (if m_IsRunning s then Inr (True, s, w)
      else if build H = Windows \<and> srv_wsa N \<noteq> 0 then Inr (False, s, w)
      else
        let s = s\<lparr>m_ServerSocket := srv_socket N\<rparr>; w = opened (srv_socket N) w in
        if m_ServerSocket s = 0 then Inr (False, s, w)
        else if srv_setsockopt N \<noteq> 0 then Inr (False, s, w)
        else if srv_bind N < 0 then Inr (False, s, w)
        else if srv_listen N = -1 then Inr (False, s, w)
        else
          let s = s\<lparr>m_IsRunning := True\<rparr> in
          if m_AcceptThread s then Inl Terminate else Inr (True, s\<lparr>m_AcceptThread := True\<rparr>, w))"

text \<open>
  The polling loop: it ends with an error of \<^verbatim>\<open>select\<close> or with the last status; \<open>None\<close> while
  it still waits.
\<close>

fun accept_loop :: "(bool \<times> int) list \<Rightarrow> int \<Rightarrow> (bool \<times> int) option" where
  "accept_loop [] selectStatus = None"
| "accept_loop ((running, status) # rest) selectStatus =
     (if \<not> running then Some (True, selectStatus)
      else if status = -1 then Some (False, status)
      else if status > 0 then Some (True, status)
      else accept_loop rest status)"

text \<open>\<^verbatim>\<open>AcceptThread\<close> from the accepted connection to its end: one read, one evaluation.\<close>

definition serve_peer ::
  "'x host \<Rightarrow> json_lib \<Rightarrow> 64 word \<Rightarrow> tcp_server \<Rightarrow> world \<Rightarrow> fault + tcp_server \<times> world" where
  "serve_peer H J now s w =
     (let s = s\<lparr>m_HasConnection := True\<rparr> in
      case sock_read 1024 (link w) of
        (None, l) \<Rightarrow>
          let (s, w) = close_peer (s\<lparr>m_UnlockState := CANCELED\<rparr>) (w\<lparr>link := l\<rparr>)
          in Inr (close_server s w)
      | (Some buffer, l) \<Rightarrow>
          bind_err (OnResponseReceived H J now buffer s (heap w)) (\<lambda>(s, hp).
          let (s, w) = close_peer s (w\<lparr>link := l, heap := hp\<rparr>)
          in Inr (close_server s w)))"

text \<open>
  \<^verbatim>\<open>AcceptThread\<close>. A descriptor is an unsigned number on Windows, so that the test for a
  failed \<^verbatim>\<open>accept\<close> is never true there.
\<close>

definition AcceptThread ::
  "'x host \<Rightarrow> json_lib \<Rightarrow> srv_env \<times> 64 word \<Rightarrow> tcp_server \<times> world \<Rightarrow> fault + tcp_server \<times> world" where
  "AcceptThread H J env sw =
     (case env of (N, now) \<Rightarrow> case sw of (s, w) \<Rightarrow>
      (case accept_loop (srv_select N) 0 of
         None \<Rightarrow> Inr (s, w)
       | Some (ok, selectStatus) \<Rightarrow>
           if \<not> ok \<or> selectStatus = 0 then Inr (close_server (s\<lparr>m_IsRunning := False\<rparr>) w)
           else
             let s = s\<lparr>m_PeerSocket := srv_accept N\<rparr>; w = opened (srv_accept N) w in
             if build H \<noteq> Windows \<and> m_PeerSocket s < 0
             then Inr (close_server (s\<lparr>m_IsRunning := False\<rparr>) w)
             else serve_peer H J now s w))"

text \<open>Joining a thread that is not joinable throws; nothing catches it.\<close>

definition Server_Stop :: "tcp_server \<Rightarrow> world \<Rightarrow> fault + tcp_server \<times> world" where
  "Server_Stop s w =
     (if \<not> m_IsRunning s then Inr (s, w)
      else
        let (s, w) = close_peer s w; (s, w) = close_server s w;
            s = s\<lparr>m_IsRunning := False, m_HasConnection := False\<rparr>
        in if m_AcceptThread s then Inr (s\<lparr>m_AcceptThread := False\<rparr>, w) else Inl Terminate)"

section \<open>Lemmas\<close>

lemma close_server_eq:
  "close_server s w =
     (s\<lparr>m_ServerSocket := 0\<rparr>,
      if m_ServerSocket s = 0 then w else w\<lparr>open_fds := remove1 (m_ServerSocket s) (open_fds w)\<rparr>)"
  by (simp add: close_server_def SAFE_CLOSE0_def)

lemma close_peer_eq:
  "close_peer s w =
     (s\<lparr>m_PeerSocket := 0\<rparr>,
      if m_PeerSocket s = 0 then w else w\<lparr>open_fds := remove1 (m_PeerSocket s) (open_fds w)\<rparr>)"
  by (simp add: close_peer_def SAFE_CLOSE0_def)

lemma OnResponseReceived_descriptors:
  assumes "OnResponseReceived H J now buf s h = Inr (s', h')"
  shows "m_ServerSocket s' = m_ServerSocket s" "m_PeerSocket s' = m_PeerSocket s"
  using OnResponseReceived_frame(6) [OF assms] by (cases s; cases s'; simp)+

lemma serve_peer_result:
  assumes "serve_peer H J now s w = Inr (s', w')"
  shows "m_ServerSocket s' = 0 \<and> m_PeerSocket s' = 0 \<and> m_HasConnection s' \<and> m_IsRunning s' = m_IsRunning s
         \<and> m_UnlockState s' \<noteq> UNKNOWN \<and> outgoing (link w') = outgoing (link w)"
    and "open_fds w = m_PeerSocket s # m_ServerSocket s # fds \<Longrightarrow> m_PeerSocket s \<noteq> 0 \<Longrightarrow>
         m_ServerSocket s \<noteq> 0 \<Longrightarrow> open_fds w' = fds"
    and "openssl_ok H \<Longrightarrow> m_UnlockState s' = SUCCESS \<Longrightarrow> genuine H J s (password (m_ResponseData s'))"
proof -
  define s0 where "s0 = s\<lparr>m_HasConnection := True\<rparr>"
  have s0: "m_ServerSocket s0 = m_ServerSocket s" "m_PeerSocket s0 = m_PeerSocket s" "m_HasConnection s0"
    "m_IsRunning s0 = m_IsRunning s" "genuine H J s0 = genuine H J s"
    using genuine_cong [of s0 s H J] by (auto simp: s0_def fun_eq_iff)
  obtain r l where rd: "sock_read 1024 (link w) = (r, l)" by force
  have "(m_ServerSocket s' = 0 \<and> m_PeerSocket s' = 0 \<and> m_HasConnection s' \<and> m_IsRunning s' = m_IsRunning s
         \<and> m_UnlockState s' \<noteq> UNKNOWN \<and> outgoing (link w') = outgoing (link w))
       \<and> (open_fds w = m_PeerSocket s # m_ServerSocket s # fds \<longrightarrow> m_PeerSocket s \<noteq> 0 \<longrightarrow>
         m_ServerSocket s \<noteq> 0 \<longrightarrow> open_fds w' = fds)
       \<and> (openssl_ok H \<longrightarrow> m_UnlockState s' = SUCCESS \<longrightarrow> genuine H J s (password (m_ResponseData s')))"
  proof (cases r)
    case None
    then have "s' = s0\<lparr>m_UnlockState := CANCELED, m_PeerSocket := 0, m_ServerSocket := 0\<rparr>"
      "link w' = l" "open_fds w = m_PeerSocket s # m_ServerSocket s # fds \<longrightarrow> m_PeerSocket s \<noteq> 0 \<longrightarrow>
         m_ServerSocket s \<noteq> 0 \<longrightarrow> open_fds w' = fds"
      using assms rd by (auto simp: serve_peer_def s0_def close_peer_eq close_server_eq Let_def)
    then show ?thesis using s0 sock_read_None_outgoing rd None by simp
  next
    case (Some buf)
    then obtain s1 hp where o: "OnResponseReceived H J now buf s0 (heap w) = Inr (s1, hp)"
      and e: "(let (s, w) = close_peer s1 (w\<lparr>link := l, heap := hp\<rparr>) in close_server s w) = (s', w')"
      using assms rd by (auto simp: serve_peer_def s0_def [symmetric] Let_def elim!: bind_err_InrE split: prod.splits)
    note f = OnResponseReceived_frame [OF o] OnResponseReceived_descriptors [OF o]
    have "length buf < 2 ^ 31" using sock_read_Some(2) [OF rd [unfolded Some]] by simp
    note g = reply_genuine [OF _ this o]
    have "s' = s1\<lparr>m_PeerSocket := 0, m_ServerSocket := 0\<rparr>" "link w' = l"
      "open_fds w = m_PeerSocket s # m_ServerSocket s # fds \<longrightarrow> m_PeerSocket s \<noteq> 0 \<longrightarrow>
         m_ServerSocket s \<noteq> 0 \<longrightarrow> open_fds w' = fds"
      using e f s0 by (auto simp: close_peer_eq close_server_eq)
    then show ?thesis
      using f s0 g OnResponseReceived_decides [OF o] sock_read_Some(5) [OF rd [unfolded Some]] by simp
  qed
  then show "m_ServerSocket s' = 0 \<and> m_PeerSocket s' = 0 \<and> m_HasConnection s' \<and> m_IsRunning s' = m_IsRunning s
         \<and> m_UnlockState s' \<noteq> UNKNOWN \<and> outgoing (link w') = outgoing (link w)"
    and "open_fds w = m_PeerSocket s # m_ServerSocket s # fds \<Longrightarrow> m_PeerSocket s \<noteq> 0 \<Longrightarrow>
         m_ServerSocket s \<noteq> 0 \<Longrightarrow> open_fds w' = fds"
    and "openssl_ok H \<Longrightarrow> m_UnlockState s' = SUCCESS \<Longrightarrow> genuine H J s (password (m_ResponseData s'))"
    by blast+
qed

lemma AcceptThread_cases:
  assumes "AcceptThread H J (N, now) (s, w) = Inr (s', w')"
  obtains (waiting) "accept_loop (srv_select N) 0 = None" "s' = s" "w' = w"
  | (given_up) "(s', w') = close_server (s\<lparr>m_IsRunning := False\<rparr>) w"
  | (refused) "srv_accept N < 0"
      "(s', w') = close_server (s\<lparr>m_PeerSocket := srv_accept N, m_IsRunning := False\<rparr>) w"
  | (served) ok st where "accept_loop (srv_select N) 0 = Some (ok, st)" "ok" "st \<noteq> 0"
      "serve_peer H J now (s\<lparr>m_PeerSocket := srv_accept N\<rparr>) (opened (srv_accept N) w) = Inr (s', w')"
proof (cases "accept_loop (srv_select N) 0")
  case None
  then show thesis using assms waiting by (simp add: AcceptThread_def)
next
  case (Some p)
  obtain ok st where p: "p = (ok, st)" by force
  show thesis
  proof (cases "\<not> ok \<or> st = 0")
    case True
    then show thesis using assms Some p given_up by (simp add: AcceptThread_def)
  next
    case False
    then show thesis
      using assms Some p refused served [of ok st]
      by (cases "build H \<noteq> Windows \<and> srv_accept N < 0") (auto simp: AcceptThread_def opened_def)
  qed
qed

lemma AcceptThread_genuine:
  assumes ok: "openssl_ok H" and r: "AcceptThread H J e (s, w) = Inr (s', w')"
    and "m_UnlockState s = UNKNOWN" "m_UnlockState s' = SUCCESS"
  shows "genuine H J s (password (m_ResponseData s'))"
proof -
  obtain N now where e: "e = (N, now)" by (cases e)
  from r [unfolded e] show ?thesis
  proof (cases rule: AcceptThread_cases)
    case (served k st)
    from serve_peer_result(3) [OF served(4) ok assms(4)] show ?thesis
      using genuine_cong [of "s\<lparr>m_PeerSocket := srv_accept N\<rparr>" s H J] by simp
  qed (use assms in \<open>auto simp: close_server_eq\<close>)
qed

lemma AcceptThread_listens:
  assumes "AcceptThread H J e (s, w) = Inr (s', w')"
  shows "outgoing (link w') = outgoing (link w)"
proof -
  obtain N now where e: "e = (N, now)" by (cases e)
  from assms [unfolded e] show ?thesis
  proof (cases rule: AcceptThread_cases)
    case (served k st)
    from serve_peer_result(1) [OF served(4)] show ?thesis by (simp add: opened_def split: if_split_asm)
  qed (auto simp: close_server_eq split: if_split_asm)
qed

interpretation tcp_server: unlock_connection AcceptThread "\<lambda>(s, w). server_base.truncate s"
  by unfold_locales (auto simp: frame_simps dest: AcceptThread_genuine)

section \<open>What the connection does\<close>


definition demo_server :: tcp_server where
  "demo_server = server_base.extend short_base (tcp_server_ext 3 0 0 ())"

definition demo_srv :: srv_env where
  "demo_srv = \<lparr>srv_wsa = 0, srv_socket = 3, srv_setsockopt = 0, srv_bind = 0, srv_listen = 0,
     srv_select = [(True, 0), (True, 1)], srv_accept = 4\<rparr>"

definition demo_srv_world :: world where
  "demo_srv_world = \<lparr>link = \<lparr>incoming = bytes_of ''CANCEL'', rd_sizes = [20], outgoing = [], wr_sizes = []\<rparr>, open_fds = [3, 0], heap = empty_heap\<rparr>"

lemma demo_server_run:
  "\<exists>s' w'. AcceptThread demo_host demo_json (demo_srv, 0) (demo_server, demo_srv_world) = Inr (s', w')"
proof -
  have "bytes_of ''CANCEL'' \<noteq> []" by simp
  then show ?thesis
    by (simp add: AcceptThread_def serve_peer_def demo_srv_def demo_srv_world_def sock_read_def Let_def
        OnResponseReceived_short opened_def close_peer_eq close_server_eq del: bytes_of_eq_Nil)
qed


text \<open>
  Once a peer has connected, both descriptors are closed whatever it sends; but the
  object still counts as running with a client, and an accept thread that gives up before
  (an error of \<^verbatim>\<open>select\<close> or \<^verbatim>\<open>accept\<close>, or being stopped) leaves no decision at all.
\<close>

theorem server_closes_sockets:
  assumes "open_fds w = m_ServerSocket s # fds" "m_ServerSocket s \<noteq> 0" "m_PeerSocket s = 0"
    and "AcceptThread H J (N, now) (s, w) = Inr (s', w')"
    and "accept_loop (srv_select N) 0 = Some (ok, st)"
    and "0 < srv_accept N" "srv_accept N \<noteq> m_ServerSocket s"
  shows "open_fds w' = fds \<and> m_ServerSocket s' = 0 \<and> m_PeerSocket s' = 0
         \<and> (if ok \<and> st \<noteq> 0 then m_HasConnection s' \<and> m_IsRunning s' = m_IsRunning s \<and> PollResult s' \<noteq> UNKNOWN
            else \<not> m_IsRunning s' \<and> PollResult s' = PollResult s)"
proof (cases "ok \<and> st \<noteq> 0")
  case False
  then show ?thesis
    using assms by (auto simp: AcceptThread_def close_server_eq PollResult_def)
next
  case True
  then have r: "serve_peer H J now (s\<lparr>m_PeerSocket := srv_accept N\<rparr>) (opened (srv_accept N) w) = Inr (s', w')"
    using assms(4-6) by (simp add: AcceptThread_def)
  have "open_fds w' = fds"
    using assms(1,2,6) by (intro serve_peer_result(2) [OF r]) (simp_all add: opened_def)
  then show ?thesis using True serve_peer_result(1) [OF r] by (simp add: PollResult_def)
qed

theorem server_closes_sockets_witness:
  "\<exists>s' w'. AcceptThread demo_host demo_json (demo_srv, 0) (demo_server, demo_srv_world) = Inr (s', w')
     \<and> open_fds w' = [0] \<and> m_HasConnection s' \<and> PollResult s' \<noteq> UNKNOWN"
proof -
  obtain s' w' where r: "AcceptThread demo_host demo_json (demo_srv, 0) (demo_server, demo_srv_world) = Inr (s', w')"
    using demo_server_run by blast
  have d: "m_ServerSocket demo_server = 3" "m_PeerSocket demo_server = 0" "open_fds demo_srv_world = [3, 0]"
    by (simp_all add: demo_server_def demo_srv_world_def server_base.extend_def)
  have a: "accept_loop (srv_select demo_srv) 0 = Some (True, 1)" "srv_accept demo_srv = 4"
    by (simp_all add: demo_srv_def)
  show ?thesis
    using server_closes_sockets [of demo_srv_world demo_server "[0]", OF _ _ _ r a(1)] d a(2) r by auto
qed

text \<open>
  \<^verbatim>\<open>Start\<close> reports failure when the address cannot be bound, but the descriptor it
  opened stays open: the object is not running, so \<^verbatim>\<open>Stop\<close> closes nothing.
\<close>

theorem failed_start_keeps_socket:
  assumes "\<not> m_IsRunning s" "build H \<noteq> Windows" "0 < srv_socket N" "srv_setsockopt N = 0" "srv_bind N < 0"
  shows "\<exists>s' w'. Server_Start H N s w = Inr (False, s', w') \<and> open_fds w' = srv_socket N # open_fds w
           \<and> Server_Stop s' w' = Inr (s', w')"
  using assms by (simp add: Server_Start_def Server_Stop_def opened_def)

theorem failed_start_keeps_socket_witness:
  "\<exists>s' w'. Server_Start demo_host (demo_srv\<lparr>srv_bind := -1\<rparr>) demo_server demo_srv_world = Inr (False, s', w')
     \<and> open_fds w' = [3, 3, 0] \<and> Server_Stop s' w' = Inr (s', w')"
proof -
  have "\<not> m_IsRunning demo_server"
    by (simp add: demo_server_def short_base_def demo_base_def SetUnlockInfo_def BaseUnlockServer_new_def
        server_base.extend_def)
  then show ?thesis
    using failed_start_keeps_socket [of demo_server demo_host "demo_srv\<lparr>srv_bind := -1\<rparr>" demo_srv_world]
    by (simp add: demo_host_def demo_srv_def demo_srv_world_def)
qed

end
