(* ===== verification/KeyScanner.thy ===== *)
theory KeyScanner
  imports Utils
begin

text \<open>
  \<^verbatim>\<open>common-cpp/src/handler/KeyScanner.cpp\<close>: which keys are held down while the handler waits,
  asked of the system on Windows and Apple and read from the keyboards' event files on Linux.
  The files, what \<^verbatim>\<open>open\<close> returns for them and the events read in each round of the scan
  thread are inputs.
\<close>

unbundle bit_operations_syntax

section \<open>State and queries\<close>

text \<open>
  \<open>scan_running\<close> is \<^verbatim>\<open>m_IsRunning\<close>, \<open>scan_joinable\<close> tells whether \<^verbatim>\<open>m_ScanThread\<close> is
  joinable. The answers of the system are the words \<^verbatim>\<open>GetAsyncKeyState\<close> returns and the 16
  bytes \<^verbatim>\<open>GetKeys\<close> fills in.
\<close>

record key_scanner =
  scan_running :: bool
  scan_joinable :: bool
  m_KeyMaps :: "(int \<Rightarrow> bool option) list"

record key_system =
  async_key_state :: "int \<Rightarrow> 16 word"
  apple_keys :: "byte list"

definition KeyScanner_new :: key_scanner where
  "KeyScanner_new = \<lparr>scan_running = False, scan_joinable = False, m_KeyMaps = []\<rparr>"

fun key_in_maps :: "(int \<Rightarrow> bool option) list \<Rightarrow> int \<Rightarrow> bool" where
  "key_in_maps [] key = False"
| "key_in_maps (keyMap # maps) key = (if keyMap key = Some True then True else key_in_maps maps key)"

definition apple_key :: "byte list \<Rightarrow> int \<Rightarrow> fault + bool" where
  "apple_key keyMap key =
     (let i = drop_bit 3 key
      in if 0 \<le> i \<and> i < int (length keyMap)
         then Inr (drop_bit (nat (key AND 7)) (uint (keyMap ! nat i)) AND 1 \<noteq> 0) else Inl OutOfRange)"

definition GetKeyState :: "platform \<Rightarrow> key_system \<Rightarrow> key_scanner \<Rightarrow> int \<Rightarrow> fault + bool" where
  "GetKeyState p sys s key =
     (case p of
        Windows \<Rightarrow> Inr (sint (async_key_state sys key) < 0)
      | Linux \<Rightarrow> Inr (key_in_maps (m_KeyMaps s) key)
      | Apple \<Rightarrow> apple_key (apple_keys sys) key)"

text \<open>The loops over the key codes 0 to 0xA5 and 0 to 0x7D.\<close>

fun all_keys_loop ::
  "platform \<Rightarrow> key_system \<Rightarrow> key_scanner \<Rightarrow> int list \<Rightarrow> (int \<Rightarrow> bool option) \<Rightarrow> fault + (int \<Rightarrow> bool option)" where
  "all_keys_loop p sys s [] keys = Inr keys"
| "all_keys_loop p sys s (i # is) keys =
     bind_err (GetKeyState p sys s i) (\<lambda>b. all_keys_loop p sys s is (keys(i \<mapsto> b)))"

definition GetAllKeys :: "platform \<Rightarrow> key_system \<Rightarrow> key_scanner \<Rightarrow> fault + (int \<Rightarrow> bool option)" where
  "GetAllKeys p sys s =
     (case p of
        Windows \<Rightarrow> all_keys_loop p sys s (upto 0 0xA5) Map.empty
      | Linux \<Rightarrow> (case m_KeyMaps s of [] \<Rightarrow> Inl OutOfRange | keyMap # _ \<Rightarrow> Inr keyMap)
      | Apple \<Rightarrow> all_keys_loop p sys s (upto 0 0x7D) Map.empty)"

section \<open>The scan thread\<close>

text \<open>\<open>Terminate\<close>: assigning to a joinable \<^verbatim>\<open>std::thread\<close> ends the process.\<close>

definition Scanner_Start :: "platform \<Rightarrow> key_scanner \<Rightarrow> fault + key_scanner" where
  "Scanner_Start p s =
     (if p \<noteq> Linux then Inr s
      else if scan_running s then Inr s
      else if scan_joinable s then Inl Terminate
      else Inr (s\<lparr>scan_running := True, scan_joinable := True\<rparr>))"

definition Scanner_Stop :: "platform \<Rightarrow> key_scanner \<Rightarrow> key_scanner" where
  "Scanner_Stop p s =
     (if p \<noteq> Linux then s
      else if \<not> scan_running s then s
      else s\<lparr>scan_running := False, scan_joinable := False\<rparr>)"

definition KeyScanner_delete :: "platform \<Rightarrow> key_scanner \<Rightarrow> key_scanner" where
  "KeyScanner_delete p s = Scanner_Stop p s"

text \<open>\<open>entries\<close> are the paths of the directory and their file names.\<close>

fun GetKeyboards :: "(string \<times> string) list \<Rightarrow> string list" where
  "GetKeyboards [] = []"
| "GetKeyboards ((entry_path, filename) # entries) =
     (if StringEndsWith filename ''0-event-kbd'' then entry_path # GetKeyboards entries
      else GetKeyboards entries)"

fun open_keyboards :: "(string \<Rightarrow> int) \<Rightarrow> string list \<Rightarrow> int list" where
  "open_keyboards opens [] = []"
| "open_keyboards opens (keyboard # keyboards) =
     (if opens keyboard = -1 then open_keyboards opens keyboards
      else opens keyboard # open_keyboards opens keyboards)"

text \<open>
  One round over the keyboards: each \<^verbatim>\<open>read\<close> delivers an event (code and value) or less
  than one. \<^verbatim>\<open>m_KeyMaps[idx]\<close> is an unchecked access.
\<close>

fun scan_round :: "nat \<Rightarrow> (int \<times> int) option list \<Rightarrow> (int \<Rightarrow> bool option) list \<Rightarrow> fault + (int \<Rightarrow> bool option) list" where
  "scan_round idx [] maps = Inr maps"
| "scan_round idx (None # evs) maps = scan_round (idx + 1) evs maps"
| "scan_round idx (Some (ev_code, ev_value) # evs) maps =
     (if idx < length maps
      then scan_round (idx + 1) evs (maps[idx := (maps ! idx)(ev_code \<mapsto> ev_value \<noteq> 0)])
      else Inl OutOfRange)"

text \<open>The rounds until \<^verbatim>\<open>m_IsRunning\<close> is false.\<close>

fun scan_rounds :: "(int \<times> int) option list list \<Rightarrow> (int \<Rightarrow> bool option) list \<Rightarrow> fault + (int \<Rightarrow> bool option) list" where
  "scan_rounds [] maps = Inr maps"
| "scan_rounds (evs # rounds) maps = bind_err (scan_round 0 evs maps) (scan_rounds rounds)"

text \<open>The result: the scanner's maps and the descriptors still open.\<close>

definition ScanThread ::
  "(string \<times> string) list \<Rightarrow> (string \<Rightarrow> int) \<Rightarrow> (int \<times> int) option list list \<Rightarrow> int list \<Rightarrow> key_scanner
   \<Rightarrow> fault + key_scanner \<times> int list" where
  "ScanThread entries opens rounds fds s =
     (let kbds = open_keyboards opens (GetKeyboards entries)
      in if kbds = [] then Inr (s, fds)
         else
           let rounds = map (take (length kbds)) rounds
           in bind_err (scan_rounds rounds (m_KeyMaps s)) (\<lambda>maps.
                Inr (s\<lparr>m_KeyMaps := maps\<rparr>, foldr remove1 kbds (kbds @ fds))))"

section \<open>Lemmas\<close>

lemma scan_round_silent:
  "scan_round idx evs [] = (if \<forall>ev \<in> set evs. ev = None then Inr [] else Inl OutOfRange)"
  by (induction idx evs "[] :: (int \<Rightarrow> bool option) list" rule: scan_round.induct) auto

lemma scan_rounds_silent:
  "scan_rounds rounds [] = (if \<forall>evs \<in> set rounds. \<forall>ev \<in> set evs. ev = None then Inr [] else Inl OutOfRange)"
  by (induction rounds) (auto simp: scan_round_silent)

lemma foldr_remove1_append: "foldr remove1 xs (xs @ ys) = ys"
proof (induction xs arbitrary: ys rule: rev_induct)
  case (snoc x xs)
  have "foldr remove1 (xs @ [x]) ((xs @ [x]) @ ys) = foldr remove1 xs (remove1 x (xs @ x # ys))" by simp
  moreover have "foldr remove1 zs (remove1 x ws) = remove1 x (foldr remove1 zs ws)" for zs ws
    by (induction zs) (simp_all add: remove1_commute)
  ultimately have "foldr remove1 (xs @ [x]) ((xs @ [x]) @ ys) = remove1 x (foldr remove1 xs (xs @ x # ys))" by simp
  then show ?case using snoc.IH [of "x # ys"] by simp
qed simp

section \<open>What the scanner sees\<close>

text \<open>
  On Linux the scanner never sees a key: the table of key maps is never given an entry,
  so the first event read from any keyboard is written out of range, and a thread that reads
  no event leaves every key reported as released, with all keyboards closed again.
\<close>

theorem linux_scanner_blind:
  "ScanThread entries opens rounds fds KeyScanner_new =
     (let kbds = open_keyboards opens (GetKeyboards entries)
      in if kbds = [] \<or> (\<forall>evs \<in> set rounds. \<forall>ev \<in> set (take (length kbds) evs). ev = None)
         then Inr (KeyScanner_new, fds) else Inl OutOfRange) \<and>
   GetKeyState Linux sys KeyScanner_new key = Inr False \<and> GetAllKeys Linux sys KeyScanner_new = Inl OutOfRange"
  by (auto simp: ScanThread_def KeyScanner_new_def GetKeyState_def GetAllKeys_def Let_def
      scan_rounds_silent foldr_remove1_append)

text \<open>One keyboard on which a key is pressed in the first round.\<close>

theorem linux_scanner_blind_witness:
  "ScanThread [(''/dev/input/by-path/k0-event-kbd'', ''k0-event-kbd'')] (\<lambda>_. 5) [[Some (29, 1)]] [0] KeyScanner_new
     = Inl OutOfRange"
  by (subst linux_scanner_blind [THEN conjunct1]) (simp add: Let_def StringEndsWith_def)

end
