(* ===== verification/UnlockHandler.thy ===== *)
theory UnlockHandler
  imports TCPUnlockClient BTUnlockClient TCPUnlockServer KeyScanner
begin

text \<open>
  \<^verbatim>\<open>common-cpp/src/handler/UnlockHandler.cpp\<close>, the part that runs in one thread: the choice of
  a connection for every paired device of the user and \<^verbatim>\<open>RunServer\<close>, which polls one
  connection until it has a result. What the other threads do in the meantime reaches the
  loop through the values it reads in each turn; these are its input. How the threads of
  several connections agree on one result is the subject of the theory UnlockRace.
\<close>

section \<open>Results\<close>

record UnlockResult =
  result_state :: UnlockState
  result_device :: PairedDevice
  result_password :: string

definition no_device :: PairedDevice where
  "no_device = \<lparr>pairingId = '''', pairingMethod = TCP, deviceName = '''', userName = '''', encryptionKey = '''',
                ipAddress = '''', bluetoothAddress = '''', cloudToken = ''''\<rparr>"

definition UnlockResult_new :: "UnlockState \<Rightarrow> UnlockResult" where
  "UnlockResult_new st = \<lparr>result_state = st, result_device = no_device, result_password = ''''\<rparr>"

section \<open>Connections\<close>

text \<open>\<^verbatim>\<open>BaseUnlockServer *\<close>: one of the three classes.\<close>

datatype unlock_server =
    ClientTCP tcp_client
  | ClientBT bt_client
  | ServerTCP tcp_server

primrec base_of :: "unlock_server \<Rightarrow> server_base" where
  "base_of (ClientTCP s) = server_base.truncate s"
| "base_of (ClientBT s) = server_base.truncate s"
| "base_of (ServerTCP s) = server_base.truncate s"

definition new_server :: "endian \<Rightarrow> (nat \<Rightarrow> bytes) \<Rightarrow> PCBUAppSettings \<Rightarrow> PairedDevice \<Rightarrow> unlock_server" where
  "new_server e draw settings device =
     (case pairingMethod device of
        TCP \<Rightarrow> ClientTCP (TCPUnlockClient_new e draw (ipAddress device) 43298 device)
      | BLUETOOTH \<Rightarrow> ClientBT (BTUnlockClient_new e draw (bluetoothAddress device) device)
      | CLOUD_TCP \<Rightarrow> ServerTCP (TCPUnlockServer_new e draw (unlockServerPort settings) device))"

primrec set_unlock_info :: "string \<Rightarrow> string \<Rightarrow> unlock_server \<Rightarrow> unlock_server" where
  "set_unlock_info authUser authProgram (ClientTCP s) = ClientTCP (SetUnlockInfo authUser authProgram s)"
| "set_unlock_info authUser authProgram (ClientBT s) = ClientBT (SetUnlockInfo authUser authProgram s)"
| "set_unlock_info authUser authProgram (ServerTCP s) = ServerTCP (SetUnlockInfo authUser authProgram s)"

text \<open>The loop over the devices; \<open>draws\<close> are the random bytes of each new object.\<close>

fun new_servers ::
  "endian \<Rightarrow> (nat \<Rightarrow> nat \<Rightarrow> bytes) \<Rightarrow> PCBUAppSettings \<Rightarrow> string \<Rightarrow> string \<Rightarrow> nat \<Rightarrow> PairedDevice list
   \<Rightarrow> unlock_server list" where
  "new_servers e draws settings authUser authProgram i [] = []"
| "new_servers e draws settings authUser authProgram i (device # devices) =
     set_unlock_info authUser authProgram (new_server e (draws i) settings device)
     # new_servers e draws settings authUser authProgram (i + 1) devices"

text \<open>\<^verbatim>\<open>GetResult\<close> up to the start of the threads: a result at once, or the connections to run.\<close>

definition GetResult_servers ::
  "sysenv \<Rightarrow> endian \<Rightarrow> (nat \<Rightarrow> nat \<Rightarrow> bytes) \<Rightarrow> string \<Rightarrow> string \<Rightarrow> string list \<times> (UnlockResult + unlock_server list)" where
  "GetResult_servers E e draws authUser authProgram =
     (let appSettings = AppStorage_Get (json E) (settings_file E);
          servers = new_servers e draws appSettings authUser authProgram 0
                      (GetDevicesForUser (json E) (devices_file E) authUser)
      in if servers = [] then
           ([message E ''error_not_paired'' [authUser]], Inl (UnlockResult_new NOT_PAIRED_ERROR))
         else ([], Inr servers))"

section \<open>Polling one connection\<close>

text \<open>
  What one turn of the loop reads, in this order: the shared result, the flag of the caller
  (\<open>None\<close>: a null pointer), \<^verbatim>\<open>HasClient\<close>, \<^verbatim>\<open>PollResult\<close>, \<^verbatim>\<open>HasClient\<close> again, the clock and
  the two keys.
\<close>

record poll_view =
  view_current :: UnlockState
  view_running :: "bool option"
  view_client :: bool
  view_poll :: UnlockState
  view_client_again :: bool
  view_now :: int
  view_ctrl :: bool
  view_alt :: bool

text \<open>The loop is left with a state and \<^verbatim>\<open>isFutureCancel\<close>, or goes on.\<close>

datatype poll_outcome = Decided UnlockState bool | GoesOn bool

definition poll_turn ::
  "sysenv \<Rightarrow> int \<Rightarrow> int \<Rightarrow> bool \<Rightarrow> poll_view \<Rightarrow> string list \<times> poll_outcome" where
  "poll_turn E timeoutMs startTime isWaitingForConnection v =
     (if view_current v = SUCCESS \<or> view_running v = Some False then ([], Decided CANCELED True)
      else
        let shown = view_client v \<and> isWaitingForConnection;
            msgs = (if shown then [message E ''wait_phone_unlock'' []] else []);
            isWaitingForConnection = (isWaitingForConnection \<and> \<not> shown)
        in if view_poll v \<noteq> UNKNOWN then (msgs, Decided (view_poll v) False)
           else if \<not> view_client_again v \<and> view_now v - startTime > timeoutMs then (msgs, Decided TIMEOUT False)
           else if view_ctrl v \<and> view_alt v then (msgs, Decided CANCELED False)
           else (msgs, GoesOn isWaitingForConnection))"

text \<open>\<open>None\<close>: the loop has not ended after the given turns.\<close>

fun poll_loop ::
  "sysenv \<Rightarrow> int \<Rightarrow> int \<Rightarrow> bool \<Rightarrow> poll_view list \<Rightarrow> string list \<times> (UnlockState \<times> bool) option" where
  "poll_loop E timeoutMs startTime waiting [] = ([], None)"
| "poll_loop E timeoutMs startTime waiting (v # views) =
     (case poll_turn E timeoutMs startTime waiting v of
        (msgs, Decided st isFutureCancel) \<Rightarrow> (msgs, Some (st, isFutureCancel))
      | (msgs, GoesOn waiting) \<Rightarrow>
          (case poll_loop E timeoutMs startTime waiting views of (msgs', r) \<Rightarrow> (msgs @ msgs', r)))"

text \<open>
  \<open>started\<close> is what \<^verbatim>\<open>Start\<close> returned and \<open>stopped\<close> the connection after \<^verbatim>\<open>Stop\<close>. The
  messages are those passed to \<^verbatim>\<open>m_PrintMessage\<close>.
\<close>

definition RunServer ::
  "sysenv \<Rightarrow> bool \<Rightarrow> int \<Rightarrow> poll_view list \<Rightarrow> unlock_server \<Rightarrow> string list \<times> UnlockResult option" where
  "RunServer E started startTime views stopped =
     (if \<not> started then ([message E ''error_start_handler'' []], Some (UnlockResult_new START_ERROR))
      else
        (case poll_loop E (PACKET_TIMEOUT (os E)) startTime True views of
           (msgs, None) \<Rightarrow> (message E ''wait_phone_connect'' [] # msgs, None)
         | (msgs, Some (st, isFutureCancel)) \<Rightarrow>
             (message E ''wait_phone_connect'' [] # msgs @
                (if isFutureCancel then [] else [state_message E st]),
              Some \<lparr>result_state = st, result_device = GetDevice (base_of stopped),
                    result_password = password (GetResponseData (base_of stopped))\<rparr>)))"

section \<open>Lemmas\<close>

text \<open>The decision a turn takes, apart from the messages.\<close>

definition decision :: "int \<Rightarrow> int \<Rightarrow> poll_view \<Rightarrow> (UnlockState \<times> bool) option" where
  "decision timeoutMs startTime v =
     (if view_current v = SUCCESS \<or> view_running v = Some False then Some (CANCELED, True)
      else if view_poll v \<noteq> UNKNOWN then Some (view_poll v, False)
      else if \<not> view_client_again v \<and> view_now v - startTime > timeoutMs then Some (TIMEOUT, False)
      else if view_ctrl v \<and> view_alt v then Some (CANCELED, False) else None)"

lemma poll_turn_decision:
  "(case snd (poll_turn E t0 t1 waiting v) of Decided st f \<Rightarrow> Some (st, f) | GoesOn w \<Rightarrow> None) = decision t0 t1 v"
  by (auto simp: poll_turn_def decision_def Let_def)

lemma decision_None:
  "decision timeoutMs startTime v = None \<longleftrightarrow>
     view_current v \<noteq> SUCCESS \<and> view_running v \<noteq> Some False \<and> view_poll v = UNKNOWN \<and>
     \<not> (view_ctrl v \<and> view_alt v) \<and> (view_client_again v \<or> view_now v \<le> startTime + timeoutMs)"
  by (simp add: decision_def algebra_simps not_less)

fun first_decision :: "int \<Rightarrow> int \<Rightarrow> poll_view list \<Rightarrow> (UnlockState \<times> bool) option" where
  "first_decision timeoutMs startTime [] = None"
| "first_decision timeoutMs startTime (v # views) =
     (case decision timeoutMs startTime v of None \<Rightarrow> first_decision timeoutMs startTime views | Some d \<Rightarrow> Some d)"

lemma poll_loop_decision: "snd (poll_loop E t0 t1 waiting views) = first_decision t0 t1 views"
proof (induction views arbitrary: waiting)
  case (Cons v views)
  obtain msgs r where t: "poll_turn E t0 t1 waiting v = (msgs, r)" by fastforce
  note d = poll_turn_decision [of E t0 t1 waiting v, unfolded t, symmetric]
  show ?case
  proof (cases r)
    case (Decided st f)
    then show ?thesis using d t by simp
  next
    case (GoesOn w)
    obtain msgs' r' where l: "poll_loop E t0 t1 w views = (msgs', r')" by fastforce
    show ?thesis using d t GoesOn l Cons.IH [of w] by simp
  qed
qed simp

definition result_of :: "UnlockState \<Rightarrow> unlock_server \<Rightarrow> UnlockResult" where
  "result_of st s =
     \<lparr>result_state = st, result_device = m_PairedDevice (base_of s),
      result_password = password (m_ResponseData (base_of s))\<rparr>"

lemma result_of_fields [simp]:
  "result_state (result_of st s) = st" "result_device (result_of st s) = m_PairedDevice (base_of s)"
  "result_password (result_of st s) = password (m_ResponseData (base_of s))"
  by (simp_all add: result_of_def)

lemma RunServer_result:
  "snd (RunServer E started t views s) =
     (if started then map_option (\<lambda>(st, f). result_of st s) (first_decision (PACKET_TIMEOUT (os E)) t views)
      else Some (UnlockResult_new START_ERROR))"
proof (cases started)
  case True
  obtain msgs r where l: "poll_loop E (PACKET_TIMEOUT (os E)) t True views = (msgs, r)" by fastforce
  then have "first_decision (PACKET_TIMEOUT (os E)) t views = r"
    using poll_loop_decision [of E "PACKET_TIMEOUT (os E)" t True views] by simp
  then show ?thesis
    using True l
    by (cases r) (auto simp: RunServer_def result_of_def GetDevice_def GetResponseData_def)
qed (simp add: RunServer_def)

lemma first_decision_Some:
  assumes "first_decision t0 t1 views = Some d"
  shows "\<exists>pre v post. views = pre @ v # post \<and> decision t0 t1 v = Some d \<and> (\<forall>u \<in> set pre. decision t0 t1 u = None)"
  using assms
proof (induction views)
  case (Cons v views)
  show ?case
  proof (cases "decision t0 t1 v")
    case None
    with Cons obtain pre w post where "views = pre @ w # post" "decision t0 t1 w = Some d"
      "\<forall>u \<in> set pre. decision t0 t1 u = None" by auto
    with None show ?thesis by (intro exI [of _ "v # pre"]) auto
  next
    case (Some d')
    with Cons.prems show ?thesis by (intro exI [of _ "[]"]) auto
  qed
qed simp

lemma first_decision_None: "first_decision t0 t1 views = None \<longleftrightarrow> (\<forall>v \<in> set views. decision t0 t1 v = None)"
  by (induction views) (auto split: option.split)


definition demo_view :: poll_view where
  "demo_view = \<lparr>view_current = UNKNOWN, view_running = None, view_client = True, view_poll = UNKNOWN,
                view_client_again = True, view_now = 0, view_ctrl = False, view_alt = False\<rparr>"


text \<open>
  \<^verbatim>\<open>RunServer\<close> goes on polling exactly as long as the connection is undecided, nobody
  cancels, no other connection has succeeded, and either a client is connected or the
  time-out has not passed since the start: without a client it ends at the first poll after
  30 seconds (two minutes on Windows), while with a client that stays connected and never
  answers no amount of time ends it.
\<close>

theorem RunServer_waits_iff:
  "snd (RunServer E started t views s) = None \<longleftrightarrow>
     started \<and> (\<forall>v \<in> set views. view_current v \<noteq> SUCCESS \<and> view_running v \<noteq> Some False \<and>
       view_poll v = UNKNOWN \<and> \<not> (view_ctrl v \<and> view_alt v) \<and>
       (view_client_again v \<or> view_now v \<le> t + (if os E = Windows then 120000 else 30000)))"
proof -
  have "snd (RunServer E started t views s) = None \<longleftrightarrow>
      started \<and> (\<forall>v \<in> set views. decision (PACKET_TIMEOUT (os E)) t v = None)"
    by (simp add: RunServer_result first_decision_None)
  then show ?thesis unfolding decision_None by (simp add: PACKET_TIMEOUT_def)
qed

text \<open>A phone that stays connected for a day keeps the loop going.\<close>

theorem RunServer_waits_iff_witness:
  "snd (RunServer demo_env True 0 [demo_view, demo_view\<lparr>view_now := 86400000\<rparr>] (ClientTCP demo_client)) = None"
  by (subst RunServer_waits_iff) (simp add: demo_view_def)

end
