(* ===== verification/UnlockRace.thy ===== *)
theory UnlockRace
  imports UnlockHandler
begin

text \<open>
  The threads of \<^verbatim>\<open>UnlockHandler::GetResult\<close> (\<^verbatim>\<open>common-cpp/src/handler/UnlockHandler.cpp\<close>):
  one worker per connection and the thread that called \<^verbatim>\<open>GetResult\<close>, which share a result
  behind its own mutex, an atomic counter, and a mutex with a condition variable. Every
  action is one atomic access of the code, so the reachable states are those of all
  interleavings.
\<close>

section \<open>State\<close>

text \<open>
  Where a worker is, with the result \<^verbatim>\<open>RunServer\<close> gave it: before \<^verbatim>\<open>fetch_add\<close>; before the
  store of a success; before the comparison of the counter; before the look at the shared
  result; before the store of the last worker; before \<^verbatim>\<open>lock_guard\<close> and \<^verbatim>\<open>notify_one\<close>.
\<close>

datatype worker =
    Running
  | Resulted UnlockResult
  | Counted UnlockResult
  | Stored UnlockResult
  | Last UnlockResult
  | LastStores UnlockResult
  | Notifying UnlockResult
  | Ended UnlockResult

text \<open>
  The calling thread. \<open>Locks\<close> is about to take the mutex, at first or after it was woken;
  from \<open>Checking\<close> on it holds the mutex, which \<^verbatim>\<open>cv.wait\<close> gives back while it sleeps, but
  which is otherwise kept to the end of the function.
\<close>

datatype caller =
    Locks
  | Checking
  | Blocked
  | Loading
  | Joining UnlockResult
  | Finished UnlockResult

record handler_state =
  workers :: "worker list"
  current_result :: UnlockResult
  completed :: nat
  caller :: caller

definition handler_start :: "nat \<Rightarrow> handler_state" where
  "handler_start numServers =
     \<lparr>workers = replicate numServers Running, current_result = UnlockResult_new UNKNOWN, completed = 0,
      caller = Locks\<rparr>"

definition mutex_held :: "caller \<Rightarrow> bool" where
  "mutex_held c = (case c of Locks \<Rightarrow> False | Blocked \<Rightarrow> False | Finished _ \<Rightarrow> False | _ \<Rightarrow> True)"

section \<open>Actions\<close>

definition worker_goes :: "nat \<Rightarrow> handler_state \<Rightarrow> handler_state option" where
  "worker_goes i st =
     (let becomes = (\<lambda>w. st\<lparr>workers := (workers st)[i := w]\<rparr>) in
      case workers st ! i of
        Running \<Rightarrow> None
      | Resulted r \<Rightarrow> Some ((becomes (Counted r))\<lparr>completed := completed st + 1\<rparr>)
      | Counted r \<Rightarrow>
          Some ((becomes (Stored r))\<lparr>current_result := (if result_state r = SUCCESS then r else current_result st)\<rparr>)
      | Stored r \<Rightarrow> Some (becomes (if completed st = length (workers st) then Last r else Ended r))
      | Last r \<Rightarrow> Some (becomes (if result_state (current_result st) \<noteq> SUCCESS then LastStores r else Notifying r))
      | LastStores r \<Rightarrow> Some ((becomes (Notifying r))\<lparr>current_result := r\<rparr>)
      | Notifying r \<Rightarrow>
          if mutex_held (caller st) then None
          else Some ((becomes (Ended r))\<lparr>caller := (if caller st = Blocked then Locks else caller st)\<rparr>)
      | Ended r \<Rightarrow> None)"

definition is_ended :: "worker \<Rightarrow> bool" where
  "is_ended w = (case w of Ended _ \<Rightarrow> True | _ \<Rightarrow> False)"

definition caller_goes :: "handler_state \<Rightarrow> handler_state option" where
  "caller_goes st =
     (case caller st of
        Locks \<Rightarrow> Some (st\<lparr>caller := Checking\<rparr>)
      | Checking \<Rightarrow> Some (st\<lparr>caller := (if completed st = length (workers st) then Loading else Blocked)\<rparr>)
      | Blocked \<Rightarrow> None
      | Loading \<Rightarrow> Some (st\<lparr>caller := Joining (current_result st)\<rparr>)
      | Joining r \<Rightarrow> if list_all is_ended (workers st) then Some (st\<lparr>caller := Finished r\<rparr>) else None
      | Finished r \<Rightarrow> None)"

text \<open>\<open>Wakes\<close> is a spurious wake-up, which the standard allows at any time.\<close>

datatype action = Returns nat UnlockResult | Goes nat | CallerGoes | Wakes

fun act :: "action \<Rightarrow> handler_state \<Rightarrow> handler_state option" where
  "act (Returns i r) st =
     (if i < length (workers st) \<and> workers st ! i = Running
      then Some (st\<lparr>workers := (workers st)[i := Resulted r]\<rparr>) else None)"
| "act (Goes i) st = (if i < length (workers st) then worker_goes i st else None)"
| "act CallerGoes st = caller_goes st"
| "act Wakes st = (if caller st = Blocked then Some (st\<lparr>caller := Locks\<rparr>) else None)"

inductive handler_steps :: "handler_state \<Rightarrow> handler_state \<Rightarrow> bool" where
  no_step: "handler_steps st st"
| one_more: "handler_steps st st' \<Longrightarrow> act a st' = Some st'' \<Longrightarrow> handler_steps st st''"

abbreviation reachable :: "nat \<Rightarrow> handler_state \<Rightarrow> bool" where
  "reachable n \<equiv> handler_steps (handler_start n)"

text \<open>A schedule, to evaluate runs.\<close>

fun run_schedule :: "action list \<Rightarrow> handler_state \<Rightarrow> handler_state option" where
  "run_schedule [] st = Some st"
| "run_schedule (a # as) st = Option.bind (act a st) (run_schedule as)"

lemma run_schedule_steps: "run_schedule as st' = Some st'' \<Longrightarrow> handler_steps st st' \<Longrightarrow> handler_steps st st''"
  by (induction as arbitrary: st') (auto simp: bind_eq_Some_conv intro: one_more)

section \<open>Lemmas\<close>

definition worker_result :: "worker \<Rightarrow> UnlockResult option" where
  "worker_result w =
     (case w of Running \<Rightarrow> None | Resulted r \<Rightarrow> Some r | Counted r \<Rightarrow> Some r | Stored r \<Rightarrow> Some r | Last r \<Rightarrow> Some r
      | LastStores r \<Rightarrow> Some r | Notifying r \<Rightarrow> Some r | Ended r \<Rightarrow> Some r)"

lemma worker_result_simps [simp]:
  "worker_result Running = None" "worker_result (Resulted r) = Some r" "worker_result (Counted r) = Some r"
  "worker_result (Stored r) = Some r" "worker_result (Last r) = Some r" "worker_result (LastStores r) = Some r"
  "worker_result (Notifying r) = Some r" "worker_result (Ended r) = Some r"
  by (simp_all add: worker_result_def)

text \<open>The ways a worker can go on, one per phase.\<close>

lemma worker_goesE:
  assumes "worker_goes i st = Some st'"
  obtains (counts) r where "workers st ! i = Resulted r"
      "st' = st\<lparr>workers := (workers st)[i := Counted r], completed := completed st + 1\<rparr>"
    | (stores) r where "workers st ! i = Counted r"
      "st' = st\<lparr>workers := (workers st)[i := Stored r],
                current_result := (if result_state r = SUCCESS then r else current_result st)\<rparr>"
    | (tests) r where "workers st ! i = Stored r"
      "st' = st\<lparr>workers := (workers st)[i := if completed st = length (workers st) then Last r else Ended r]\<rparr>"
    | (looks) r where "workers st ! i = Last r"
      "st' = st\<lparr>workers := (workers st)[i := if result_state (current_result st) \<noteq> SUCCESS then LastStores r else Notifying r]\<rparr>"
    | (overwrites) r where "workers st ! i = LastStores r"
      "st' = st\<lparr>workers := (workers st)[i := Notifying r], current_result := r\<rparr>"
    | (notifies) r where "workers st ! i = Notifying r" "\<not> mutex_held (caller st)"
      "st' = st\<lparr>workers := (workers st)[i := Ended r], caller := (if caller st = Blocked then Locks else caller st)\<rparr>"
  using assms
  by (cases "workers st ! i") (auto simp: worker_goes_def Let_def split: if_split_asm)

lemma worker_goes_frame:
  assumes "worker_goes i st = Some st'"
  shows "length (workers st') = length (workers st)"
    and "\<And>j. j \<noteq> i \<Longrightarrow> workers st' ! j = workers st ! j"
    and "i < length (workers st) \<Longrightarrow> worker_result (workers st' ! i) = worker_result (workers st ! i)"
  using assms by (cases rule: worker_goesE; auto)+

lemma caller_goes_frame:
  "caller_goes st = Some st' \<Longrightarrow> workers st' = workers st \<and> current_result st' = current_result st \<and> completed st' = completed st"
  by (auto simp: caller_goes_def split: caller.split_asm if_split_asm)

lemma act_length: "act a st = Some st' \<Longrightarrow> length (workers st') = length (workers st)"
  by (cases a) (auto simp: worker_goes_frame(1) caller_goes_frame split: if_split_asm)

lemma reachable_length: "reachable n st \<Longrightarrow> length (workers st) = n"
  by (induction "handler_start n" st rule: handler_steps.induct) (auto simp: handler_start_def act_length)

text \<open>Results are kept.\<close>

definition results :: "handler_state \<Rightarrow> UnlockResult set" where
  "results st = {r. \<exists>i < length (workers st). worker_result (workers st ! i) = Some r}"

lemma resultsI: "i < length (workers st) \<Longrightarrow> worker_result (workers st ! i) = Some r \<Longrightarrow> r \<in> results st"
  unfolding results_def by blast

lemma act_keeps_result:
  assumes "act a st = Some st'" "i < length (workers st)" "worker_result (workers st ! i) = Some r"
  shows "worker_result (workers st' ! i) = Some r"
proof (cases a)
  case (Returns j x)
  then show ?thesis using assms by (cases "i = j") (auto split: if_split_asm)
next
  case (Goes j)
  then have g: "worker_goes j st = Some st'" using assms(1) by (simp split: if_split_asm)
  show ?thesis using worker_goes_frame(2,3) [OF g] assms(2,3) by (cases "i = j") auto
next
  case CallerGoes
  then show ?thesis using assms caller_goes_frame [of st st'] by simp
next
  case Wakes
  then show ?thesis using assms by (auto split: if_split_asm)
qed

lemma act_results: "act a st = Some st' \<Longrightarrow> results st \<subseteq> results st'"
  using act_keeps_result act_length by (fastforce simp: results_def)

text \<open>Where the shared result, and with it the result of the call, comes from.\<close>

definition caller_result :: "caller \<Rightarrow> UnlockResult option" where
  "caller_result c = (case c of Joining r \<Rightarrow> Some r | Finished r \<Rightarrow> Some r | _ \<Rightarrow> None)"

lemma caller_result_simps [simp]:
  "caller_result Locks = None" "caller_result Checking = None" "caller_result Blocked = None"
  "caller_result Loading = None" "caller_result (Joining r) = Some r" "caller_result (Finished r) = Some r"
  by (simp_all add: caller_result_def)

definition sourced :: "handler_state \<Rightarrow> bool" where
  "sourced st \<longleftrightarrow>
     (let sources = insert (UnlockResult_new UNKNOWN) (results st)
      in current_result st \<in> sources \<and> (\<forall>r. caller_result (caller st) = Some r \<longrightarrow> r \<in> sources))"

lemma sourced_frame:
  assumes "sourced st" "results st \<subseteq> results st'" "caller_result (caller st') = caller_result (caller st) \<or> caller_result (caller st') = None"
    "current_result st' = current_result st \<or> current_result st' \<in> results st'"
  shows "sourced st'"
  using assms unfolding sourced_def Let_def by (metis insert_iff option.distinct(1) subset_iff)

lemma sourced_act:
  assumes "sourced st" "act a st = Some st'"
  shows "sourced st'"
proof (cases a)
  case (Returns i r)
  then show ?thesis using assms act_results [OF assms(2)] by (auto intro!: sourced_frame [OF assms(1)] split: if_split_asm)
next
  case (Goes i)
  then have i: "i < length (workers st)" and g: "worker_goes i st = Some st'"
    using assms(2) by (auto split: if_split_asm)
  note sub = act_results [OF assms(2)]
  show ?thesis
    using g
  proof (cases rule: worker_goesE)
    case (stores r)
    then have "r \<in> results st'" using i by (intro resultsI [of i]) simp_all
    then show ?thesis using stores sub by (intro sourced_frame [OF assms(1)]) auto
  next
    case (overwrites r)
    then have "r \<in> results st'" using i by (intro resultsI [of i]) simp_all
    then show ?thesis using overwrites sub by (intro sourced_frame [OF assms(1)]) auto
  qed (use sub in \<open>auto intro!: sourced_frame [OF assms(1)]\<close>)
next
  case CallerGoes
  then have "caller_goes st = Some st'" using assms(2) by simp
  then show ?thesis
    using assms(1) by (auto simp: caller_goes_def sourced_def results_def Let_def split: caller.split_asm if_split_asm)
next
  case Wakes
  then show ?thesis using assms by (auto simp: sourced_def results_def Let_def split: if_split_asm)
qed

lemma reachable_sourced: "reachable n st \<Longrightarrow> sourced st"
proof (induction "handler_start n" st rule: handler_steps.induct)
  case no_step
  then show ?case by (simp add: sourced_def handler_start_def)
next
  case (one_more st' a st'')
  then show ?case by (blast intro: sourced_act)
qed

text \<open>The counter, and who may still notify.\<close>

definition counted :: "worker \<Rightarrow> bool" where
  "counted w = (case w of Running \<Rightarrow> False | Resulted _ \<Rightarrow> False | _ \<Rightarrow> True)"

lemma counted_simps [simp]:
  "\<not> counted Running" "\<not> counted (Resulted r)" "counted (Counted r)" "counted (Stored r)" "counted (Last r)"
  "counted (LastStores r)" "counted (Notifying r)" "counted (Ended r)"
  by (simp_all add: counted_def)

lemma is_ended_simps [simp]:
  "\<not> is_ended Running" "\<not> is_ended (Resulted r)" "\<not> is_ended (Counted r)" "\<not> is_ended (Stored r)" "\<not> is_ended (Last r)"
  "\<not> is_ended (LastStores r)" "\<not> is_ended (Notifying r)" "is_ended (Ended r)"
  by (simp_all add: is_ended_def)

lemma length_filter_update:
  "i < length xs \<Longrightarrow>
   int (length (filter P (xs[i := x]))) = int (length (filter P xs)) + of_bool (P x) - of_bool (P (xs ! i))"
proof -
  assume i: "i < length xs"
  obtain ys y zs where e: "xs = ys @ y # zs" "length ys = i"
    using id_take_nth_drop [OF i] i by (metis length_take min.absorb4)
  then have "xs[i := x] = ys @ x # zs" "xs ! i = y" by (auto simp: list_update_append nth_append)
  then show ?thesis by (simp add: e(1))
qed

lemma length_filter_same: "i < length xs \<Longrightarrow> P x = P (xs ! i) \<Longrightarrow> length (filter P (xs[i := x])) = length (filter P xs)"
  using length_filter_update [of i xs P x] by simp

lemma length_filter_more: "i < length xs \<Longrightarrow> P x \<Longrightarrow> \<not> P (xs ! i) \<Longrightarrow> length (filter P (xs[i := x])) = length (filter P xs) + 1"
  using length_filter_update [of i xs P x] by simp

definition counting :: "handler_state \<Rightarrow> bool" where
  "counting st \<longleftrightarrow> completed st = length (filter counted (workers st))"

lemma counting_act:
  assumes "counting st" "act a st = Some st'"
  shows "counting st'"
proof (cases a)
  case (Returns i r)
  then show ?thesis
    using assms length_filter_same [of i "workers st" counted "Resulted r"] by (auto simp: counting_def split: if_split_asm)
next
  case (Goes i)
  then have i: "i < length (workers st)" and g: "worker_goes i st = Some st'"
    using assms(2) by (auto split: if_split_asm)
  show ?thesis
    using g assms(1)
    by (cases rule: worker_goesE) (simp_all add: counting_def length_filter_same [OF i] length_filter_more [OF i])
next
  case CallerGoes
  then show ?thesis using assms caller_goes_frame [of st st'] by (simp add: counting_def)
next
  case Wakes
  then show ?thesis using assms by (auto simp: counting_def split: if_split_asm)
qed

lemma reachable_counting: "reachable n st \<Longrightarrow> counting st"
proof (induction "handler_start n" st rule: handler_steps.induct)
  case no_step
  then show ?case by (simp add: counting_def handler_start_def)
next
  case (one_more st' a st'')
  then show ?case by (blast intro: counting_act)
qed

text \<open>While the caller sleeps, some worker has yet to come to \<^verbatim>\<open>notify_one\<close>.\<close>

definition will_notify :: "handler_state \<Rightarrow> bool" where
  "will_notify st \<longleftrightarrow>
     (caller st = Blocked \<and> completed st = length (workers st) \<longrightarrow>
        (\<exists>i < length (workers st). counted (workers st ! i) \<and> \<not> is_ended (workers st ! i)))"

lemma will_notifyI:
  "i < length (workers st) \<Longrightarrow> counted (workers st ! i) \<Longrightarrow> \<not> is_ended (workers st ! i) \<Longrightarrow> will_notify st"
  unfolding will_notify_def by blast

lemma will_notify_act:
  assumes "will_notify st" "counting st" "act a st = Some st'"
  shows "will_notify st'"
proof (cases a)
  case (Returns i r)
  have "\<not> completed st = length (workers st)" if "i < length (workers st)" "workers st ! i = Running"
  proof -
    have "length (filter counted (workers st)) < length (workers st)"
      by (rule length_filter_less [of "workers st ! i"]) (use that nth_mem [of i "workers st"] in auto)
    then show ?thesis using assms(2) by (simp add: counting_def)
  qed
  then show ?thesis using Returns assms(3) by (auto simp: will_notify_def split: if_split_asm)
next
  case (Goes i)
  then have i: "i < length (workers st)" and g: "worker_goes i st = Some st'"
    using assms(3) by (auto split: if_split_asm)
  show ?thesis
    using g
  proof (cases rule: worker_goesE)
    case (tests r)
    show ?thesis
    proof (cases "completed st = length (workers st)")
      case True
      then show ?thesis using tests i by (intro will_notifyI [of i]) simp_all
    next
      case False
      then show ?thesis using tests by (simp add: will_notify_def)
    qed
  next
    case (notifies r)
    then show ?thesis by (simp add: will_notify_def)
  qed (use i in \<open>auto intro!: will_notifyI [of i]\<close>)
next
  case CallerGoes
  then show ?thesis
    using assms by (auto simp: caller_goes_def will_notify_def split: caller.split_asm if_split_asm)
next
  case Wakes
  then show ?thesis using assms by (auto simp: will_notify_def split: if_split_asm)
qed

lemma reachable_will_notify: "reachable n st \<Longrightarrow> will_notify st"
proof (induction "handler_start n" st rule: handler_steps.induct)
  case no_step
  then show ?case by (simp add: will_notify_def handler_start_def)
next
  case (one_more st' a st'')
  then show ?case using reachable_counting by (blast intro: will_notify_act)
qed

text \<open>
  From the moment all workers are counted, one that is still on its way goes on to
  \<^verbatim>\<open>notify_one\<close>; when the first has got there, the shared result is a worker's.
\<close>

definition underway :: "handler_state \<Rightarrow> bool" where
  "underway st \<longleftrightarrow> (\<exists>i < length (workers st). counted (workers st ! i) \<and> \<not> is_ended (workers st ! i))"

lemma underwayI:
  "i < length (workers st) \<Longrightarrow> counted (workers st ! i) \<Longrightarrow> \<not> is_ended (workers st ! i) \<Longrightarrow> underway st"
  unfolding underway_def by blast

definition settling :: "handler_state \<Rightarrow> bool" where
  "settling st \<longleftrightarrow>
     (\<forall>i < length (workers st). \<forall>r. workers st ! i = Notifying r \<longrightarrow> current_result st \<in> results st) \<and>
     (completed st = length (workers st) \<and> workers st \<noteq> [] \<longrightarrow> underway st \<or> current_result st \<in> results st)"

lemma reachable_current:
  assumes "reachable n st"
  shows "current_result st = UnlockResult_new UNKNOWN \<or> current_result st \<in> results st"
  using reachable_sourced [OF assms] by (auto simp: sourced_def Let_def)

lemma success_in_results:
  assumes "reachable n st" "result_state (current_result st) = SUCCESS"
  shows "current_result st \<in> results st"
  using reachable_current [OF assms(1)] assms(2) by (auto simp: UnlockResult_new_def)

lemma settling_known: "current_result st \<in> results st \<Longrightarrow> settling st"
  by (simp add: settling_def)

lemma settling_act:
  assumes "settling st" "reachable n st" "act a st = Some st'"
  shows "settling st'"
proof (cases "current_result st \<in> results st \<and> current_result st' = current_result st")
  case True
  then show ?thesis using act_results [OF assms(3)] by (metis settling_known subsetD)
next
  case not_known: False
  show ?thesis
  proof (cases a)
    case (Returns i r)
    have "\<not> counted (workers st ! i)" "i < length (workers st)" using Returns assms(3) by (auto split: if_split_asm)
    then have "completed st \<noteq> length (workers st)"
      using reachable_counting [OF assms(2)] length_filter_less [of "workers st ! i" "workers st" counted]
      by (auto simp: counting_def)
    then show ?thesis
      using Returns assms(1,3) act_results [OF assms(3)]
      by (auto simp: settling_def nth_list_update split: if_split_asm)
  next
    case (Goes i)
    then have i: "i < length (workers st)" and g: "worker_goes i st = Some st'"
      using assms(3) by (auto split: if_split_asm)
    have others: "\<forall>j r. j < length (workers st) \<longrightarrow> workers st ! j \<noteq> Notifying r" if "current_result st \<notin> results st"
      using assms(1) that by (auto simp: settling_def)
    have stays: "settling st'"
      if "current_result st \<notin> results st" "\<And>r. workers st' ! i \<noteq> Notifying r"
        "completed st' = length (workers st) \<longrightarrow> counted (workers st' ! i) \<and> \<not> is_ended (workers st' ! i)"
      using others [OF that(1)] that(2,3) i worker_goes_frame(1,2) [OF g] underwayI [of i st']
      unfolding settling_def by metis
    show ?thesis
      using g
    proof (cases rule: worker_goesE)
      case (counts r)
      then show ?thesis using i not_known by (intro stays) auto
    next
      case (stores r)
      show ?thesis
      proof (cases "result_state r = SUCCESS")
        case True
        then show ?thesis using stores i by (intro settling_known resultsI [of i]) simp_all
      next
        case False
        then show ?thesis using stores i not_known by (intro stays) auto
      qed
    next
      case (tests r)
      then show ?thesis using i not_known by (intro stays) auto
    next
      case (looks r)
      have "result_state (current_result st) \<noteq> SUCCESS"
        using success_in_results [OF assms(2)] looks not_known by auto
      then show ?thesis using looks i not_known by (intro stays) auto
    next
      case (overwrites r)
      then show ?thesis using i by (intro settling_known resultsI [of i]) simp_all
    next
      case (notifies r)
      then show ?thesis using others i not_known by auto
    qed
  next
    case CallerGoes
    then have "caller_goes st = Some st'" using assms(3) by simp
    then show ?thesis using assms(1) caller_goes_frame [of st st'] by (simp add: settling_def results_def underway_def)
  next
    case Wakes
    then show ?thesis using assms(1,3) by (auto simp: settling_def results_def underway_def split: if_split_asm)
  qed
qed

lemma reachable_settling: "reachable n st \<Longrightarrow> settling st"
proof (induction "handler_start n" st rule: handler_steps.induct)
  case no_step
  then show ?case by (auto simp: settling_def handler_start_def)
next
  case (one_more st' a st'')
  then show ?case by (blast intro: settling_act)
qed

text \<open>
  Once the caller holds the mutex behind the wait, no worker that is under way can end; so
  the caller that gets past the joins has read the shared result as the workers left it.
\<close>

definition joined :: "handler_state \<Rightarrow> bool" where
  "joined st \<longleftrightarrow>
     (case caller st of
        Loading \<Rightarrow> completed st = length (workers st)
      | Joining r \<Rightarrow> completed st = length (workers st) \<and> (underway st \<or> r = current_result st)
      | Finished r \<Rightarrow> completed st = length (workers st) \<and> list_all is_ended (workers st) \<and> r = current_result st
      | _ \<Rightarrow> True)"

lemma all_counted:
  assumes "counting st" "completed st = length (workers st)" "i < length (workers st)"
  shows "counted (workers st ! i)"
proof (rule ccontr)
  assume "\<not> counted (workers st ! i)"
  then have "length (filter counted (workers st)) < length (workers st)"
    using assms(3) by (intro length_filter_less [of "workers st ! i"]) simp_all
  then show False using assms(1,2) by (simp add: counting_def)
qed

lemma underway_act:
  assumes "counting st" "completed st = length (workers st)" "mutex_held (caller st)"
    and "i < length (workers st)" "worker_goes i st = Some st'"
  shows "underway st'"
  using assms(5)
proof (cases rule: worker_goesE)
  case (counts r)
  then show ?thesis using all_counted [OF assms(1,2,4)] by simp
qed (use assms in \<open>auto intro!: underwayI [of i]\<close>)

lemma joined_act:
  assumes "joined st" "counting st" "act a st = Some st'"
  shows "joined st'"
proof (cases a)
  case (Returns i r)
  then have "completed st \<noteq> length (workers st)"
    using all_counted [OF assms(2), of i] assms(3) by (auto split: if_split_asm)
  then show ?thesis using Returns assms(1,3) by (auto simp: joined_def split: caller.splits if_split_asm)
next
  case (Goes i)
  then have i: "i < length (workers st)" and g: "worker_goes i st = Some st'"
    using assms(3) by (auto split: if_split_asm)
  show ?thesis
  proof (cases "caller st")
    case (Finished r)
    then have "is_ended (workers st ! i)" using assms(1) i by (simp add: joined_def list_all_length)
    then have "worker_goes i st = None" by (cases "workers st ! i") (simp_all add: worker_goes_def Let_def)
    with g show ?thesis by simp
  next
    case Loading
    then have c: "completed st = length (workers st)" using assms(1) by (simp add: joined_def)
    show ?thesis
      using g all_counted [OF assms(2) c i] Loading c
      by (cases rule: worker_goesE) (auto simp: joined_def mutex_held_def)
  next
    case (Joining r)
    then have c: "completed st = length (workers st)" using assms(1) by (simp add: joined_def)
    have "underway st'" using underway_act [OF assms(2) c _ i g] Joining by (simp add: mutex_held_def)
    moreover have "caller st' = Joining r \<and> completed st' = length (workers st')"
      using g all_counted [OF assms(2) c i] Joining c
      by (cases rule: worker_goesE) (auto simp: mutex_held_def)
    ultimately show ?thesis by (simp add: joined_def)
  qed (use g in \<open>cases rule: worker_goesE; auto simp: joined_def\<close>)+
next
  case CallerGoes
  then have "caller_goes st = Some st'" using assms(3) by simp
  then show ?thesis
    using assms(1)
    by (auto simp: caller_goes_def joined_def underway_def list_all_length split: caller.split_asm if_split_asm)
next
  case Wakes
  then show ?thesis using assms(3) by (auto simp: joined_def split: if_split_asm)
qed

lemma reachable_joined: "reachable n st \<Longrightarrow> joined st"
proof (induction "handler_start n" st rule: handler_steps.induct)
  case no_step
  then show ?case by (simp add: joined_def handler_start_def)
next
  case (one_more st' a st'')
  then show ?case using reachable_counting by (blast intro: joined_act)
qed

section \<open>What GetResult returns\<close>

lemma GetResult_returns:
  assumes "reachable n st" "0 < n" "caller st = Finished r"
  obtains i where "i < n" "workers st ! i = Ended r" "list_all is_ended (workers st)"
proof -
  have l: "length (workers st) = n" by (rule reachable_length [OF assms(1)])
  have j: "completed st = n" "list_all is_ended (workers st)" "r = current_result st"
    using reachable_joined [OF assms(1)] assms(3) l by (simp_all add: joined_def)
  have "\<not> underway st" using j(2) by (auto simp: underway_def list_all_length)
  then have "r \<in> results st"
    using reachable_settling [OF assms(1)] assms(2) j l by (auto simp: settling_def)
  then obtain i where i: "i < n" "worker_result (workers st ! i) = Some r"
    by (auto simp: results_def l)
  then have "is_ended (workers st ! i)" using j(2) l by (simp add: list_all_length)
  then have "workers st ! i = Ended r" using i(2) by (cases "workers st ! i") simp_all
  with that i(1) j(2) show thesis by blast
qed

text \<open>
  C5: If \<^verbatim>\<open>GetResult\<close> returns, every worker has ended and the result is the one \<^verbatim>\<open>RunServer\<close>
  returned for one of the connections, in every interleaving: a success is never invented,
  the initial empty result is never returned, and with a single paired device it is that
  device's result.
\<close>

theorem GetResult_returns_a_result:
  assumes "reachable n st" "0 < n" "caller st = Finished r"
  shows "list_all is_ended (workers st) \<and> (\<exists>i < n. workers st ! i = Ended r)"
  using GetResult_returns [OF assms] by blast

definition demo_result :: "UnlockState \<Rightarrow> UnlockResult" where
  "demo_result st = UnlockResult_new st"

text \<open>Worker 1 fails, worker 0 succeeds afterwards; the caller sleeps until it is notified.\<close>

definition orderly_schedule :: "action list" where
  "orderly_schedule =
     [CallerGoes, CallerGoes, Returns 1 (demo_result TIMEOUT), Goes 1, Goes 1, Goes 1,
      Returns 0 (demo_result SUCCESS), Goes 0, Goes 0, Goes 0, Goes 0, Goes 0,
      CallerGoes, CallerGoes, CallerGoes, CallerGoes]"

theorem GetResult_returns_a_result_witness:
  "\<exists>st. reachable 2 st \<and> caller st = Finished (demo_result SUCCESS) \<and> list_all is_ended (workers st)"
proof -
  obtain st where st: "run_schedule orderly_schedule (handler_start 2) = Some st"
    "caller st = Finished (demo_result SUCCESS)"
  proof -
    have "map_option caller (run_schedule orderly_schedule (handler_start 2)) = Some (Finished (demo_result SUCCESS))"
      by code_simp
    then show thesis using that by auto
  qed
  have "reachable 2 st" by (rule run_schedule_steps [OF st(1) no_step])
  with GetResult_returns_a_result [OF this _ st(2)] st(2) show ?thesis by auto
qed

text \<open>
  C35: A success can be lost: with two paired devices there is an interleaving in which one
  connection succeeds and \<^verbatim>\<open>GetResult\<close> returns the failure of the other, because the
  counter is raised before the success is stored: the failing worker sees all workers
  counted and no success yet, and stores its own result after the successful one has looked
  at the shared result for the last time.
\<close>

theorem success_can_be_lost:
  "\<exists>st. reachable 2 st \<and> caller st = Finished (demo_result TIMEOUT) \<and>
        workers st ! 0 = Ended (demo_result SUCCESS) \<and> result_state (demo_result TIMEOUT) \<noteq> SUCCESS"
proof -
  let ?run = "run_schedule
    [CallerGoes, CallerGoes, Returns 0 (demo_result SUCCESS), Returns 1 (demo_result TIMEOUT),
     Goes 0, Goes 1, Goes 1, Goes 1, Goes 1, Goes 0, Goes 0, Goes 0, Goes 1, Goes 0, Goes 1,
     CallerGoes, CallerGoes, CallerGoes, CallerGoes] (handler_start 2)"
  have "map_option (\<lambda>st. (caller st, workers st ! 0)) ?run =
      Some (Finished (demo_result TIMEOUT), Ended (demo_result SUCCESS))"
    by code_simp
  then obtain st where "?run = Some st" "caller st = Finished (demo_result TIMEOUT)"
    "workers st ! 0 = Ended (demo_result SUCCESS)" by auto
  moreover have "result_state (demo_result TIMEOUT) \<noteq> SUCCESS"
    by (simp add: demo_result_def UnlockResult_new_def)
  ultimately show ?thesis using run_schedule_steps no_step by blast
qed

text \<open>
  C13: Where the threads can get stuck: once no thread can move (and nobody wakes the caller
  for no reason), either \<^verbatim>\<open>GetResult\<close> has returned, or the caller is in a join while it still
  holds the mutex and a worker waits for that mutex to notify it. In particular no wake-up is
  lost: the caller never sleeps on with all workers done.
\<close>

theorem stuck_only_in_join:
  assumes "reachable n st" "\<And>a. a \<noteq> Wakes \<Longrightarrow> act a st = None"
  shows "(\<exists>r. caller st = Finished r) \<or>
         (\<exists>r. caller st = Joining r \<and> (\<exists>i < n. \<exists>x. workers st ! i = Notifying x))"
proof -
  have l: "length (workers st) = n" by (rule reachable_length [OF assms(1)])
  have w: "(\<exists>x. workers st ! i = Ended x) \<or> (\<exists>x. workers st ! i = Notifying x \<and> mutex_held (caller st))"
    if "i < n" for i
  proof -
    have "workers st ! i \<noteq> Running" using assms(2) [of "Returns i (UnlockResult_new UNKNOWN)"] that l by auto
    moreover have "worker_goes i st = None" using assms(2) [of "Goes i"] that l by simp
    ultimately show ?thesis
      by (cases "workers st ! i") (auto simp: worker_goes_def Let_def split: if_split_asm)
  qed
  have c: "caller_goes st = None" using assms(2) [of CallerGoes] by simp
  show ?thesis
  proof (cases "caller st")
    case (Joining r)
    then have "\<not> list_all is_ended (workers st)" using c by (auto simp: caller_goes_def split: if_split_asm)
    then obtain i where "i < n" "\<not> is_ended (workers st ! i)" by (auto simp: list_all_length l)
    with w [of i] Joining show ?thesis by auto
  next
    case Blocked
    have "\<forall>i < n. counted (workers st ! i)" using w by force
    then have "filter counted (workers st) = workers st" using l by (auto simp: filter_id_conv in_set_conv_nth)
    then have "completed st = length (workers st)"
      using reachable_counting [OF assms(1)] by (simp add: counting_def)
    then obtain i where "i < n" "\<not> is_ended (workers st ! i)"
      using reachable_will_notify [OF assms(1)] Blocked l by (auto simp: will_notify_def)
    with w [of i] Blocked show ?thesis by (auto simp: mutex_held_def)
  qed (use c in \<open>auto simp: caller_goes_def\<close>)
qed

text \<open>A run in which the caller comes to the wait late, as after a start that fails at once.\<close>

definition late_schedule :: "action list" where
  "late_schedule =
     [Returns 0 (demo_result START_ERROR), Goes 0, CallerGoes, CallerGoes, CallerGoes, Goes 0, Goes 0, Goes 0, Goes 0]"

lemma late_run:
  obtains st where "reachable 1 st" "caller st = Joining (demo_result UNKNOWN)"
    "workers st = [Notifying (demo_result START_ERROR)]"
proof -
  have "map_option (\<lambda>st. (caller st, workers st)) (run_schedule late_schedule (handler_start 1)) =
      Some (Joining (demo_result UNKNOWN), [Notifying (demo_result START_ERROR)])"
    by code_simp
  then show thesis using that run_schedule_steps [OF _ no_step] by auto
qed

theorem stuck_only_in_join_witness:
  "\<exists>st r. reachable 1 st \<and> caller st = Joining r \<and> workers st ! 0 = Notifying (demo_result START_ERROR)"
proof -
  obtain st where st: "reachable 1 st" "caller st = Joining (demo_result UNKNOWN)"
    "workers st = [Notifying (demo_result START_ERROR)]" by (rule late_run)
  have "act a st = None" if "a \<noteq> Wakes" for a
    using that st(2,3) by (cases a) (auto simp: worker_goes_def caller_goes_def mutex_held_def)
  from stuck_only_in_join [OF st(1) this] st show ?thesis by auto
qed

text \<open>
  C17: And that state is a deadlock: a caller that joins while a worker still has to notify
  it never returns, whatever happens afterwards, because \<^verbatim>\<open>GetResult\<close> keeps the mutex of the
  condition variable locked while it joins.
\<close>

theorem join_deadlocks:
  assumes "handler_steps st st'" "caller st = Joining r" "i < length (workers st)" "workers st ! i = Notifying x"
  shows "caller st' = Joining r \<and> workers st' ! i = Notifying x"
  using assms
proof (induction rule: handler_steps.induct)
  case (one_more st st' a st'')
  then have c: "caller st' = Joining r" "workers st' ! i = Notifying x" by auto
  have i: "i < length (workers st')"
    using one_more.hyps(1) one_more.prems(2)
    by (induction rule: handler_steps.induct) (simp_all add: act_length)
  show ?case
  proof (cases a)
    case (Returns j y)
    then show ?thesis using one_more.hyps(2) c by (auto simp: nth_list_update split: if_split_asm)
  next
    case (Goes j)
    then have g: "worker_goes j st' = Some st''" using one_more.hyps(2) by (simp split: if_split_asm)
    have "j \<noteq> i" using g c by (auto simp: worker_goes_def Let_def mutex_held_def)
    show ?thesis using g c \<open>j \<noteq> i\<close> by (cases rule: worker_goesE) (auto simp: mutex_held_def)
  next
    case CallerGoes
    have "\<not> is_ended (workers st' ! i)" using c(2) by simp
    then have "\<not> list_all is_ended (workers st')" using i by (auto simp: list_all_length)
    then show ?thesis using CallerGoes one_more.hyps(2) c by (simp add: caller_goes_def)
  next
    case Wakes
    then show ?thesis using one_more.hyps(2) c by simp
  qed
qed simp

theorem join_deadlocks_witness:
  "\<exists>st. reachable 1 st \<and> (\<forall>st'. handler_steps st st' \<longrightarrow> caller st' = Joining (demo_result UNKNOWN))"
proof -
  obtain st where "reachable 1 st" "caller st = Joining (demo_result UNKNOWN)"
    "workers st = [Notifying (demo_result START_ERROR)]" by (rule late_run)
  then show ?thesis using join_deadlocks [of st _ "demo_result UNKNOWN" 0 "demo_result START_ERROR"] by auto
qed

section \<open>How long it takes\<close>

primrec worker_rank :: "worker \<Rightarrow> nat" where
  "worker_rank Running = 7"
| "worker_rank (Resulted r) = 6"
| "worker_rank (Counted r) = 5"
| "worker_rank (Stored r) = 4"
| "worker_rank (Last r) = 3"
| "worker_rank (LastStores r) = 2"
| "worker_rank (Notifying r) = 1"
| "worker_rank (Ended r) = 0"

primrec caller_rank :: "caller \<Rightarrow> nat" where
  "caller_rank Locks = 4"
| "caller_rank Checking = 3"
| "caller_rank Blocked = 2"
| "caller_rank Loading = 2"
| "caller_rank (Joining r) = 1"
| "caller_rank (Finished r) = 0"

definition handler_rank :: "handler_state \<Rightarrow> nat" where
  "handler_rank st = 3 * sum_list (map worker_rank (workers st)) + caller_rank (caller st)"

lemma worker_rank_update:
  assumes "i < length ws" "worker_rank w < worker_rank (ws ! i)"
  shows "sum_list (map worker_rank (ws[i := w])) < sum_list (map worker_rank ws)"
proof -
  obtain ys y zs where e: "ws = ys @ y # zs" "length ys = i"
    using id_take_nth_drop [OF assms(1)] assms(1) by (metis length_take min.absorb4)
  then have "ws[i := w] = ys @ w # zs" "ws ! i = y" by (auto simp: list_update_append nth_append)
  then show ?thesis using assms(2) by (simp add: e(1))
qed

lemma handler_rank_worker:
  assumes "i < length (workers st)" "worker_rank w < worker_rank (workers st ! i)"
    "workers st' = (workers st)[i := w]" "caller_rank (caller st') \<le> caller_rank (caller st) + 2"
  shows "handler_rank st' < handler_rank st"
  using worker_rank_update [OF assms(1,2)] assms(3,4) by (simp add: handler_rank_def)

lemma act_rank:
  assumes "act a st = Some st'" "a \<noteq> Wakes"
  shows "handler_rank st' < handler_rank st"
proof (cases a)
  case (Returns i r)
  then show ?thesis using assms(1) by (intro handler_rank_worker [of i st "Resulted r"]) (auto split: if_split_asm)
next
  case (Goes i)
  then have i: "i < length (workers st)" and g: "worker_goes i st = Some st'"
    using assms(1) by (auto split: if_split_asm)
  show ?thesis
    using g by (cases rule: worker_goesE) (auto intro!: handler_rank_worker [OF i])
next
  case CallerGoes
  then have "caller_goes st = Some st'" using assms(1) by simp
  then show ?thesis by (auto simp: caller_goes_def handler_rank_def split: caller.split_asm if_split_asm)
qed (use assms in simp)

lemma run_schedule_rank:
  "run_schedule as st = Some st' \<Longrightarrow> Wakes \<notin> set as \<Longrightarrow> handler_rank st' + length as \<le> handler_rank st"
proof (induction as arbitrary: st)
  case (Cons a as)
  then obtain st1 where "act a st = Some st1" "run_schedule as st1 = Some st'"
    by (auto simp: bind_eq_Some_conv)
  with Cons act_rank [of a st st1] show ?case by fastforce
qed simp

text \<open>
  C24: Every run of the threads without spurious wake-ups is finite: with n connections the
  workers and the caller together perform at most 21n+4 actions, the returns of the
  \<^verbatim>\<open>RunServer\<close> calls included.
\<close>

theorem GetResult_terminates:
  assumes "run_schedule as (handler_start n) = Some st" "Wakes \<notin> set as"
  shows "length as \<le> 21 * n + 4"
  using run_schedule_rank [OF assms] by (simp add: handler_rank_def handler_start_def sum_list_replicate)

theorem GetResult_terminates_witness:
  "length orderly_schedule \<le> 46"
proof -
  have "run_schedule orderly_schedule (handler_start 2) \<noteq> None" "Wakes \<notin> set orderly_schedule" by code_simp+
  then show ?thesis using GetResult_terminates [of orderly_schedule 2] by auto
qed

end
