(* ===== verification/UnlockSession.thy ===== *)
theory UnlockSession
  imports UnlockRace
begin

text \<open>
  An unlock attempt from end to end: the connections \<^verbatim>\<open>GetResult\<close> makes for the paired devices
  of the user, their threads and the packets they exchange, the polls of \<^verbatim>\<open>RunServer\<close>, and
  the race of the workers for the shared result.
\<close>

section \<open>One connection\<close>

text \<open>
  \<open>serves H J s views s'\<close>: the connection was started, its thread ran, the polls saw its state
  before or after the thread decided, and \<open>s'\<close> is the object after \<^verbatim>\<open>Stop\<close>, which found the
  thread at its end. (A \<^verbatim>\<open>Stop\<close> that comes earlier leaves an error: \<open>Stop_running\<close>.)
\<close>

inductive serves :: "'x host \<Rightarrow> json_lib \<Rightarrow> unlock_server \<Rightarrow> poll_view list \<Rightarrow> unlock_server \<Rightarrow> bool" for H J where
  serves_tcp:
    "Start H N s = Inr (True, s1) \<Longrightarrow> ConnectThread H J (N, t0, t1) (s1, w) = Inr (s2, w2) \<Longrightarrow>
     \<forall>v \<in> set views. view_poll v = m_UnlockState s1 \<or> view_poll v = m_UnlockState s2 \<Longrightarrow>
     Stop H J now Returned s2 w2 = Inr (s3, w3) \<Longrightarrow> serves H J (ClientTCP s) views (ClientTCP s3)"
| serves_bt:
    "BT_Start H N s = Inr (True, s1) \<Longrightarrow> BT_ConnectThread H J (N, sdp :: int sdp_env, t0, t1) (s1, w) = Inr (s2, w2) \<Longrightarrow>
     \<forall>v \<in> set views. view_poll v = m_UnlockState s1 \<or> view_poll v = m_UnlockState s2 \<Longrightarrow>
     BT_Stop H J now Returned s2 w2 = Inr (s3, w3) \<Longrightarrow> serves H J (ClientBT s) views (ClientBT s3)"
| serves_cloud:
    "Server_Start H N s w = Inr (True, s1, w1) \<Longrightarrow> AcceptThread H J (N, now) (s1, w1) = Inr (s2, w2) \<Longrightarrow>
     \<forall>v \<in> set views. view_poll v = m_UnlockState s1 \<or> view_poll v = m_UnlockState s2 \<Longrightarrow>
     Server_Stop s2 w2 = Inr (s3, w3) \<Longrightarrow> serves H J (ServerTCP s) views (ServerTCP s3)"

text \<open>The fields of the base class \<^verbatim>\<open>Start\<close> and \<^verbatim>\<open>Stop\<close> leave alone.\<close>

definition same_session :: "'s server_base_scheme \<Rightarrow> 't server_base_scheme \<Rightarrow> bool" where
  "same_session s t \<longleftrightarrow> m_PairedDevice s = m_PairedDevice t \<and> m_UnlockToken s = m_UnlockToken t"

lemma same_session_truncate [simp]:
  "same_session (server_base.truncate s) t = same_session s t" "same_session s (server_base.truncate t) = same_session s t"
  by (simp_all add: same_session_def frame_simps)

lemma start_session:
  "Start H N s = Inr (b, s1) \<Longrightarrow> same_session s1 s \<and> m_UnlockState s1 = m_UnlockState s"
  "BT_Start H N b0 = Inr (b, b1) \<Longrightarrow> same_session b1 b0 \<and> m_UnlockState b1 = m_UnlockState b0"
  "Server_Start H N' c w = Inr (b, c1, w1) \<Longrightarrow> same_session c1 c \<and> m_UnlockState c1 = m_UnlockState c"
  by (auto simp: Start_def BT_Start_def Server_Start_def same_session_def Let_def split: if_split_asm)

lemma thread_session:
  "on_packet H J t r s w = Inr (s', w') \<Longrightarrow> m_PairedDevice s' = m_PairedDevice s"
  by (auto simp: on_packet_def thread_end_def close_client_eq Let_def elim!: bind_err_InrE
      dest!: OnResponseReceived_frame(4))

lemma after_connect_device:
  assumes "after_connect H J t0 t1 result s w = Inr (s', w')"
  shows "m_PairedDevice s' = m_PairedDevice s"
  using assms
  by (auto simp: after_connect_def on_connect_failed_def thread_end_def close_client_eq elim!: bind_err_InrE
      split: if_split_asm dest!: thread_session on_connected_keeps)

lemma ConnectThread_device:
  "ConnectThread H J e (s, w) = Inr (s', w') \<Longrightarrow> m_PairedDevice s' = m_PairedDevice s"
  by (auto simp: ConnectThread_def Let_def split: if_split_asm prod.splits dest!: after_connect_device)

lemma BT_ConnectThread_device:
  assumes "BT_ConnectThread H J e (s, w) = Inr (s', w')"
  shows "m_PairedDevice s' = m_PairedDevice s"
  using assms
proof (cases rule: BT_ConnectThread_cases)
  case (connect N t0 t1 c)
  then show ?thesis
    by (auto simp: BT_connect_def BT_after_connect_eq Let_def split: if_split_asm dest!: after_connect_device)
qed auto

lemma serve_peer_device:
  "serve_peer H J now s w = Inr (s', w') \<Longrightarrow> m_PairedDevice s' = m_PairedDevice s"
  by (auto simp: serve_peer_def close_server_eq close_peer_eq Let_def elim!: bind_err_InrE
      split: option.split_asm prod.split_asm dest!: OnResponseReceived_frame(4))

lemma AcceptThread_device:
  assumes "AcceptThread H J e (s, w) = Inr (s', w')"
  shows "m_PairedDevice s' = m_PairedDevice s"
proof -
  obtain N now where e: "e = (N, now)" by (cases e)
  from assms [unfolded e] show ?thesis
    by (cases rule: AcceptThread_cases) (auto simp: close_server_eq dest!: serve_peer_device)
qed

lemma stop_session:
  "Stop H J now Returned s w = Inr (s', w') \<Longrightarrow> m_PairedDevice s' = m_PairedDevice s \<and> m_ResponseData s' = m_ResponseData s"
  "BT_Stop H J now Returned b w = Inr (b', w') \<Longrightarrow> m_PairedDevice b' = m_PairedDevice b \<and> m_ResponseData b' = m_ResponseData b"
  "Server_Stop c w = Inr (c', w') \<Longrightarrow> m_PairedDevice c' = m_PairedDevice c \<and> m_ResponseData c' = m_ResponseData c"
  by (auto simp: Stop_def BT_Stop_def Server_Stop_def drain_def close_client_eq close_server_eq close_peer_eq Let_def
      split: if_split_asm)

lemma serves_device: "serves H J s views s' \<Longrightarrow> m_PairedDevice (base_of s') = m_PairedDevice (base_of s)"
  by (induction rule: serves.induct)
     (auto simp: frame_simps same_session_def dest!: stop_session start_session ConnectThread_device
       BT_ConnectThread_device AcceptThread_device)

lemma genuine_start: "same_session s1 s \<Longrightarrow> genuine H J s1 pwd = genuine H J s pwd"
  by (rule genuine_cong) (simp_all add: same_session_def)

text \<open>A poll that sees a success has seen the decision of the thread, so the locales apply.\<close>

lemma serves_genuine:
  assumes "serves H J s views s'" "openssl_ok H" "m_UnlockState (base_of s) = UNKNOWN"
    and "v \<in> set views" "view_poll v = SUCCESS"
  shows "genuine H J (base_of s) (password (m_ResponseData (base_of s')))"
  using assms
proof (induction rule: serves.induct)
  case (serves_tcp N s s1 t0 t1 w s2 w2 views now s3 w3)
  then have u: "m_UnlockState s1 = UNKNOWN" "m_UnlockState s2 = SUCCESS" "same_session s1 s"
    using start_session(1) [OF serves_tcp.hyps(1)] by (auto simp: frame_simps)
  from tcp_client.success_genuine [OF serves_tcp.prems(1) serves_tcp.hyps(2)] u
  have "genuine H J s1 (password (m_ResponseData s2))" by (simp add: frame_simps)
  then show ?case using genuine_start [OF u(3), of H J] stop_session(1) [OF serves_tcp.hyps(4)] by (simp add: frame_simps)
next
  case (serves_bt N s s1 sdp t0 t1 w s2 w2 views now s3 w3)
  then have u: "m_UnlockState s1 = UNKNOWN" "m_UnlockState s2 = SUCCESS" "same_session s1 s"
    using start_session(2) [OF serves_bt.hyps(1)] by (auto simp: frame_simps)
  from bt_client.success_genuine [OF serves_bt.prems(1) serves_bt.hyps(2)] u
  have "genuine H J s1 (password (m_ResponseData s2))" by (simp add: frame_simps)
  then show ?case using genuine_start [OF u(3), of H J] stop_session(2) [OF serves_bt.hyps(4)] by (simp add: frame_simps)
next
  case (serves_cloud N s w s1 w1 now s2 w2 views s3 w3)
  then have u: "m_UnlockState s1 = UNKNOWN" "m_UnlockState s2 = SUCCESS" "same_session s1 s"
    using start_session(3) [OF serves_cloud.hyps(1)] by (auto simp: frame_simps)
  from tcp_server.success_genuine [OF serves_cloud.prems(1) serves_cloud.hyps(2)] u
  have "genuine H J s1 (password (m_ResponseData s2))" by (simp add: frame_simps)
  then show ?case using genuine_start [OF u(3), of H J] stop_session(3) [OF serves_cloud.hyps(4)] by (simp add: frame_simps)
qed

section \<open>The whole attempt\<close>

lemma new_server_base:
  "m_UnlockState (base_of (set_unlock_info u p (new_server e draw cfg device))) = UNKNOWN \<and>
   m_PairedDevice (base_of (set_unlock_info u p (new_server e draw cfg device))) = device"
  by (cases "pairingMethod device")
     (simp_all add: new_server_def SetUnlockInfo_def TCPUnlockClient_new_def BTUnlockClient_new_def
       TCPUnlockServer_new_def BaseUnlockServer_new_def server_base.extend_def frame_simps)

lemma new_servers_base:
  "i < length devices \<Longrightarrow>
   m_UnlockState (base_of (new_servers e draws cfg u p k devices ! i)) = UNKNOWN \<and>
   m_PairedDevice (base_of (new_servers e draws cfg u p k devices ! i)) = devices ! i"
  by (induction devices arbitrary: i k) (auto simp: new_server_base nth_Cons split: nat.split)

lemma length_new_servers [simp]: "length (new_servers e draws cfg u p k devices) = length devices"
  by (induction devices arbitrary: k) simp_all

text \<open>
  Worker \<open>i\<close> returned \<open>r\<close>: it ran \<^verbatim>\<open>RunServer\<close> on its connection, and if the connection was
  started, the polls saw what its thread did.
\<close>

definition worker_ran :: "'x host \<Rightarrow> sysenv \<Rightarrow> unlock_server \<Rightarrow> UnlockResult \<Rightarrow> bool" where
  "worker_ran H E s r \<longleftrightarrow>
     (\<exists>started t views s'. snd (RunServer E started t views s') = Some r \<and>
        (started \<longrightarrow> serves H (json E) s views s'))"

lemma worker_ran_success:
  assumes "worker_ran H E s r" "result_state r = SUCCESS" "openssl_ok H" "m_UnlockState (base_of s) = UNKNOWN"
  shows "result_device r = m_PairedDevice (base_of s) \<and> genuine H (json E) (base_of s) (result_password r)"
proof -
  obtain started t views s' where r: "snd (RunServer E started t views s') = Some r"
    and sv: "started \<Longrightarrow> serves H (json E) s views s'"
    using assms(1) unfolding worker_ran_def by blast
  obtain f where f: "first_decision (PACKET_TIMEOUT (os E)) t views = Some (SUCCESS, f)" "started"
    "r = result_of SUCCESS s'"
    using r assms(2) by (auto simp: RunServer_result UnlockResult_new_def split: if_split_asm)
  from first_decision_Some [OF f(1)] obtain v where "v \<in> set views" "view_poll v = SUCCESS"
    by (auto simp: decision_def split: if_split_asm)
  with serves_genuine [OF sv [OF f(2)] assms(3,4)] serves_device [OF sv [OF f(2)]] f(3) show ?thesis
    by simp
qed

lemma paired_phone:
  assumes "openssl_ok H"
    and "GetResult_servers E e draws authUser authProgram = (msgs, Inr servers)"
    and "reachable (length servers) st" "caller st = Finished r" "result_state r = SUCCESS"
    and "\<And>i x. i < length servers \<Longrightarrow> worker_result (workers st ! i) = Some x \<Longrightarrow> worker_ran H E (servers ! i) x"
  shows "result_device r \<in> set (GetDevicesForUser (json E) (devices_file E) authUser) \<and>
    userName (result_device r) = authUser \<and>
    (\<exists>s \<in> set servers. m_PairedDevice (base_of s) = result_device r \<and> genuine H (json E) (base_of s) (result_password r))"
proof -
  let ?devices = "GetDevicesForUser (json E) (devices_file E) authUser"
  have servers: "servers = new_servers e draws (AppStorage_Get (json E) (settings_file E)) authUser authProgram 0 ?devices"
    "servers \<noteq> []"
    using assms(2) by (auto simp: GetResult_servers_def Let_def split: if_split_asm)
  obtain i where i: "i < length servers" "workers st ! i = Ended r"
    using GetResult_returns [OF assms(3) _ assms(4)] servers(2) by blast
  have b: "m_UnlockState (base_of (servers ! i)) = UNKNOWN" "m_PairedDevice (base_of (servers ! i)) = ?devices ! i"
    using new_servers_base [of i ?devices] i(1) by (simp_all add: servers(1))
  have "worker_ran H E (servers ! i) r" using assms(6) [OF i(1)] i(2) by simp
  from worker_ran_success [OF this assms(5,1) b(1)] b(2) i(1)
  have d: "result_device r = ?devices ! i" "genuine H (json E) (base_of (servers ! i)) (result_password r)" by auto
  have "?devices ! i \<in> set ?devices" using i(1) by (simp add: servers(1))
  moreover have "userName (?devices ! i) = authUser"
    using \<open>?devices ! i \<in> set ?devices\<close> by (simp add: GetDevicesForUser_filter)
  moreover have "servers ! i \<in> set servers" using i(1) by simp
  ultimately show ?thesis using d b(2) by metis
qed


subsection \<open>On concrete values\<close>

text \<open>A device paired through the cloud, whose phone connects to the PC and answers in time.\<close>

definition demo_cloud :: PairedDevice where
  "demo_cloud = demo_device\<lparr>pairingMethod := CLOUD_TCP\<rparr>"

definition demo_files :: sysenv where
  "demo_files = demo_env\<lparr>devices_file := Some (json_text (JArr [device_json demo_cloud]))\<rparr>"

definition demo_token :: string where
  "demo_token = replicate 64 (CHR ''0'')"

definition demo_answer :: string where
  "demo_answer = json_text (JObj [(''password'', JStr ''secret''), (''unlockToken'', JStr demo_token)])"

lemma demo_files_devices: "GetDevicesForUser (json demo_files) (devices_file demo_files) ''alice'' = [demo_cloud]"
proof -
  have p: "plain_json (JArr (map device_json [demo_cloud]))" by code_simp
  have d: "json_dump (nlohmann demo_c (\<lambda>_. ''0.0'')) (JArr (map device_json [demo_cloud]))
      = Some (json_text (JArr (map device_json [demo_cloud])))"
    using demo_json_dump [OF p] by (simp add: demo_json_def)
  from devices_text [OF d, of "''''"]
  have "json_read demo_json (json_text (JArr [device_json demo_cloud])) = Some (JArr [device_json demo_cloud])"
    by (simp add: demo_json_def number_ends_def)
  moreover have "userName demo_cloud = ''alice''" by (simp add: demo_cloud_def demo_device_def)
  ultimately show ?thesis
    using devices_loop_device_json [of "[]" "[demo_cloud]"]
    by (simp add: GetDevicesForUser_filter GetDevices_def json_from_file_def demo_files_def demo_env_def)
qed

lemma demo_answer_text:
  "json_dump demo_json (reply_json demo_token ''secret'') = Some demo_answer" "length demo_answer \<le> 300"
proof -
  have "plain_json (reply_json demo_token ''secret'')" by code_simp
  from demo_json_dump [OF this] show "json_dump demo_json (reply_json demo_token ''secret'') = Some demo_answer"
    by (simp add: demo_answer_def reply_json_def)
  show "length demo_answer \<le> 300" by code_simp
qed

lemma single_success:
  assumes "result_state r = SUCCESS"
  shows "\<exists>st. reachable 1 st \<and> caller st = Finished r \<and> workers st = [Ended r]"
proof -
  have "\<exists>st. run_schedule
      [CallerGoes, CallerGoes, Returns 0 r, Goes 0, Goes 0, Goes 0, Goes 0, Goes 0, CallerGoes, CallerGoes, CallerGoes, CallerGoes]
      (handler_start 1) = Some st \<and> caller st = Finished r \<and> workers st = [Ended r]"
    using assms
    by (simp add: handler_start_def worker_goes_def caller_goes_def mutex_held_def UnlockResult_new_def Let_def)
  then show ?thesis using run_schedule_steps no_step by blast
qed

lemma demo_cloud_serves:
  assumes "m_UnlockToken S = demo_token" "m_PairedDevice S = demo_cloud" "m_UnlockState S = UNKNOWN"
    "\<not> m_IsRunning S" "\<not> m_AcceptThread S"
  shows "\<exists>S'. serves demo_host demo_json (ServerTCP S) [demo_view\<lparr>view_poll := SUCCESS\<rparr>] (ServerTCP S')"
proof -
  obtain pkt h1 where enc: "EncryptAESPacket (demo_host\<lparr>byte_order := BigEndian, build := Linux\<rparr>) 5000 (bytes_of demo_answer)
      (encryptionKey (m_PairedDevice S)) empty_heap = Inr (OK, length (bytes_of demo_answer) + 56, Some pkt, h1)"
    using phone_sends [of "bytes_of demo_answer"] demo_answer_text(2) by fastforce
  define w where "w = \<lparr>link = \<lparr>incoming = pkt, rd_sizes = [1024], outgoing = [], wr_sizes = []\<rparr>, open_fds = [0], heap = empty_heap\<rparr>"
  define S1 where "S1 = S\<lparr>m_ServerSocket := 3, m_IsRunning := True, m_AcceptThread := True\<rparr>"
  define S2 where "S2 = S1\<lparr>m_PeerSocket := 4, m_HasConnection := True\<rparr>"
  have start: "Server_Start demo_host demo_srv S w = Inr (True, S1, w\<lparr>open_fds := [3, 0]\<rparr>)"
    using assms(4,5) by (simp add: Server_Start_def demo_host_def demo_srv_def opened_def w_def S1_def Let_def)
  have f: "fresh (build demo_host) 9000 5000" by (simp add: fresh_def PACKET_TIMEOUT_def demo_host_def)
  have S2: "m_UnlockToken S2 = demo_token" "m_PairedDevice S2 = m_PairedDevice S"
    using assms(1) by (simp_all add: S2_def S1_def)
  have j: "json_ok demo_json" by (rule demo_json_ok)
  have d: "json_dump demo_json (reply_json (m_UnlockToken S2) ''secret'') = Some demo_answer"
    using demo_answer_text(1) S2(1) by simp
  have l: "length demo_answer \<le> 968" using demo_answer_text(2) by simp
  note r = reply_succeeds [OF demo_ok j demo_malloc d l enc [folded S2(2)] f]
  obtain S3 where S3: "OnResponseReceived demo_host demo_json 9000 pkt S2 empty_heap = Inr (S3, empty_heap)"
    "m_UnlockState S3 = SUCCESS"
    using r(1) by blast
  have pkt: "pkt \<noteq> []" "length pkt \<le> 1024" using r(2) demo_answer_text(2) by auto
  have "\<exists>S4 w4. AcceptThread demo_host demo_json (demo_srv, 9000) (S1, w\<lparr>open_fds := [3, 0]\<rparr>) = Inr (S4, w4) \<and>
      m_UnlockState S4 = SUCCESS \<and> m_AcceptThread S4"
    using S3 pkt OnResponseReceived_frame(3) [OF S3(1)]
    by (simp add: AcceptThread_def demo_srv_def demo_host_def serve_peer_def opened_def w_def sock_read_def
        S2_def S1_def close_peer_eq close_server_eq Let_def min_def)
  then obtain S4 w4 where t: "AcceptThread demo_host demo_json (demo_srv, 9000) (S1, w\<lparr>open_fds := [3, 0]\<rparr>) = Inr (S4, w4)"
    "m_UnlockState S4 = SUCCESS" "m_AcceptThread S4" by blast
  have "\<exists>S5 w5. Server_Stop S4 w4 = Inr (S5, w5)"
    using t(3) by (cases "m_IsRunning S4") (simp_all add: Server_Stop_def close_peer_eq close_server_eq Let_def)
  then obtain S5 w5 where "Server_Stop S4 w4 = Inr (S5, w5)" by blast
  with t(2) show ?thesis by (intro exI serves_cloud [OF start t(1)]) auto
qed

lemma demo_session:
  "\<exists>servers st r. GetResult_servers demo_files LittleEndian (\<lambda>_ _. [0, 0, 0, 0]) ''alice'' ''sudo'' = ([], Inr servers) \<and>
     length servers = 1 \<and> reachable 1 st \<and> caller st = Finished r \<and> result_state r = SUCCESS \<and> result_device r = demo_cloud \<and>
     (\<forall>i x. i < 1 \<longrightarrow> worker_result (workers st ! i) = Some x \<longrightarrow> worker_ran demo_host demo_files (servers ! i) x)"
proof -
  let ?draw = "\<lambda>_ :: nat. [0, 0, 0, 0] :: bytes"
  define S where "S = SetUnlockInfo ''alice'' ''sudo'' (TCPUnlockServer_new LittleEndian ?draw
      (unlockServerPort (AppStorage_Get (json demo_files) (settings_file demo_files))) demo_cloud)"
  have g: "GetResult_servers demo_files LittleEndian (\<lambda>_. ?draw) ''alice'' ''sudo'' = ([], Inr [ServerTCP S])"
    by (simp add: GetResult_servers_def Let_def demo_files_devices new_server_def S_def) (simp add: demo_cloud_def)
  have tok: "GetRandomString LittleEndian ?draw 64 = demo_token" by code_simp
  have S: "m_UnlockToken S = demo_token" "m_PairedDevice S = demo_cloud" "m_UnlockState S = UNKNOWN"
    "\<not> m_IsRunning S" "\<not> m_AcceptThread S"
    using tok by (simp_all add: S_def SetUnlockInfo_def TCPUnlockServer_new_def BaseUnlockServer_new_def server_base.extend_def)
  obtain S' where sv: "serves demo_host demo_json (ServerTCP S) [demo_view\<lparr>view_poll := SUCCESS\<rparr>] (ServerTCP S')"
    using demo_cloud_serves [OF S] by blast
  define r where "r = result_of SUCCESS (ServerTCP S')"
  have "snd (RunServer demo_files True 0 [demo_view\<lparr>view_poll := SUCCESS\<rparr>] (ServerTCP S')) = Some r"
    by (simp add: RunServer_result decision_def demo_view_def r_def)
  moreover have "json demo_files = demo_json" by (simp add: demo_files_def demo_env_def)
  ultimately have ran: "worker_ran demo_host demo_files (ServerTCP S) r"
    using sv unfolding worker_ran_def by (metis)
  obtain st where st: "reachable 1 st" "caller st = Finished r" "workers st = [Ended r]"
    using single_success [of r] by (auto simp: r_def)
  have "result_device r = demo_cloud" using serves_device [OF sv] S(2) by (simp add: r_def frame_simps)
  with g st ran show ?thesis by (intro exI [of _ "[ServerTCP S]"] exI [of _ st] exI [of _ r]) (simp add: r_def)
qed


end
