(* ===== verification/PamModule.thy ===== *)
theory PamModule
  imports Prelude
begin

text \<open>
  The PAM module, \<^verbatim>\<open>pam-pcbiounlock/src\<close>: \<^verbatim>\<open>pam_auth.cpp\<close> runs the helper \<^verbatim>\<open>pcbu_auth\<close>, shows the
  lines it prints and turns its exit status into an answer; the other files answer at once.
  The process stream of \<^verbatim>\<open>deps/pstream.h\<close> is modelled as far as the module uses it: starting
  a program, waiting for it and closing. What the system calls return is input, and what
  becomes of the child is a value the calls have to agree with.
\<close>

section \<open>The child process\<close>

text \<open>
  \<open>ExecFails\<close>: \<^verbatim>\<open>execvp\<close> failed, and the child ends with its \<^verbatim>\<open>errno\<close> as exit code.
  \<open>exit_status\<close> is the word \<^verbatim>\<open>waitpid\<close> stores for each ending.
\<close>

datatype child_fate = Exits int | Killed int bool | ExecFails int

fun exit_status :: "child_fate \<Rightarrow> int" where
  "exit_status (Exits code) = (code mod 256) * 256"
| "exit_status (Killed sig core) = sig + (if core then 128 else 0)"
| "exit_status (ExecFails errno) = (errno mod 256) * 256"

fun fate_ok :: "child_fate \<Rightarrow> bool" where
  "fate_ok (Exits code) = True"
| "fate_ok (Killed sig core) = (0 < sig \<and> sig < 127)"
| "fate_ok (ExecFails errno) = (0 < errno \<and> errno < 256)"

text \<open>The answers of \<^verbatim>\<open>waitpid\<close> in turn; a blocking call does not return while the child runs.\<close>

datatype wait_result = Pending | WaitFails int | Gone

fun waitpid :: "bool \<Rightarrow> wait_result list \<Rightarrow> (wait_result \<times> wait_result list) option" where
  "waitpid nohang [] = None"
| "waitpid nohang (r # rs) = (if r = Pending \<and> \<not> nohang then waitpid nohang rs else Some (r, rs))"

definition EINTR :: int where "EINTR = 4"

record process_calls =
  ck_pipe :: "int + int \<times> int"
  ck_fcntl :: "int option"
  pipe_in :: "int + int \<times> int"
  pipe_out :: "int + int \<times> int"
  pipe_err :: "int + int \<times> int"
  fork_result :: "int + int"
  exec_read_fails :: "int option"
  fate :: "string list \<Rightarrow> child_fate"
  child_output :: "string list \<Rightarrow> string"

section \<open>Process streams\<close>

text \<open>
  \<open>ps_error\<close> is \<^verbatim>\<open>error_\<close>. The character buffers have no influence on the lines the module reads;
  the theory \<open>PStreamIO\<close> models them and shows that.
\<close>

record pstreambuf =
  ppid :: int
  wpipe :: int
  rpipe_out :: int
  rpipe_err :: int
  ps_status :: int
  ps_error :: int

record pmode =
  pstdin :: bool
  pstdout :: bool
  pstderr :: bool

text \<open>The descriptors of the process and the remaining answers of \<^verbatim>\<open>waitpid\<close>.\<close>

record ps_world =
  fds :: "int list"
  waits :: "wait_result list"

definition pstreambuf_new :: pstreambuf where
  "pstreambuf_new = \<lparr>ppid = -1, wpipe = -1, rpipe_out = -1, rpipe_err = -1, ps_status = -1, ps_error = 0\<rparr>"

definition ps_is_open :: "pstreambuf \<Rightarrow> bool" where
  "ps_is_open s \<longleftrightarrow> ppid s > 0"

text \<open>\<^verbatim>\<open>close\<close> succeeds on a descriptor that is open.\<close>

definition close_fd :: "int \<Rightarrow> int list \<Rightarrow> int \<times> int list" where
  "close_fd fd ds = (if 0 \<le> fd \<and> fd \<in> set ds then (-1, remove1 fd ds) else (fd, ds))"

definition close_fds :: "int list \<Rightarrow> int list \<Rightarrow> int list" where
  "close_fds xs ds = fold (\<lambda>fd ds. snd (close_fd fd ds)) xs ds"

text \<open>One of the three pipes of \<^verbatim>\<open>fork\<close>: its ends, the error and the descriptors.\<close>

definition mode_pipe :: "bool \<Rightarrow> int + int \<times> int \<Rightarrow> int \<times> int list \<Rightarrow> (int \<times> int) \<times> int \<times> int list" where
  "mode_pipe wanted call st =
     (case st of (err, ds) \<Rightarrow>
       if err = 0 \<and> wanted then
         (case call of Inl errno \<Rightarrow> ((-1, -1), errno, ds) | Inr (rd, wr) \<Rightarrow> ((rd, wr), err, rd # wr # ds))
       else ((-1, -1), err, ds))"

definition ps_fork :: "process_calls \<Rightarrow> pmode \<Rightarrow> pstreambuf \<Rightarrow> int list \<Rightarrow> int \<times> pstreambuf \<times> int list" where
  "ps_fork C mode s ds =
     (let (pin, st) = mode_pipe (pstdin mode) (pipe_in C) (ps_error s, ds);
          (pout, st) = mode_pipe (pstdout mode) (pipe_out C) st;
          (perr, err, ds) = mode_pipe (pstderr mode) (pipe_err C) st;
          s = s\<lparr>ps_error := err\<rparr>;
          fd = [fst pin, snd pin, fst pout, snd pout, fst perr, snd perr]
      in if err \<noteq> 0 then (-1, s, close_fds fd ds)
         else
           (case fork_result C of
              Inl errno \<Rightarrow> (-1, s\<lparr>ps_error := errno\<rparr>, close_fds fd ds)
            | Inr pid \<Rightarrow>
                let s = s\<lparr>ppid := pid\<rparr>;
                    (s, ds) = (if fst pin \<ge> 0 then (s\<lparr>wpipe := snd pin\<rparr>, remove1 (fst pin) ds) else (s, ds));
                    (s, ds) = (if fst pout \<ge> 0 then (s\<lparr>rpipe_out := fst pout\<rparr>, remove1 (snd pout) ds) else (s, ds));
                    (s, ds) = (if fst perr \<ge> 0 then (s\<lparr>rpipe_err := fst perr\<rparr>, remove1 (snd perr) ds) else (s, ds))
                in (pid, s, ds)))"

text \<open>\<open>None\<close>: the call does not return.\<close>

definition ps_wait :: "child_fate \<Rightarrow> bool \<Rightarrow> pstreambuf \<Rightarrow> ps_world \<Rightarrow> (int \<times> pstreambuf \<times> ps_world) option" where
  "ps_wait ft nohang s w =
     (if \<not> ps_is_open s then Some (-1, s, w)
      else
        (case waitpid nohang (waits w) of
           None \<Rightarrow> None
         | Some (Pending, rs) \<Rightarrow> Some (0, s, w\<lparr>waits := rs\<rparr>)
         | Some (WaitFails errno, rs) \<Rightarrow> Some (-1, s\<lparr>ps_error := errno\<rparr>, w\<lparr>waits := rs\<rparr>)
         | Some (Gone, rs) \<Rightarrow>
             let (fd, ds) = close_fd (wpipe s) (fds w)
             in Some (1, s\<lparr>ppid := 0, ps_status := exit_status ft, wpipe := fd\<rparr>, w\<lparr>fds := ds, waits := rs\<rparr>)))"

definition ps_open ::
  "process_calls \<Rightarrow> string list \<Rightarrow> pmode \<Rightarrow> pstreambuf \<Rightarrow> ps_world \<Rightarrow> (bool \<times> pstreambuf \<times> ps_world) option" where
  "ps_open C argv mode s w =
     (if ps_is_open s then Some (False, s, w)
      else
        (case ck_pipe C of
           Inl errno \<Rightarrow> Some (False, s\<lparr>ps_error := errno\<rparr>, w)
         | Inr (rd, wr) \<Rightarrow>
             let ds = rd # wr # fds w
             in case ck_fcntl C of
                  Some errno \<Rightarrow> Some (False, s\<lparr>ps_error := errno\<rparr>, w\<lparr>fds := close_fds [rd, wr] ds\<rparr>)
                | None \<Rightarrow>
                    (case ps_fork C mode s ds of (pid, s, ds) \<Rightarrow>
                      if pid = -1 then Some (False, s, w\<lparr>fds := close_fds [rd, wr] ds\<rparr>)
                      else
                        let w = w\<lparr>fds := remove1 wr ds\<rparr>
                        in map_option (\<lambda>(opened, s, w). (opened, s, w\<lparr>fds := remove1 rd (fds w)\<rparr>))
                             (case exec_read_fails C of
                                Some errno \<Rightarrow> Some (False, s\<lparr>ps_error := errno\<rparr>, w)
                              | None \<Rightarrow>
                                  (case fate C argv of
                                     ExecFails errno \<Rightarrow>
                                       map_option (\<lambda>(r, s, w). (False, s, w))
                                         (ps_wait (fate C argv) False (s\<lparr>ps_error := errno\<rparr>) w)
                                   | _ \<Rightarrow> Some (True, s, w))))))"

definition ps_exited :: "child_fate \<Rightarrow> pstreambuf \<Rightarrow> ps_world \<Rightarrow> (bool \<times> pstreambuf \<times> ps_world) option" where
  "ps_exited ft s w =
     (if ppid s = 0 then Some (True, s, w)
      else map_option (\<lambda>(r, s, w). (r = 1, s, w)) (ps_wait ft True s w))"

lemma waitpid_shrinks: "waitpid nohang rs = Some (r, rs') \<Longrightarrow> length rs' < length rs"
  by (induction rs) (auto split: if_split_asm)

lemma ps_wait_shrinks:
  "ps_wait ft nohang s w = Some (r, s', w') \<Longrightarrow> ps_error s = 0 \<Longrightarrow> ps_error s' \<noteq> 0 \<Longrightarrow> length (waits w') < length (waits w)"
  by (auto simp: ps_wait_def Let_def split: if_split_asm option.split_asm wait_result.split_asm prod.split_asm
      dest: waitpid_shrinks)

text \<open>The waiting loop of \<^verbatim>\<open>close\<close>, repeated when a signal interrupts it.\<close>

function close_wait :: "child_fate \<Rightarrow> pstreambuf \<Rightarrow> ps_world \<Rightarrow> (pstreambuf \<times> ps_world) option" where
  "close_wait ft s w =
     (case ps_wait ft False (s\<lparr>ps_error := 0\<rparr>) w of
        None \<Rightarrow> None
      | Some (r, s', w') \<Rightarrow> if r = -1 \<and> ps_error s' = EINTR then close_wait ft s' w' else Some (s', w'))"
  by pat_completeness auto
termination
  by (relation "measure (\<lambda>(ft, s, w). length (waits w))") (auto simp: EINTR_def dest: ps_wait_shrinks)

declare close_wait.simps [simp del]

text \<open>\<open>sync\<close> only asks whether the child has ended, since nothing is written to it.\<close>

definition ps_close :: "child_fate \<Rightarrow> pstreambuf \<Rightarrow> ps_world \<Rightarrow> (bool \<times> pstreambuf \<times> ps_world) option" where
  "ps_close ft s w =
     (let running = ps_is_open s in
      case ps_exited ft s w of
        None \<Rightarrow> None
      | Some (_, s, w) \<Rightarrow>
          let (a, ds) = close_fd (wpipe s) (fds w);
              (b, ds) = close_fd (rpipe_out s) ds;
              (c, ds) = close_fd (rpipe_err s) ds
          in map_option (\<lambda>(s, w). (running, s, w))
               (close_wait ft (s\<lparr>wpipe := a, rpipe_out := b, rpipe_err := c\<rparr>) (w\<lparr>fds := ds\<rparr>)))"

section \<open>The entry points\<close>

datatype pam_code = PAM_SUCCESS | PAM_AUTH_ERR | PAM_IGNORE | PAM_AUTHTOK_ERR | PAM_CONV_ERR | PAM_OTHER int

text \<open>
  What \<^verbatim>\<open>pam_get_item\<close> and \<^verbatim>\<open>pam_get_user\<close> return, with the pointer they store; of the
  conversation only whether there is one matters.
\<close>

record pam_handle =
  service_item :: "pam_code \<times> string option"
  user_item :: "pam_code \<times> string option"
  conv_item :: "pam_code \<times> bool"

definition pam_sm_acct_mgmt :: pam_code where "pam_sm_acct_mgmt = PAM_AUTH_ERR"

definition pam_sm_chauthtok :: pam_code where "pam_sm_chauthtok = PAM_AUTHTOK_ERR"

definition pam_sm_open_session :: pam_code where "pam_sm_open_session = PAM_IGNORE"

definition pam_sm_close_session :: pam_code where "pam_sm_close_session = PAM_IGNORE"

definition pam_sm_setcred :: pam_code where "pam_sm_setcred = PAM_SUCCESS"

definition PCBU_AUTH_PATH :: "platform \<Rightarrow> string" where
  "PCBU_AUTH_PATH p = (if p = Apple then ''/usr/local/sbin/pcbu_auth'' else ''/usr/sbin/pcbu_auth'')"

text \<open>The answer and the texts the conversation shows.\<close>

definition print_pam :: "bool \<Rightarrow> string \<Rightarrow> pam_code \<times> string list" where
  "print_pam conv msg = (if \<not> conv then (PAM_CONV_ERR, []) else (PAM_SUCCESS, [c_str msg]))"

text \<open>The loop of \<^verbatim>\<open>std::getline\<close>; \<open>acc\<close> is the line being read.\<close>

fun getlines :: "string \<Rightarrow> string \<Rightarrow> string list" where
  "getlines acc [] = (if acc = [] then [] else [acc])"
| "getlines acc (c # cs) = (if c = CHR 0x0A then acc # getlines [] cs else getlines (acc @ [c]) cs)"

definition pam_sm_authenticate ::
  "platform \<Rightarrow> process_calls \<Rightarrow> pam_handle \<Rightarrow> ps_world \<Rightarrow> (fault + pam_code \<times> string list \<times> ps_world) option" where
  "pam_sm_authenticate p C pamh w =
     (let statusCode = fst (service_item pamh);
          statusCode = (if statusCode = PAM_SUCCESS then fst (user_item pamh) else statusCode);
          statusCode = (if statusCode = PAM_SUCCESS then fst (conv_item pamh) else statusCode)
      in if statusCode \<noteq> PAM_SUCCESS then Some (Inr (PAM_IGNORE, [], w))
         else
           (case (snd (user_item pamh), snd (service_item pamh)) of
              (Some userName, Some serviceName) \<Rightarrow>
                let args = [PCBU_AUTH_PATH p, userName, serviceName]
                in case ps_open C args \<lparr>pstdin = False, pstdout = True, pstderr = False\<rparr> pstreambuf_new w of
                     None \<Rightarrow> None
                   | Some (opened, proc, w) \<Rightarrow>
                       let shown = concat (map (\<lambda>line. snd (print_pam (snd (conv_item pamh)) line))
                             (if opened then getlines [] (child_output C args) else []))
                       in map_option (\<lambda>(_, proc, w).
                            Inr (if ps_status proc = 0 then PAM_SUCCESS
                                 else if ps_status proc = 1 then PAM_AUTH_ERR else PAM_IGNORE, shown, w))
                            (ps_close (fate C args) proc w)
            | _ \<Rightarrow> Some (Inl NullDeref)))"

section \<open>Lemmas\<close>

text \<open>A stream reports -1 until the child is reaped, and then the child's status.\<close>

definition honest :: "child_fate \<Rightarrow> pstreambuf \<Rightarrow> bool" where
  "honest ft s \<longleftrightarrow> (if ppid s = 0 then ps_status s = exit_status ft else ps_status s = -1)"

lemma ps_wait_honest: "ps_wait ft nohang s w = Some (r, s', w') \<Longrightarrow> honest ft s \<Longrightarrow> honest ft s'"
  by (auto simp: ps_wait_def honest_def ps_is_open_def Let_def
      split: if_split_asm option.split_asm wait_result.split_asm prod.split_asm)

lemma close_wait_honest: "close_wait ft s w = Some (s', w') \<Longrightarrow> honest ft s \<Longrightarrow> honest ft s'"
proof (induction ft s w rule: close_wait.induct)
  case (1 ft s w)
  have h: "honest ft (s\<lparr>ps_error := 0\<rparr>)" using "1.prems"(2) by (simp add: honest_def)
  obtain r t v where t: "ps_wait ft False (s\<lparr>ps_error := 0\<rparr>) w = Some (r, t, v)"
    using "1.prems"(1) by (subst (asm) close_wait.simps) (auto split: option.split_asm)
  note ps_wait_honest [OF t h]
  then show ?case
    using "1.IH" [OF t] "1.prems"(1) t by (subst (asm) close_wait.simps) (auto split: if_split_asm)
qed

lemma honest_frame [simp]:
  "honest ft (s\<lparr>wpipe := a\<rparr>) = honest ft s" "honest ft (s\<lparr>rpipe_out := a\<rparr>) = honest ft s"
  "honest ft (s\<lparr>rpipe_err := a\<rparr>) = honest ft s" "honest ft (s\<lparr>ps_error := e\<rparr>) = honest ft s"
  by (simp_all add: honest_def)

lemma ps_close_honest:
  assumes "ps_close ft s w = Some (b, s', w')" "honest ft s"
  shows "honest ft s'"
proof -
  obtain x t v where "ps_exited ft s w = Some (x, t, v)" using assms(1)
    by (auto simp: ps_close_def Let_def split: option.split_asm)
  moreover from this have "honest ft t" using assms(2) ps_wait_honest [of ft True s w]
    by (auto simp: ps_exited_def split: if_split_asm)
  ultimately show ?thesis using assms(1)
    by (auto simp: ps_close_def Let_def split: prod.split_asm dest!: close_wait_honest)
qed

lemma ps_fork_honest:
  assumes "ps_fork C mode s ds = (pid, s', ds')" "\<And>pid. fork_result C = Inr pid \<Longrightarrow> 0 < pid"
    and "ppid s = -1" "ps_status s = -1"
  shows "ps_status s' = -1 \<and> ppid s' \<noteq> 0"
  using assms
  by (auto simp: ps_fork_def Let_def split: prod.split_asm if_split_asm sum.split_asm)

lemma ps_open_honest:
  assumes "ps_open C argv mode pstreambuf_new w = Some (b, s', w')" "\<And>pid. fork_result C = Inr pid \<Longrightarrow> 0 < pid"
  shows "honest (fate C argv) s'"
proof -
  have new: "ppid pstreambuf_new = -1" "ps_status pstreambuf_new = -1" by (simp_all add: pstreambuf_new_def)
  have forked: "honest ft s" if "ps_fork C mode pstreambuf_new ds = (pid, s, ds')" for ft ds pid s ds'
    using ps_fork_honest [OF that assms(2) new] by (simp add: honest_def)
  have waited: "honest ft t" if "ps_fork C mode pstreambuf_new ds = (pid, s, ds')"
    "ps_wait ft False (s\<lparr>ps_error := e\<rparr>) v = Some (r, t, v')" for ft ds pid s ds' e r t v v'
    using ps_wait_honest [OF that(2)] forked [OF that(1)] by simp
  have "honest ft pstreambuf_new" for ft using new by (simp add: honest_def)
  then show ?thesis using assms(1) new
    by (auto simp: ps_open_def ps_is_open_def Let_def split: sum.split_asm option.split_asm prod.split_asm
        if_split_asm child_fate.split_asm intro: forked waited)
qed

text \<open>The child is reaped after calls that found it running or were interrupted.\<close>

fun reaps :: "wait_result list \<Rightarrow> bool" where
  "reaps [] = False"
| "reaps (r # rs) = (r = Gone \<or> (r = Pending \<or> r = WaitFails EINTR) \<and> reaps rs)"

lemma waitpid_reaps:
  "reaps rs \<Longrightarrow> \<exists>r rs'. waitpid nohang rs = Some (r, rs') \<and>
     (r = Gone \<or> (r = Pending \<and> nohang \<or> r = WaitFails EINTR) \<and> reaps rs')"
  by (induction rs) auto

text \<open>A stream without a pipe to the child, and the descriptors its end leaves.\<close>

definition reading :: "pstreambuf \<Rightarrow> int \<Rightarrow> bool" where
  "reading s fd \<longleftrightarrow> ppid s > 0 \<and> wpipe s = -1 \<and> rpipe_err s = -1 \<and> rpipe_out s = fd"

definition reaped :: "child_fate \<Rightarrow> pstreambuf \<Rightarrow> int \<Rightarrow> bool" where
  "reaped ft s fd \<longleftrightarrow> ppid s = 0 \<and> ps_status s = exit_status ft \<and> wpipe s = -1 \<and> rpipe_err s = -1 \<and> rpipe_out s = fd"

lemma ps_wait_cases:
  assumes "reading s fd" "reaps (waits w)"
  obtains (gone) t v where "ps_wait ft nohang s w = Some (1, t, v)" "reaped ft t fd" "fds v = fds w"
    | (running) t v where "ps_wait ft nohang s w = Some (0, t, v)" nohang "reading t fd" "fds v = fds w" "reaps (waits v)"
    | (interrupted) t v where "ps_wait ft nohang s w = Some (-1, t, v)" "ps_error t = EINTR" "reading t fd"
        "fds v = fds w" "reaps (waits v)"
proof -
  obtain r rs where r: "waitpid nohang (waits w) = Some (r, rs)"
    "r = Gone \<or> (r = Pending \<and> nohang \<or> r = WaitFails EINTR) \<and> reaps rs"
    using waitpid_reaps [OF assms(2)] by blast
  have o: "ps_is_open s" using assms(1) by (simp add: reading_def ps_is_open_def)
  from r(2) consider "r = Gone" | "r = Pending" nohang "reaps rs" | "r = WaitFails EINTR" "reaps rs" by blast
  then show thesis
  proof cases
    case 1
    then show thesis using r(1) o assms(1)
      by (intro gone [of "s\<lparr>ppid := 0, ps_status := exit_status ft, wpipe := -1\<rparr>" "w\<lparr>fds := fds w, waits := rs\<rparr>"])
         (auto simp: ps_wait_def reading_def reaped_def close_fd_def)
  next
    case 2
    then show thesis using r(1) o assms(1)
      by (intro running [of s "w\<lparr>waits := rs\<rparr>"]) (auto simp: ps_wait_def reading_def)
  next
    case 3
    then show thesis using r(1) o assms(1)
      by (intro interrupted [of "s\<lparr>ps_error := EINTR\<rparr>" "w\<lparr>waits := rs\<rparr>"]) (auto simp: ps_wait_def reading_def)
  qed
qed

text \<open>The child is reaped already, or will be.\<close>

definition attached :: "child_fate \<Rightarrow> pstreambuf \<Rightarrow> int \<Rightarrow> ps_world \<Rightarrow> bool" where
  "attached ft s fd w \<longleftrightarrow> reaped ft s fd \<or> reading s fd \<and> reaps (waits w)"

lemma attached_frame:
  "attached ft s fd w \<Longrightarrow> attached ft (s\<lparr>ps_error := e\<rparr>) fd w"
  "attached ft s fd w \<Longrightarrow> attached ft s fd (w\<lparr>fds := ds\<rparr>)"
  "attached ft s fd w \<Longrightarrow> attached ft (s\<lparr>wpipe := -1, rpipe_out := fd', rpipe_err := -1\<rparr>) fd' w"
  by (auto simp: attached_def reaped_def reading_def)

lemma ps_wait_attached:
  assumes "attached ft s fd w"
  shows "\<exists>r t v. ps_wait ft nohang s w = Some (r, t, v) \<and> attached ft t fd v \<and> fds v = fds w"
proof (cases "reading s fd \<and> reaps (waits w)")
  case True
  show ?thesis
    by (cases rule: ps_wait_cases [OF conjunct1 [OF True] conjunct2 [OF True], of ft nohang]) (auto simp: attached_def)
next
  case False
  then show ?thesis using assms by (auto simp: attached_def reaped_def ps_wait_def ps_is_open_def)
qed

lemma close_wait_attached:
  "attached ft s fd w \<Longrightarrow> \<exists>t v. close_wait ft s w = Some (t, v) \<and> reaped ft t fd \<and> fds v = fds w"
proof (induction ft s w rule: close_wait.induct)
  case (1 ft s w)
  have a: "attached ft (s\<lparr>ps_error := 0\<rparr>) fd w" by (rule attached_frame(1) [OF "1.prems"])
  show ?case
  proof (cases "reading (s\<lparr>ps_error := 0\<rparr>) fd \<and> reaps (waits w)")
    case False
    then have "reaped ft (s\<lparr>ps_error := 0\<rparr>) fd" using a unfolding attached_def by blast
    then show ?thesis
      by (subst close_wait.simps) (auto simp: ps_wait_def reaped_def ps_is_open_def EINTR_def)
  next
    case True
    from conjunct1 [OF True] conjunct2 [OF True] show ?thesis
    proof (cases rule: ps_wait_cases [where ft = ft and nohang = False])
      case (gone t v)
      then show ?thesis by (subst close_wait.simps) simp
    next
      case (interrupted t v)
      then obtain t' v' where "close_wait ft t v = Some (t', v')" "reaped ft t' fd" "fds v' = fds v"
        using "1.IH" [OF interrupted(1) refl refl] by (auto simp: attached_def)
      then show ?thesis using interrupted by (subst close_wait.simps) simp
    qed simp_all
  qed
qed

lemma ps_close_attached:
  assumes "attached ft s fd w"
  shows "\<exists>b t v. ps_close ft s w = Some (b, t, v) \<and> ps_status t = exit_status ft \<and> fds v = snd (close_fd fd (fds w))"
proof -
  obtain b t v where e: "ps_exited ft s w = Some (b, t, v)" "attached ft t fd v" "fds v = fds w"
  proof (cases "ppid s = 0")
    case True
    then show ?thesis using that [of True s w] assms by (simp add: ps_exited_def)
  next
    case False
    obtain r t v where "ps_wait ft True s w = Some (r, t, v)" "attached ft t fd v" "fds v = fds w"
      using ps_wait_attached [OF assms, of True] by blast
    then show ?thesis using that [of "r = 1" t v] False by (simp add: ps_exited_def)
  qed
  then have t: "wpipe t = -1" "rpipe_err t = -1" "rpipe_out t = fd"
    by (auto simp: attached_def reaped_def reading_def)
  let ?fd = "close_fd fd (fds w)"
  from close_wait_attached [OF attached_frame(2) [OF attached_frame(3) [OF e(2)]], of "fst ?fd" "snd ?fd"]
  obtain t' v' where
    "close_wait ft (t\<lparr>wpipe := -1, rpipe_out := fst ?fd, rpipe_err := -1\<rparr>) (v\<lparr>fds := snd ?fd\<rparr>) = Some (t', v')"
    "reaped ft t' (fst ?fd)" "fds v' = snd ?fd" by auto
  then show ?thesis using e t
    by (auto simp: ps_close_def close_fd_def [of "-1"] reaped_def Let_def split: prod.split)
qed

section \<open>What the module answers\<close>

text \<open>Calls that succeed, with new descriptors for the two pipes.\<close>

definition calls_succeed :: "process_calls \<Rightarrow> ps_world \<Rightarrow> bool" where
  "calls_succeed C w \<longleftrightarrow>
     (case (ck_pipe C, pipe_out C, fork_result C) of
        (Inr (a, b), Inr (c, d), Inr pid) \<Rightarrow>
          distinct [a, b, c, d] \<and> (\<forall>fd \<in> set [a, b, c, d]. 0 \<le> fd \<and> fd \<notin> set (fds w)) \<and> 0 < pid
      | _ \<Rightarrow> False) \<and> ck_fcntl C = None \<and> exec_read_fails C = None"

definition only_stdout :: pmode where
  "only_stdout = \<lparr>pstdin = False, pstdout = True, pstderr = False\<rparr>"

lemma ps_open_attached:
  assumes "calls_succeed C w" "reaps (waits w)"
  shows "\<exists>s v fd. ps_open C argv only_stdout pstreambuf_new w =
      Some (case fate C argv of ExecFails e \<Rightarrow> False | _ \<Rightarrow> True, s, v) \<and>
      attached (fate C argv) s fd v \<and> snd (close_fd fd (fds v)) = fds w"
proof -
  obtain a b where ab: "ck_pipe C = Inr (a, b)" using assms(1) by (cases "ck_pipe C") (auto simp: calls_succeed_def)
  obtain c d where cd: "pipe_out C = Inr (c, d)"
    using assms(1) ab by (cases "pipe_out C") (auto simp: calls_succeed_def)
  obtain pid where pid: "fork_result C = Inr pid"
    using assms(1) ab cd by (cases "fork_result C") (auto simp: calls_succeed_def)
  note ok = assms(1) [unfolded calls_succeed_def ab cd pid, simplified]
  have C: "ck_pipe C = Inr (a, b)" "pipe_out C = Inr (c, d)" "fork_result C = Inr pid"
    "distinct [a, b, c, d]" "0 \<le> c" "0 < pid" "ck_fcntl C = None" "exec_read_fails C = None"
    using ab cd pid ok by simp_all
  define s where "s = pstreambuf_new\<lparr>ppid := pid, rpipe_out := c\<rparr>"
  have "c \<noteq> d" using C(4) by simp
  then have f: "ps_fork C only_stdout pstreambuf_new (a # b # fds w) = (pid, s, c # a # b # fds w)"
    using C(2,3,5) by (simp add: ps_fork_def mode_pipe_def only_stdout_def pstreambuf_new_def s_def Let_def)
  have r: "attached ft (s\<lparr>ps_error := e\<rparr>) c (w\<lparr>fds := ds\<rparr>)" "attached ft s c (w\<lparr>fds := ds\<rparr>)" for ft e ds
    using C(6) assms(2) by (auto simp: attached_def reading_def s_def pstreambuf_new_def)
  define ds where "ds = remove1 b (c # a # b # fds w)"
  have ds: "remove1 a ds = c # fds w" using C(4) by (auto simp: ds_def)
  have n: "\<not> ps_is_open pstreambuf_new" by (simp add: ps_is_open_def pstreambuf_new_def)
  have c: "snd (close_fd c (c # fds w)) = fds w" using C(5) by (simp add: close_fd_def)
  have o: "ps_open C argv only_stdout pstreambuf_new w =
     map_option (\<lambda>(opened, s, w). (opened, s, w\<lparr>fds := remove1 a (fds w)\<rparr>))
       (case fate C argv of
          ExecFails e \<Rightarrow> map_option (\<lambda>(r, s, w). (False, s, w))
            (ps_wait (fate C argv) False (s\<lparr>ps_error := e\<rparr>) (w\<lparr>fds := ds\<rparr>))
        | _ \<Rightarrow> Some (True, s, w\<lparr>fds := ds\<rparr>))"
    unfolding ds_def using n C(1,6,7,8) f by (simp add: ps_open_def Let_def)
  show ?thesis
  proof (cases "fate C argv")
    case (ExecFails e)
    obtain x t v where x: "ps_wait (ExecFails e) False (s\<lparr>ps_error := e\<rparr>) (w\<lparr>fds := ds\<rparr>) = Some (x, t, v)"
      "attached (ExecFails e) t c v" "fds v = ds"
      using ps_wait_attached [OF r(1)] by fastforce
    then show ?thesis unfolding o ExecFails using attached_frame(2) [OF x(2)] ds c
      by (intro exI [of _ t] exI [of _ "v\<lparr>fds := remove1 a (fds v)\<rparr>"] exI [of _ c]) simp
  next
    case (Exits e)
    then show ?thesis unfolding o using r(2) ds c
      by (intro exI [of _ s] exI [of _ "w\<lparr>fds := remove1 a ds\<rparr>"] exI [of _ c]) simp
  next
    case (Killed e b)
    then show ?thesis unfolding o using r(2) ds c
      by (intro exI [of _ s] exI [of _ "w\<lparr>fds := remove1 a ds\<rparr>"] exI [of _ c]) simp
  qed
qed

lemma getlines_acc: "CHR 0x0A \<notin> set m \<Longrightarrow> getlines acc (m @ CHR 0x0A # cs) = (acc @ m) # getlines [] cs"
  by (induction m arbitrary: acc) auto

lemma getlines_lines:
  "(\<And>m. m \<in> set ms \<Longrightarrow> CHR 0x0A \<notin> set m) \<Longrightarrow> getlines [] (concat (map (\<lambda>m. m @ [CHR 0x0A]) ms)) = ms"
  by (induction ms) (simp_all add: getlines_acc)

text \<open>The answer for each ending of the helper.\<close>

definition pam_answer :: "child_fate \<Rightarrow> pam_code" where
  "pam_answer ft =
     (case ft of Exits c \<Rightarrow> if c mod 256 = 0 then PAM_SUCCESS else PAM_IGNORE
      | Killed sig core \<Rightarrow> if sig = 1 \<and> \<not> core then PAM_AUTH_ERR else PAM_IGNORE
      | ExecFails e \<Rightarrow> PAM_IGNORE)"

lemma exit_status_answer:
  "fate_ok ft \<Longrightarrow> (if exit_status ft = 0 then PAM_SUCCESS else if exit_status ft = 1 then PAM_AUTH_ERR else PAM_IGNORE)
     = pam_answer ft"
proof (cases ft)
  case (Exits c)
  have "c mod 256 * 256 \<noteq> 1" by presburger
  then show ?thesis using Exits by (simp add: pam_answer_def)
qed (auto simp: pam_answer_def)

lemma PAM_items:
  assumes "pam_sm_authenticate p C pamh w = Some (Inr (code, shown, w'))" "code \<noteq> PAM_IGNORE"
  obtains userName serviceName where
    "user_item pamh = (PAM_SUCCESS, Some userName)" "service_item pamh = (PAM_SUCCESS, Some serviceName)"
    "fst (conv_item pamh) = PAM_SUCCESS"
  using assms
  by (cases "service_item pamh"; cases "user_item pamh")
     (auto simp: pam_sm_authenticate_def Let_def split: if_split_asm option.split_asm)

text \<open>
  Whatever the system calls return: the module grants access only if the helper was started
  for the user and the service of the transaction and ended by itself with an exit code
  whose low byte is 0.
\<close>

lemma pam_success_exit:
  assumes "pam_sm_authenticate p C pamh w = Some (Inr (PAM_SUCCESS, shown, w'))"
    and "\<And>pid. fork_result C = Inr pid \<Longrightarrow> 0 < pid" "\<And>argv. fate_ok (fate C argv)"
  shows "\<exists>userName serviceName code. user_item pamh = (PAM_SUCCESS, Some userName) \<and>
     service_item pamh = (PAM_SUCCESS, Some serviceName) \<and>
     fate C [PCBU_AUTH_PATH p, userName, serviceName] = Exits code \<and> code mod 256 = 0"
proof -
  obtain u s where i: "user_item pamh = (PAM_SUCCESS, Some u)" "service_item pamh = (PAM_SUCCESS, Some s)"
    "fst (conv_item pamh) = PAM_SUCCESS"
    using PAM_items [OF assms(1)] by auto
  let ?argv = "[PCBU_AUTH_PATH p, u, s]"
  obtain b q v b' q' where q: "ps_open C ?argv only_stdout pstreambuf_new w = Some (b, q, v)"
    "ps_close (fate C ?argv) q v = Some (b', q', w')" "ps_status q' = 0"
    using assms(1) i
    by (auto simp: pam_sm_authenticate_def only_stdout_def Let_def split: option.split_asm prod.split_asm if_split_asm)
  have "honest (fate C ?argv) q'"
    using ps_close_honest [OF q(2)] ps_open_honest [OF q(1) assms(2)] by blast
  then have "exit_status (fate C ?argv) = 0" using q(3) by (auto simp: honest_def split: if_split_asm)
  then obtain code where "fate C ?argv = Exits code" "code mod 256 = 0"
    using assms(3) [of ?argv] by (cases "fate C ?argv") (auto split: if_split_asm)
  with i show ?thesis by auto
qed

lemma answer_by_fate:
  assumes "service_item pamh = (PAM_SUCCESS, Some s)" "user_item pamh = (PAM_SUCCESS, Some u)"
    and "conv_item pamh = (PAM_SUCCESS, True)"
    and "calls_succeed C w" "reaps (waits w)" "fate_ok (fate C [PCBU_AUTH_PATH p, u, s])"
    and "child_output C [PCBU_AUTH_PATH p, u, s] = concat (map (\<lambda>m. m @ [CHR 0x0A]) ms)"
    and "\<And>m. m \<in> set ms \<Longrightarrow> CHR 0x0A \<notin> set m \<and> CHR 0x00 \<notin> set m"
  shows "\<exists>w'. pam_sm_authenticate p C pamh w =
       Some (Inr (pam_answer (fate C [PCBU_AUTH_PATH p, u, s]),
                  case fate C [PCBU_AUTH_PATH p, u, s] of ExecFails e \<Rightarrow> [] | _ \<Rightarrow> ms, w')) \<and> fds w' = fds w"
proof -
  let ?argv = "[PCBU_AUTH_PATH p, u, s]"
  obtain q v fd where o: "ps_open C ?argv only_stdout pstreambuf_new w =
      Some (case fate C ?argv of ExecFails e \<Rightarrow> False | _ \<Rightarrow> True, q, v)"
    "attached (fate C ?argv) q fd v" "snd (close_fd fd (fds v)) = fds w"
    using ps_open_attached [OF assms(4,5)] by blast
  obtain b t w' where c: "ps_close (fate C ?argv) q v = Some (b, t, w')"
    "ps_status t = exit_status (fate C ?argv)" "fds w' = fds w"
    using ps_close_attached [OF o(2)] o(3) by auto
  have "getlines [] (child_output C ?argv) = ms" using getlines_lines [of ms] assms(7,8) by simp
  moreover have "map c_str ms = ms" using assms(8) by (intro map_idI c_str_id) blast
  ultimately have "concat (map (\<lambda>line. snd (print_pam True line)) (getlines [] (child_output C ?argv))) = ms"
    by (simp add: print_pam_def)
  then show ?thesis
    using assms(1,2,3) o(1) c exit_status_answer [OF assms(6)]
    by (auto simp: pam_sm_authenticate_def only_stdout_def Let_def split: child_fate.split)
qed

text \<open>
  C7: When the system calls succeed and the helper is reaped in the end, the answer depends on
  how the helper ended alone: exit code 0 (modulo 256) grants access, every other exit code,
  also the 1 with which \<^verbatim>\<open>pcbu_auth\<close> reports a wrong password, makes the module step aside, and
  \<^verbatim>\<open>PAM_AUTH_ERR\<close> is returned only for a helper killed by signal 1. The user is shown the lines
  the helper printed, and every descriptor opened is closed again.
\<close>

theorem pam_answers:
  assumes "service_item pamh = (PAM_SUCCESS, Some s)" "user_item pamh = (PAM_SUCCESS, Some u)"
    and "conv_item pamh = (PAM_SUCCESS, True)"
    and "calls_succeed C w" "reaps (waits w)" "fate_ok (fate C [PCBU_AUTH_PATH p, u, s])"
    and "child_output C [PCBU_AUTH_PATH p, u, s] = concat (map (\<lambda>m. m @ [CHR 0x0A]) ms)"
    and "\<And>m. m \<in> set ms \<Longrightarrow> CHR 0x0A \<notin> set m \<and> CHR 0x00 \<notin> set m"
  shows "\<exists>w'. pam_sm_authenticate p C pamh w =
       Some (Inr (pam_answer (fate C [PCBU_AUTH_PATH p, u, s]),
                  case fate C [PCBU_AUTH_PATH p, u, s] of ExecFails e \<Rightarrow> [] | _ \<Rightarrow> ms, w')) \<and> fds w' = fds w"
  using answer_by_fate [OF assms] .

text \<open>The helper refuses the password: the module does not deny access, it is ignored.\<close>

definition demo_calls :: process_calls where
  "demo_calls = \<lparr>ck_pipe = Inr (10, 11), ck_fcntl = None, pipe_in = Inl 24, pipe_out = Inr (12, 13), pipe_err = Inl 24,
                 fork_result = Inr 4711, exec_read_fails = None, fate = (\<lambda>_. Exits 1),
                 child_output = (\<lambda>_. ''Wrong password.'' @ [CHR 0x0A])\<rparr>"

definition demo_pam :: pam_handle where
  "demo_pam = \<lparr>service_item = (PAM_SUCCESS, Some ''sudo''), user_item = (PAM_SUCCESS, Some ''alice''),
               conv_item = (PAM_SUCCESS, True)\<rparr>"

theorem pam_answers_witness:
  "\<exists>w'. pam_sm_authenticate Linux demo_calls demo_pam \<lparr>fds = [0, 1, 2], waits = [Pending, WaitFails EINTR, Gone]\<rparr> =
     Some (Inr (PAM_IGNORE, [''Wrong password.''], w')) \<and> fds w' = [0, 1, 2]"
proof -
  let ?w = "\<lparr>fds = [0, 1, 2], waits = [Pending, WaitFails EINTR, Gone]\<rparr>"
  have c: "calls_succeed demo_calls ?w" "reaps (waits ?w)"
    "fate_ok (fate demo_calls [PCBU_AUTH_PATH Linux, ''alice'', ''sudo''])"
    "child_output demo_calls [PCBU_AUTH_PATH Linux, ''alice'', ''sudo''] = concat (map (\<lambda>m. m @ [CHR 0x0A]) [''Wrong password.''])"
    by (simp_all add: calls_succeed_def demo_calls_def)
  have i: "service_item demo_pam = (PAM_SUCCESS, Some ''sudo'')" "user_item demo_pam = (PAM_SUCCESS, Some ''alice'')"
    "conv_item demo_pam = (PAM_SUCCESS, True)" by (simp_all add: demo_pam_def)
  from pam_answers [OF i c] show ?thesis by (simp add: demo_calls_def pam_answer_def)
qed

end
