(* ===== verification/PcbuAuth.thy ===== *)
theory PcbuAuth
  imports UnlockSession PamModule
begin

text \<open>
  The helper \<^verbatim>\<open>pam-pcbiounlock/pcbu-auth/src/main.cpp\<close>: it runs an unlock attempt for the user
  and compares the password the phone sent with the user's account. The accounts of the system
  and \<^verbatim>\<open>crypt\<close> are parameters. At the end the helper and the PAM module are put together.
\<close>

section \<open>The password check\<close>

text \<open>
  \<open>getpwnam\<close> and \<open>getspnam\<close> give the password field of an entry, \<open>crypt\<close> a hash or a null
  pointer. On Apple, \<open>identities\<close> is the number of identities found for a name and
  \<open>identity_accepts\<close> the answer of \<^verbatim>\<open>CSIdentityAuthenticateUsingPassword\<close>.
\<close>

record accounts =
  getpwnam :: "string \<Rightarrow> string option"
  getspnam :: "string \<Rightarrow> string option"
  crypt :: "string \<Rightarrow> string \<Rightarrow> string option"
  identities :: "string \<Rightarrow> nat"
  identity_accepts :: "string \<Rightarrow> string \<Rightarrow> bool"

text \<open>\<^verbatim>\<open>strcmp(stored, crypt(password, stored)) == 0\<close>.\<close>

definition hash_matches :: "accounts \<Rightarrow> string \<Rightarrow> string \<Rightarrow> fault + bool" where
  "hash_matches A passw stored =
     (case crypt A passw stored of None \<Rightarrow> Inl NullDeref | Some hash \<Rightarrow> Inr (stored = hash))"

definition CheckPassword :: "platform \<Rightarrow> accounts \<Rightarrow> string \<Rightarrow> string \<Rightarrow> fault + bool" where
  "CheckPassword p A user passw =
     (if p = Apple then Inr (identities A user = 1 \<and> identity_accepts A user passw)
      else
        (case getpwnam A user of
           None \<Rightarrow> Inr False
         | Some pw_passwd \<Rightarrow>
             if pw_passwd \<noteq> ''x'' then hash_matches A passw pw_passwd
             else (case getspnam A user of None \<Rightarrow> Inr False | Some sp_pwdp \<Rightarrow> hash_matches A passw sp_pwdp)))"

section \<open>The program\<close>

text \<open>\<^verbatim>\<open>printf("%s\n", s.c_str())\<close>.\<close>

definition put_line :: "string \<Rightarrow> string" where
  "put_line s = c_str s @ [CHR 0x0A]"

text \<open>
  \<open>attempt\<close> is \<^verbatim>\<open>UnlockHandler::GetResult\<close>: the messages it hands to the callback and its
  result. The value is the exit code and the text written to the standard output.
\<close>

definition auth_main ::
  "sysenv \<Rightarrow> accounts \<Rightarrow> int \<Rightarrow> string list \<Rightarrow> (string \<Rightarrow> string \<Rightarrow> string list \<times> UnlockResult) \<Rightarrow> fault + int \<times> string" where
  "auth_main E A setuid_result argv attempt =
     (if setuid_result \<noteq> 0 then Inr (-1, ''setuid(0) failed.'' @ [CHR 0x0A])
      else if length argv \<noteq> 3 then Inr (-1, ''Invalid parameters.'' @ [CHR 0x0A])
      else
        let authUser = argv ! 1; serviceName = argv ! 2;
            (msgs, result) = attempt authUser serviceName;
            out = concat (map put_line msgs);
            refused = Inr (1, out @ put_line (message E ''error_password'' []))
        in if result_state result = SUCCESS then
             if authUser = c_str (userName (result_device result)) then
               bind_err (CheckPassword (os E) A authUser (c_str (result_password result)))
                 (\<lambda>ok. if ok then Inr (0, out) else refused)
             else refused
           else if result_state result = CANCELED then Inr (1, out)
           else if result_state result = TIMEOUT \<or> result_state result = CONNECT_ERROR then Inr (-1, out)
           else Inr (1, out))"

section \<open>Lemmas\<close>

text \<open>The low byte of the exit code is zero on one path alone.\<close>

lemma auth_main_grants:
  assumes "auth_main E A sr argv attempt = Inr (exit_code, out)"
  shows "exit_code mod 256 = 0 \<longleftrightarrow> sr = 0 \<and> length argv = 3 \<and>
    (let r = snd (attempt (argv ! 1) (argv ! 2)) in result_state r = SUCCESS \<and> argv ! 1 = c_str (userName (result_device r)) \<and>
      CheckPassword (os E) A (argv ! 1) (c_str (result_password r)) = Inr True)"
proof -
  obtain msgs r where a: "attempt (argv ! 1) (argv ! 2) = (msgs, r)" by force
  show ?thesis
    using assms a
    by (cases "CheckPassword (os E) A (argv ! 1) (c_str (result_password r))")
       (auto simp: auth_main_def Let_def split: if_split_asm)
qed

section \<open>Login\<close>

text \<open>
  \<^verbatim>\<open>UnlockHandler::GetResult\<close> as a whole: the results it can have, over all random tokens,
  connections and interleavings.
\<close>

definition GetResult_gives :: "'x host \<Rightarrow> sysenv \<Rightarrow> string \<Rightarrow> string \<Rightarrow> UnlockResult \<Rightarrow> bool" where
  "GetResult_gives H E authUser authProgram r \<longleftrightarrow>
     (\<exists>e draws. case snd (GetResult_servers E e draws authUser authProgram) of
        Inl r0 \<Rightarrow> r = r0
      | Inr servers \<Rightarrow>
          \<exists>st. reachable (length servers) st \<and> caller st = Finished r \<and>
            (\<forall>i x. i < length servers \<longrightarrow> worker_result (workers st ! i) = Some x \<longrightarrow> worker_ran H E (servers ! i) x))"

lemma GetResult_gives_success:
  assumes "GetResult_gives H E u program r" "openssl_ok H" "result_state r = SUCCESS"
  shows "result_device r \<in> set (GetDevicesForUser (json E) (devices_file E) u) \<and> userName (result_device r) = u \<and>
    (\<exists>s. m_PairedDevice (base_of s) = result_device r \<and> genuine H (json E) (base_of s) (result_password r))"
proof -
  obtain e draws where g: "case snd (GetResult_servers E e draws u program) of Inl r0 \<Rightarrow> r = r0 | Inr servers \<Rightarrow>
       \<exists>st. reachable (length servers) st \<and> caller st = Finished r \<and>
         (\<forall>i x. i < length servers \<longrightarrow> worker_result (workers st ! i) = Some x \<longrightarrow> worker_ran H E (servers ! i) x)"
    using assms(1) unfolding GetResult_gives_def by blast
  show ?thesis
  proof (cases "snd (GetResult_servers E e draws u program)")
    case (Inl r0)
    then have "r = UnlockResult_new NOT_PAIRED_ERROR"
      using g by (auto simp: GetResult_servers_def Let_def split: if_split_asm)
    then show ?thesis using assms(3) by (simp add: UnlockResult_new_def)
  next
    case (Inr servers)
    with g obtain st where st: "reachable (length servers) st" "caller st = Finished r"
      "\<And>i x. i < length servers \<Longrightarrow> worker_result (workers st ! i) = Some x \<Longrightarrow> worker_ran H E (servers ! i) x" by auto
    have s: "GetResult_servers E e draws u program = (fst (GetResult_servers E e draws u program), Inr servers)"
      using Inr by (metis prod.collapse)
    show ?thesis using paired_phone [OF assms(2) s st(1,2) assms(3) st(3)] by blast
  qed
qed

text \<open>
  The program the module starts is the helper, run on the results an attempt can have; without
  the rights it asks for, it makes no attempt.
\<close>

definition runs_helper :: "'x host \<Rightarrow> sysenv \<Rightarrow> accounts \<Rightarrow> platform \<Rightarrow> process_calls \<Rightarrow> bool" where
  "runs_helper H E A p C \<longleftrightarrow>
     (\<forall>u program exit_code. fate C [PCBU_AUTH_PATH p, u, program] = Exits exit_code \<longrightarrow>
        (\<exists>sr attempt out. auth_main E A sr [PCBU_AUTH_PATH p, u, program] attempt = Inr (exit_code, out) \<and>
           (sr = 0 \<longrightarrow> GetResult_gives H E u program (snd (attempt u program)))))"


text \<open>The session of the previous theory, with an account that accepts the password.\<close>

definition demo_accounts :: accounts where
  "demo_accounts = \<lparr>getpwnam = (\<lambda>_. Some ''x''), getspnam = (\<lambda>_. Some ''hash''), crypt = (\<lambda>_ h. Some h),
                    identities = (\<lambda>_. 1), identity_accepts = (\<lambda>_ _. True)\<rparr>"


end
