(* ===== verification/PStreamIO.thy ===== *)
theory PStreamIO
  imports PamModule
begin

text \<open>
  The character buffers of \<^verbatim>\<open>pam-pcbiounlock/src/deps/pstream.h\<close>: how the text a child prints
  comes through a pipe, in pieces of any size, into a buffer of 32 characters and out of it line
  by line, and how text to a child goes the other way. Pointers are positions in their
  buffer; the null pointers of \<^verbatim>\<open>setg(NULL, NULL, NULL)\<close> are 0, since only differences and
  the order of the pointers are used then.
\<close>

section \<open>Memory and pipes\<close>

definition bufsz :: nat where "bufsz = 32"

definition pbsz :: nat where "pbsz = 2"

definition char_store :: "string \<Rightarrow> nat \<Rightarrow> string \<Rightarrow> fault + string" where
  "char_store mem off s = (if off + length s \<le> length mem then Inr (take off mem @ s @ drop (off + length s) mem) else Inl BufferOverflow)"

definition char_move :: "string \<Rightarrow> nat \<Rightarrow> nat \<Rightarrow> nat \<Rightarrow> fault + string" where
  "char_move mem to_pos from_pos n =
     (if from_pos + n \<le> length mem then char_store mem to_pos (take n (drop from_pos mem)) else Inl BufferOverflow)"

text \<open>
  What the calls of \<^verbatim>\<open>read\<close> on the pipe find: a piece of the text (an empty one is the end), or an
  error, which is \<^verbatim>\<open>EAGAIN\<close> or not. A call takes no more than it asked for.
\<close>

datatype read_event = Chunk string | ReadError bool

fun ps_read :: "nat \<Rightarrow> read_event list \<Rightarrow> (int \<times> string \<times> bool) \<times> read_event list" where
  "ps_read n [] = ((0, [], False), [])"
| "ps_read n (ReadError again # es) = ((-1, [], again), es)"
| "ps_read n (Chunk c # es) =
     (if length c \<le> n then ((int (length c), c, False), es) else ((int n, take n c, False), Chunk (drop n c) # es))"

section \<open>Reading\<close>

record rstream =
  rbuf :: string
  eback :: nat
  gptr :: nat
  egptr :: nat
  source :: "read_event list"

definition create_rbuffer :: "string \<Rightarrow> read_event list \<Rightarrow> rstream" where
  "create_rbuffer fresh es = \<lparr>rbuf = fresh, eback = pbsz, gptr = pbsz, egptr = pbsz, source = es\<rparr>"

text \<open>\<open>flags_ok\<close>: \<^verbatim>\<open>fcntl\<close> could read the flags of the pipe.\<close>

definition fill_buffer :: "bool \<Rightarrow> bool \<Rightarrow> rstream \<Rightarrow> fault + bool \<times> rstream" where
  "fill_buffer flags_ok non_blocking s =
     (let npb = min (gptr s - eback s) pbsz in
      bind_err (if npb \<noteq> 0 then char_move (rbuf s) (pbsz - npb) (gptr s - npb) npb else Inr (rbuf s)) (\<lambda>mem.
      let ((rc, piece, again), es) = (if non_blocking \<and> \<not> flags_ok then ((-1, [], False), source s) else ps_read (bufsz - pbsz) (source s));
          rc = (if non_blocking then if rc = -1 \<and> again then 0 else if rc = 0 then -1 else rc else rc)
      in bind_err (char_store mem pbsz piece) (\<lambda>mem.
         if rc > 0 \<or> rc = 0 \<and> non_blocking
         then Inr (True, \<lparr>rbuf = mem, eback = pbsz - npb, gptr = pbsz, egptr = pbsz + nat rc, source = es\<rparr>)
         else Inr (False, \<lparr>rbuf = mem, eback = 0, gptr = 0, egptr = 0, source = es\<rparr>))))"

definition underflow :: "rstream \<Rightarrow> fault + char option \<times> rstream" where
  "underflow s =
     bind_err (if gptr s < egptr s then Inr (True, s) else fill_buffer True False s) (\<lambda>(ok, s).
       if \<not> ok then Inr (None, s)
       else if gptr s < length (rbuf s) then Inr (Some (rbuf s ! gptr s), s) else Inl OutOfRange)"

definition pbackfail :: "char option \<Rightarrow> rstream \<Rightarrow> fault + bool \<times> rstream" where
  "pbackfail c s =
     (if gptr s \<noteq> eback s then
        (let s = s\<lparr>gptr := gptr s - 1\<rparr> in
         case c of
           None \<Rightarrow> Inr (True, s)
         | Some c \<Rightarrow> bind_err (char_store (rbuf s) (gptr s) [c]) (\<lambda>mem. Inr (True, s\<lparr>rbuf := mem\<rparr>)))
      else Inr (False, s))"

definition showmanyc :: "bool \<Rightarrow> rstream \<Rightarrow> fault + int \<times> rstream" where
  "showmanyc flags_ok s =
     bind_err (fill_buffer flags_ok True s) (\<lambda>(ok, s). Inr (if ok then int (egptr s - gptr s) else -1, s))"

text \<open>\<^verbatim>\<open>sbumpc\<close> takes the next character, which \<^verbatim>\<open>underflow\<close> provides.\<close>

definition sbumpc :: "rstream \<Rightarrow> fault + char option \<times> rstream" where
  "sbumpc s =
     bind_err (underflow s) (\<lambda>(c, s). case c of None \<Rightarrow> Inr (None, s) | Some c \<Rightarrow> Inr (Some c, s\<lparr>gptr := gptr s + 1\<rparr>))"

text \<open>A bound on the characters that can still be read.\<close>

fun event_size :: "read_event \<Rightarrow> nat" where
  "event_size (Chunk c) = length c"
| "event_size (ReadError _) = 0"

definition rs_size :: "rstream \<Rightarrow> nat" where
  "rs_size s = (egptr s - gptr s) + sum_list (map event_size (source s))"

lemma ps_read_size:
  "ps_read n es = ((rc, piece, again), es') \<Longrightarrow> 0 < rc \<Longrightarrow>
   nat rc + sum_list (map event_size es') = sum_list (map event_size es) \<and> nat rc = length piece"
  by (cases "(n, es)" rule: ps_read.cases) (auto split: if_splits)

lemma sbumpc_size:
  assumes "sbumpc s = Inr (Some c, s')"
  shows "rs_size s' < rs_size s"
proof (cases "gptr s < egptr s")
  case True
  then show ?thesis using assms by (auto simp: sbumpc_def underflow_def bind_err_def rs_size_def split: if_splits)
next
  case False
  then obtain t where f: "fill_buffer True False s = Inr (True, t)" and s': "s' = t\<lparr>gptr := gptr t + 1\<rparr>"
    using assms by (auto simp: sbumpc_def underflow_def bind_err_def split: if_splits sum.splits prod.splits)
  from f obtain rc piece again es where r: "ps_read (bufsz - pbsz) (source s) = ((rc, piece, again), es)" "0 < rc"
    and t: "gptr t = pbsz" "egptr t = pbsz + nat rc" "source t = es"
    by (auto simp: fill_buffer_def bind_err_def Let_def split: if_splits sum.splits prod.splits)
  moreover have "0 < nat rc" using r(2) by simp
  ultimately show ?thesis using ps_read_size [OF r] s' False by (auto simp: rs_size_def)
qed

section \<open>Lines\<close>

text \<open>
  \<^verbatim>\<open>std::getline\<close> on the buffer: the line, and whether the end was met. The loop of the PAM module
  goes on until a call at the end finds nothing.
\<close>

function next_line :: "string \<Rightarrow> rstream \<Rightarrow> fault + (string \<times> bool) \<times> rstream" where
  "next_line acc s =
     (case sbumpc s of
        Inl e \<Rightarrow> Inl e
      | Inr (None, s) \<Rightarrow> Inr ((acc, True), s)
      | Inr (Some c, s) \<Rightarrow> if c = CHR 0x0A then Inr ((acc, False), s) else next_line (acc @ [c]) s)"
  by pat_completeness auto
termination
  by (relation "measure (\<lambda>(_, s). rs_size s)") (auto dest: sbumpc_size)

declare next_line.simps [simp del]

lemma next_line_size: "next_line acc s = Inr ((l, False), s') \<Longrightarrow> rs_size s' < rs_size s"
proof (induction acc s rule: next_line.induct)
  case (1 acc s)
  obtain c t where b: "sbumpc s = Inr (Some c, t)"
    using "1.prems" by (subst (asm) next_line.simps) (auto split: sum.splits prod.splits option.splits)
  note d = sbumpc_size [OF b]
  show ?case
  proof (cases "c = CHR 0x0A")
    case True
    then show ?thesis using "1.prems" b d by (simp add: next_line.simps [of acc s])
  next
    case False
    then have "next_line (acc @ [c]) t = Inr ((l, False), s')" using "1.prems" b by (simp add: next_line.simps [of acc s])
    then show ?thesis using "1.IH" [OF b refl refl False] d by simp
  qed
qed

function read_lines :: "rstream \<Rightarrow> fault + string list" where
  "read_lines s =
     (case next_line [] s of
        Inl e \<Rightarrow> Inl e
      | Inr ((line, True), s) \<Rightarrow> Inr (if line = [] then [] else [line])
      | Inr ((line, False), s) \<Rightarrow> (case read_lines s of Inl e \<Rightarrow> Inl e | Inr ls \<Rightarrow> Inr (line # ls)))"
  by pat_completeness auto
termination
  by (relation "measure rs_size") (auto dest: next_line_size)

declare read_lines.simps [simp del]

section \<open>What is read\<close>

text \<open>The text a reader can still get: the rest of the buffer and the pipe up to the end or an error.\<close>

fun pipe_text :: "read_event list \<Rightarrow> string" where
  "pipe_text [] = []"
| "pipe_text (Chunk c # es) = (if c = [] then [] else c @ pipe_text es)"
| "pipe_text (ReadError _ # es) = []"

definition unread :: "rstream \<Rightarrow> string" where
  "unread s = take (egptr s - gptr s) (drop (gptr s) (rbuf s)) @ pipe_text (source s)"

definition rs_ok :: "rstream \<Rightarrow> bool" where
  "rs_ok s \<longleftrightarrow> length (rbuf s) = bufsz \<and> eback s \<le> gptr s \<and> gptr s \<le> egptr s \<and> egptr s \<le> bufsz"

lemmas sizes = bufsz_def pbsz_def

lemma create_rbuffer_ok: "length fresh = bufsz \<Longrightarrow> rs_ok (create_rbuffer fresh es) \<and> unread (create_rbuffer fresh es) = pipe_text es"
  by (simp add: create_rbuffer_def rs_ok_def unread_def sizes)

lemma ps_read_text:
  assumes "0 < n"
  obtains "pipe_text es = []" "\<exists>rc again es'. ps_read n es = ((rc, [], again), es') \<and> rc \<le> 0"
  | piece es' where "ps_read n es = ((int (length piece), piece, False), es')" "piece \<noteq> []" "length piece \<le> n"
      "pipe_text es = piece @ pipe_text es'"
proof (cases "(n, es)" rule: ps_read.cases)
  case (3 n' c es0)
  show ?thesis
  proof (cases "c = []")
    case True
    then show ?thesis using 3 by (intro that(1)) auto
  next
    case c: False
    show ?thesis
    proof (cases "length c \<le> n")
      case True
      then show ?thesis using 3 c that(2) [of c es0] by simp
    next
      case False
      then have "drop n c \<noteq> []" "take n c \<noteq> []" "length (take n c) = n" using assms by auto
      then show ?thesis using 3 c False that(2) [of "take n c" "Chunk (drop n c) # es0"] by simp
    qed
  qed
qed (use that(1) in auto)

lemma char_store_ok: "off + length s \<le> length mem \<Longrightarrow> char_store mem off s = Inr (take off mem @ s @ drop (off + length s) mem)"
  by (simp add: char_store_def)

text \<open>Up to two characters before the pointer are kept when the buffer is filled again.\<close>

lemma putback_move:
  assumes "rs_ok s" "npb = min (gptr s - eback s) pbsz"
  obtains mem where "(if npb \<noteq> 0 then char_move (rbuf s) (pbsz - npb) (gptr s - npb) npb else Inr (rbuf s)) = Inr mem"
    "length mem = bufsz" "take npb (drop (pbsz - npb) mem) = take npb (drop (gptr s - npb) (rbuf s))"
proof (cases "npb = 0")
  case True
  then show thesis using that [of "rbuf s"] assms(1) by (simp add: rs_ok_def)
next
  case False
  have l: "length (rbuf s) = bufsz" "gptr s \<le> bufsz" "npb \<le> pbsz" "npb \<le> gptr s"
    using assms by (auto simp: rs_ok_def)
  let ?src = "take npb (drop (gptr s - npb) (rbuf s))"
  have n: "length ?src = npb" using l by simp
  have "char_move (rbuf s) (pbsz - npb) (gptr s - npb) npb =
      Inr (take (pbsz - npb) (rbuf s) @ ?src @ drop pbsz (rbuf s))"
    using l n by (simp add: char_move_def char_store_def sizes)
  moreover have "take npb (drop (pbsz - npb) (take (pbsz - npb) (rbuf s) @ ?src @ drop pbsz (rbuf s))) = ?src"
    using l n by (simp add: sizes)
  ultimately show thesis using that False l n by (simp add: sizes)
qed

lemma fill_buffer_reads:
  assumes "rs_ok s" "gptr s = egptr s"
  shows "if unread s = [] then \<exists>t. fill_buffer True False s = Inr (False, t)
    else \<exists>t. fill_buffer True False s = Inr (True, t) \<and> rs_ok t \<and> unread t = unread s \<and> gptr t < egptr t"
proof -
  define npb where "npb = min (gptr s - eback s) pbsz"
  obtain mem where m: "(if npb \<noteq> 0 then char_move (rbuf s) (pbsz - npb) (gptr s - npb) npb else Inr (rbuf s)) = Inr mem"
    "length mem = bufsz" by (rule putback_move [OF assms(1) npb_def])
  have u: "unread s = pipe_text (source s)" using assms(2) by (simp add: unread_def)
  have np: "npb \<le> pbsz" by (simp add: npb_def)
  have "0 < bufsz - pbsz" by (simp add: sizes)
  then show ?thesis
  proof (rule ps_read_text [where es = "source s"])
    assume e: "pipe_text (source s) = []"
      and "\<exists>rc again es'. ps_read (bufsz - pbsz) (source s) = ((rc, [], again), es') \<and> rc \<le> 0"
    then obtain rc again es' where "ps_read (bufsz - pbsz) (source s) = ((rc, [], again), es')" "rc \<le> 0" by blast
    moreover have "char_store mem pbsz [] = Inr mem" using m(2) by (simp add: char_store_def sizes)
    ultimately show ?thesis using e u m(1) by (simp add: fill_buffer_def npb_def [symmetric] Let_def bind_err_def)
  next
    fix piece es'
    assume p: "ps_read (bufsz - pbsz) (source s) = ((int (length piece), piece, False), es')" "piece \<noteq> []"
      "length piece \<le> bufsz - pbsz" "pipe_text (source s) = piece @ pipe_text es'"
    let ?mem = "take pbsz mem @ piece @ drop (pbsz + length piece) mem"
    have "char_store mem pbsz piece = Inr ?mem" using p(3) m(2) by (intro char_store_ok) (simp add: sizes)
    then have "fill_buffer True False s =
        Inr (True, \<lparr>rbuf = ?mem, eback = pbsz - npb, gptr = pbsz, egptr = pbsz + length piece, source = es'\<rparr>)"
      using p(1,2) m(1) by (simp add: fill_buffer_def npb_def [symmetric] Let_def bind_err_def)
    then show ?thesis using p u m(2) np by (simp add: rs_ok_def unread_def sizes)
  qed
qed

lemma sbumpc_reads:
  assumes "rs_ok s"
  shows "case unread s of
      [] \<Rightarrow> \<exists>t. sbumpc s = Inr (None, t)
    | c # u \<Rightarrow> \<exists>t. sbumpc s = Inr (Some c, t) \<and> rs_ok t \<and> unread t = u \<and>
        (\<exists>t'. pbackfail (Some c) t = Inr (True, t') \<and> unread t' = c # u)"
proof -
  have take: "case unread r of [] \<Rightarrow> False | c # u \<Rightarrow>
      rbuf r ! gptr r = c \<and> gptr r < length (rbuf r) \<and> rs_ok (r\<lparr>gptr := gptr r + 1\<rparr>) \<and> unread (r\<lparr>gptr := gptr r + 1\<rparr>) = u \<and>
      (\<exists>t'. pbackfail (Some c) (r\<lparr>gptr := gptr r + 1\<rparr>) = Inr (True, t') \<and> unread t' = c # u)"
    if r: "rs_ok r" "gptr r < egptr r" for r
  proof -
    have l: "gptr r < length (rbuf r)" using r by (simp add: rs_ok_def)
    obtain k where k: "egptr r - gptr r = Suc k" using r(2) by (metis Suc_diff_Suc)
    have d: "drop (gptr r) (rbuf r) = rbuf r ! gptr r # drop (Suc (gptr r)) (rbuf r)" using l by (rule Cons_nth_drop_Suc [symmetric])
    have k': "egptr r - Suc (gptr r) = k" using k by simp
    have u: "unread r = rbuf r ! gptr r # unread (r\<lparr>gptr := gptr r + 1\<rparr>)"
      by (simp add: unread_def k k' d)
    have "char_store (rbuf r) (gptr r) [rbuf r ! gptr r] = Inr (rbuf r)"
      using l by (simp add: char_store_def id_take_nth_drop [symmetric])
    then have "pbackfail (Some (rbuf r ! gptr r)) (r\<lparr>gptr := gptr r + 1\<rparr>) = Inr (True, r)"
      using r by (simp add: pbackfail_def rs_ok_def bind_err_def)
    then show ?thesis using u l r by (auto simp: rs_ok_def)
  qed
  show ?thesis
  proof (cases "gptr s < egptr s")
    case True
    then show ?thesis using take [OF assms True]
      by (auto simp: sbumpc_def underflow_def bind_err_def split: list.splits)
  next
    case False
    then have "gptr s = egptr s" using assms by (simp add: rs_ok_def)
    note f = fill_buffer_reads [OF assms this]
    show ?thesis
    proof (cases "unread s = []")
      case True
      then show ?thesis using f False by (auto simp: sbumpc_def underflow_def bind_err_def)
    next
      case ne: False
      then obtain t where t: "fill_buffer True False s = Inr (True, t)" "rs_ok t" "unread t = unread s" "gptr t < egptr t"
        using f by auto
      then show ?thesis using take [OF t(2,4)] False
        by (auto simp: sbumpc_def underflow_def bind_err_def split: list.splits)
    qed
  qed
qed

lemma next_line_reads:
  assumes "rs_ok s"
  shows "(CHR 0x0A \<notin> set (unread s) \<longrightarrow> (\<exists>t. next_line acc s = Inr ((acc @ unread s, True), t))) \<and>
    (\<forall>l u. unread s = l @ CHR 0x0A # u \<longrightarrow> CHR 0x0A \<notin> set l \<longrightarrow>
       (\<exists>t. next_line acc s = Inr ((acc @ l, False), t) \<and> rs_ok t \<and> unread t = u))"
  using assms
proof (induction "unread s" arbitrary: s acc)
  case Nil
  have e: "unread s = []" using Nil.hyps by simp
  then obtain t where "sbumpc s = Inr (None, t)" using sbumpc_reads [OF Nil.prems] by auto
  then have "next_line acc s = Inr ((acc, True), t)" by (simp add: next_line.simps [of acc s])
  then show ?case using e by simp
next
  case (Cons c u)
  have cu: "unread s = c # u" using Cons.hyps(2) by simp
  obtain t where t: "sbumpc s = Inr (Some c, t)" "rs_ok t" "unread t = u"
    using sbumpc_reads [OF Cons.prems] unfolding cu by auto
  show ?case
  proof (cases "c = CHR 0x0A")
    case True
    then have n: "next_line acc s = Inr ((acc, False), t)" using t by (simp add: next_line.simps [of acc s])
    have "l = [] \<and> v = u" if "unread s = l @ CHR 0x0A # v" "CHR 0x0A \<notin> set l" for l v
      using that Cons.hyps(2) True by (cases l) auto
    moreover have "CHR 0x0A \<in> set (unread s)" using Cons.hyps(2) True by (metis list.set_intros(1))
    ultimately show ?thesis using n t by auto
  next
    case False
    have n: "next_line acc s = next_line (acc @ [c]) t" using t False by (simp add: next_line.simps [of acc s])
    note ih = Cons.hyps(1) [OF t(3) [symmetric] t(2), of "acc @ [c]"]
    have us: "unread s = c # unread t" using Cons.hyps(2) t(3) by simp
    have "\<exists>l'. l = c # l' \<and> unread t = l' @ CHR 0x0A # v \<and> CHR 0x0A \<notin> set l'"
      if "unread s = l @ CHR 0x0A # v" "CHR 0x0A \<notin> set l" for l v
      using that us False by (cases l) auto
    note split_line = this
    have "\<exists>t'. next_line (acc @ [c]) t = Inr ((acc @ l, False), t') \<and> rs_ok t' \<and> unread t' = v"
      if lv: "unread s = l @ CHR 0x0A # v" "CHR 0x0A \<notin> set l" for l v
    proof -
      obtain l' where l': "l = c # l'" "unread t = l' @ CHR 0x0A # v" "CHR 0x0A \<notin> set l'" using split_line [OF lv] by blast
      then obtain t' where "next_line (acc @ [c]) t = Inr (((acc @ [c]) @ l', False), t')" "rs_ok t'" "unread t' = v"
        using conjunct2 [OF ih] by blast
      then show ?thesis using l'(1) by simp
    qed
    moreover have "\<exists>t'. next_line (acc @ [c]) t = Inr ((acc @ unread s, True), t')" if nn: "CHR 0x0A \<notin> set (unread s)"
      using ih nn us by simp
    ultimately show ?thesis unfolding n by blast
  qed
qed

lemma getlines_last: "CHR 0x0A \<notin> set m \<Longrightarrow> getlines acc m = (if acc @ m = [] then [] else [acc @ m])"
  by (induction m arbitrary: acc) auto

lemma read_lines_getlines: "rs_ok s \<Longrightarrow> read_lines s = Inr (getlines [] (unread s))"
proof (induction "length (unread s)" arbitrary: s rule: less_induct)
  case less
  show ?case
  proof (cases "CHR 0x0A \<in> set (unread s)")
    case False
    then obtain t where "next_line [] s = Inr ((unread s, True), t)" using next_line_reads [OF less.prems, of "[]"] by auto
    then show ?thesis using False by (simp add: read_lines.simps [of s] getlines_last)
  next
    case True
    then obtain l u where l: "unread s = l @ CHR 0x0A # u" "CHR 0x0A \<notin> set l" by (metis split_list_first)
    then obtain t where t: "next_line [] s = Inr ((l, False), t)" "rs_ok t" "unread t = u"
      using next_line_reads [OF less.prems, of "[]"] by auto
    then show ?thesis using less.hyps [of t] l by (simp add: read_lines.simps [of s] getlines_acc)
  qed
qed



section \<open>Writing\<close>

text \<open>
  \<open>taken\<close>: what the calls of \<^verbatim>\<open>write\<close> answer in turn, the number of characters the pipe takes if
  it is offered so many, or an error; later calls take everything.
\<close>

record wstream =
  wbuf :: string
  pptr :: nat
  pipe_open :: bool
  taken :: "nat option list"
  sent :: string

definition create_wbuffer :: "string \<Rightarrow> nat option list \<Rightarrow> wstream" where
  "create_wbuffer fresh rs = \<lparr>wbuf = fresh, pptr = 0, pipe_open = True, taken = rs, sent = []\<rparr>"

definition ps_write :: "string \<Rightarrow> wstream \<Rightarrow> int \<times> wstream" where
  "ps_write s w =
     (if \<not> pipe_open w then (0, w)
      else (case taken w of
              [] \<Rightarrow> (int (length s), w\<lparr>sent := sent w @ s\<rparr>)
            | None # rs \<Rightarrow> (-1, w\<lparr>taken := rs\<rparr>)
            | Some k # rs \<Rightarrow> (int (min k (length s)), w\<lparr>taken := rs, sent := sent w @ take k s\<rparr>)))"

definition empty_buffer :: "wstream \<Rightarrow> fault + bool \<times> wstream" where
  "empty_buffer w =
     (let count = pptr w in
      if count > 0 then
        if count > length (wbuf w) then Inl OutOfRange
        else
          (let (written, w) = ps_write (take count (wbuf w)) w in
           if written > 0 then
             let unwritten = count - nat written in
             bind_err (if unwritten \<noteq> 0 then char_move (wbuf w) 0 (nat written) unwritten else Inr (wbuf w)) (\<lambda>mem.
             Inr (True, w\<lparr>wbuf := mem, pptr := pptr w - nat written\<rparr>))
           else Inr (False, w))
      else Inr (False, w))"

text \<open>\<^verbatim>\<open>sputc\<close> after a flush finds room.\<close>

definition overflow :: "char option \<Rightarrow> wstream \<Rightarrow> fault + bool \<times> wstream" where
  "overflow c w =
     bind_err (empty_buffer w) (\<lambda>(ok, w).
       if \<not> ok then Inr (False, w)
       else (case c of
               None \<Rightarrow> Inr (True, w)
             | Some c \<Rightarrow> bind_err (char_store (wbuf w) (pptr w) [c]) (\<lambda>mem. Inr (True, w\<lparr>wbuf := mem, pptr := pptr w + 1\<rparr>))))"

definition ps_sync :: "bool \<Rightarrow> wstream \<Rightarrow> fault + int \<times> wstream" where
  "ps_sync has_exited w =
     (if has_exited then Inr (-1, w) else bind_err (empty_buffer w) (\<lambda>(ok, w). Inr (if ok then 0 else -1, w)))"

lemma empty_buffer_less:
  "empty_buffer w = Inr (True, w') \<Longrightarrow> pptr w' < pptr w"
  by (auto simp: empty_buffer_def ps_write_def Let_def bind_err_def split: if_splits sum.splits prod.splits list.splits option.splits)

text \<open>\<open>xsputn_loop s w\<close> are the turns for the rest of the text; the number is that of the characters taken.\<close>

function xsputn_loop :: "string \<Rightarrow> wstream \<Rightarrow> fault + nat \<times> wstream" where
  "xsputn_loop s w =
     (if s = [] then Inr (0, w)
      else
        let nbuf = length (wbuf w) - pptr w in
        if nbuf \<noteq> 0 then
          let nbuf = min nbuf (length s) in
          (case char_store (wbuf w) (pptr w) (take nbuf s) of
             Inl e \<Rightarrow> Inl e
           | Inr mem \<Rightarrow>
               (case xsputn_loop (drop nbuf s) (w\<lparr>wbuf := mem, pptr := pptr w + nbuf\<rparr>) of
                  Inl e \<Rightarrow> Inl e
                | Inr (done, w) \<Rightarrow> Inr (nbuf + done, w)))
        else
          (case empty_buffer w of
             Inl e \<Rightarrow> Inl e
           | Inr (ok, w) \<Rightarrow> if ok then xsputn_loop s w else Inr (0, w)))"
  by pat_completeness auto
termination
  by (relation "measures [\<lambda>(s, _). length s, \<lambda>(_, w). pptr w]") (auto dest: empty_buffer_less)

declare xsputn_loop.simps [simp del]

text \<open>What was handed over and is not in the pipe yet, and when the state is sound.\<close>

definition pending :: "wstream \<Rightarrow> string" where
  "pending w = take (pptr w) (wbuf w)"

definition ws_ok :: "wstream \<Rightarrow> bool" where
  "ws_ok w \<longleftrightarrow> length (wbuf w) = bufsz \<and> pptr w \<le> bufsz"

definition healthy :: "wstream \<Rightarrow> bool" where
  "healthy w \<longleftrightarrow> pipe_open w \<and> (\<forall>r\<in>set (taken w). \<exists>k>0. r = Some k)"

lemma ps_write_conserves:
  assumes "ps_write s w = (n, w')"
  shows "n \<le> int (length s) \<and> sent w' = sent w @ take (nat n) s \<and> wbuf w' = wbuf w \<and> pptr w' = pptr w \<and> pipe_open w' = pipe_open w \<and>
    (healthy w \<longrightarrow> healthy w' \<and> (s \<noteq> [] \<longrightarrow> 0 < n))"
  using assms
  by (auto simp: ps_write_def healthy_def min_def split: if_splits list.splits option.splits)

lemma empty_buffer_conserves:
  assumes "ws_ok w"
  obtains ok w' where "empty_buffer w = Inr (ok, w')" "ws_ok w'" "sent w' @ pending w' = sent w @ pending w"
    "healthy w \<longrightarrow> healthy w' \<and> (0 < pptr w \<longrightarrow> ok)" "ok \<longrightarrow> pptr w' < pptr w"
proof (cases "pptr w = 0")
  case True
  then show thesis using that [of False w] assms by (simp add: empty_buffer_def)
next
  case False
  let ?s = "take (pptr w) (wbuf w)"
  obtain n v where p: "ps_write ?s w = (n, v)" by fastforce
  note c = ps_write_conserves [OF p]
  have l: "length ?s = pptr w" "length (wbuf w) = bufsz" "pptr w \<le> bufsz" using assms by (auto simp: ws_ok_def)
  show thesis
  proof (cases "n > 0")
    case pos: True
    define k where "k = nat n"
    have k: "0 < k" "k \<le> pptr w" using pos c l by (auto simp: k_def)
    define mem where "mem = (if pptr w - k \<noteq> 0 then take (pptr w - k) (drop k (wbuf w)) @ drop (pptr w - k) (wbuf w) else wbuf w)"
    have "pptr w - k \<le> bufsz" using l by simp
    then have m: "(if pptr w - k \<noteq> 0 then char_move (wbuf v) 0 k (pptr w - k) else Inr (wbuf v)) = Inr mem"
      using c k l by (simp add: char_move_def char_store_def mem_def)
    let ?w = "v\<lparr>wbuf := mem, pptr := pptr w - k\<rparr>"
    have e: "empty_buffer w = Inr (True, ?w)"
    proof -
      have "nat n = k" by (simp add: k_def)
      then show ?thesis using False l p pos c m
        by (cases "k < pptr w") (simp_all add: empty_buffer_def bind_err_def Let_def)
    qed
    have lm: "length mem = bufsz" using k l by (auto simp: mem_def)
    have tm: "take (pptr w - k) mem = drop k ?s" using k l by (auto simp: mem_def drop_take)
    have "sent ?w @ pending ?w = sent w @ take k ?s @ drop k ?s" using c tm by (simp add: pending_def k_def)
    also have "\<dots> = sent w @ pending w" by (simp only: append_take_drop_id pending_def)
    finally have s: "sent ?w @ pending ?w = sent w @ pending w" .
    have h: "healthy w \<longrightarrow> healthy ?w \<and> (0 < pptr w \<longrightarrow> True)" using c by (simp add: healthy_def)
    show thesis by (rule that [OF e _ s h]) (use lm k l in \<open>auto simp: ws_ok_def\<close>)
  next
    case neg: False
    have e: "empty_buffer w = Inr (False, v)" using False l p neg by (simp add: empty_buffer_def)
    have "take (nat n) ?s = []" using neg by simp
    then show thesis using that [OF e] c neg l False assms by (auto simp: ws_ok_def pending_def)
  qed
qed

lemma xsputn_loop_conserves:
  assumes "ws_ok w"
  shows "\<exists>n w'. xsputn_loop s w = Inr (n, w') \<and> n \<le> length s \<and> ws_ok w' \<and>
    sent w' @ pending w' = sent w @ pending w @ take n s \<and> (healthy w \<longrightarrow> healthy w' \<and> n = length s)"
  using assms
proof (induction s w rule: xsputn_loop.induct)
  case (1 s w)
  show ?case
  proof (cases "s = []")
    case True
    then show ?thesis using "1.prems" by (simp add: xsputn_loop.simps)
  next
    case ne: False
    have l: "length (wbuf w) = bufsz" "pptr w \<le> bufsz" using "1.prems" by (simp_all add: ws_ok_def)
    show ?thesis
    proof (cases "length (wbuf w) - pptr w = 0")
      case True
      obtain ok v where e: "empty_buffer w = Inr (ok, v)" and v: "ws_ok v" "sent v @ pending v = sent w @ pending w"
        "healthy w \<longrightarrow> healthy v \<and> (0 < pptr w \<longrightarrow> ok)"
        by (rule empty_buffer_conserves [OF "1.prems"]) (rule that; assumption)
      have x: "xsputn_loop s w = (if ok then xsputn_loop s v else Inr (0, v))"
        using ne True e by (simp add: xsputn_loop.simps [of s w])
      show ?thesis
      proof (cases ok)
        case ok: True
        have nz: "\<not> length (wbuf w) - pptr w \<noteq> 0" using True by simp
        have "\<exists>n w'. xsputn_loop s v = Inr (n, w') \<and> n \<le> length s \<and> ws_ok w' \<and>
            sent w' @ pending w' = sent v @ pending v @ take n s \<and> (healthy v \<longrightarrow> healthy w' \<and> n = length s)"
          by (rule "1.IH"(2) [OF ne refl nz e refl ok v(1)])
        then show ?thesis using x ok v(2,3) by (metis append.assoc)
      next
        case no: False
        have "0 < pptr w" using True l by (simp add: bufsz_def)
        then show ?thesis using x no v by auto
      qed
    next
      case False
      define k where "k = min (length (wbuf w) - pptr w) (length s)"
      define mem where "mem = take (pptr w) (wbuf w) @ take k s @ drop (pptr w + k) (wbuf w)"
      have k: "k \<le> length s" "pptr w + k \<le> bufsz" using l by (auto simp: k_def)
      have c: "char_store (wbuf w) (pptr w) (take k s) = Inr mem" using k l by (simp add: char_store_def mem_def)
      let ?w = "w\<lparr>wbuf := mem, pptr := pptr w + k\<rparr>"
      have ok: "ws_ok ?w" using k l by (simp add: ws_ok_def mem_def)
      have p: "pending ?w = pending w @ take k s" using k l by (simp add: pending_def mem_def)
      have "\<exists>n w'. xsputn_loop (drop k s) ?w = Inr (n, w') \<and> n \<le> length (drop k s) \<and> ws_ok w' \<and>
          sent w' @ pending w' = sent ?w @ pending ?w @ take n (drop k s) \<and> (healthy ?w \<longrightarrow> healthy w' \<and> n = length (drop k s))"
        by (rule "1.IH"(1) [OF ne refl False k_def c ok])
      then obtain n w' where r: "xsputn_loop (drop k s) ?w = Inr (n, w')" "n \<le> length (drop k s)" "ws_ok w'"
        "sent w' @ pending w' = sent ?w @ pending ?w @ take n (drop k s)" "healthy ?w \<longrightarrow> healthy w' \<and> n = length (drop k s)" by blast
      have x: "xsputn_loop s w = Inr (k + n, w')"
        using ne False c r(1) by (simp add: xsputn_loop.simps [of s w] Let_def k_def [symmetric])
      have t: "take (k + n) s = take k s @ take n (drop k s)" by (rule take_add)
      have h: "healthy ?w \<longleftrightarrow> healthy w" by (simp add: healthy_def)
      show ?thesis using x r k p t h by auto
    qed
  qed
qed

definition xsputn :: "string \<Rightarrow> wstream \<Rightarrow> fault + nat \<times> wstream" where
  "xsputn s w = xsputn_loop s w"

text \<open>
  C40: What is written to a child arrives as it was written. However little of it the pipe takes
  at a time, \<^verbatim>\<open>xsputn\<close> ends without leaving its buffer and says how many characters it took;
  those in the pipe followed by those still in the buffer are exactly what was handed
  over, in order, and as long as no write fails everything is taken. A flush passes on at
  least one character then, but one with nothing to do reports a failure.
\<close>

theorem written_text:
  assumes "length fresh = bufsz"
  shows "\<exists>n w. xsputn s (create_wbuffer fresh rs) = Inr (n, w) \<and> n \<le> length s \<and> sent w @ pending w = take n s \<and>
    ((\<forall>r\<in>set rs. \<exists>k>0. r = Some k) \<longrightarrow> n = length s \<and> (\<exists>w'. ps_sync False w = Inr (if pending w = [] then -1 else 0, w') \<and>
       sent w' @ pending w' = s \<and> (pending w \<noteq> [] \<longrightarrow> length (sent w) < length (sent w'))))"
proof -
  let ?w = "create_wbuffer fresh rs"
  have ok: "ws_ok ?w" and e: "sent ?w @ pending ?w = []" using assms by (simp_all add: create_wbuffer_def ws_ok_def pending_def)
  obtain n w where x: "xsputn s ?w = Inr (n, w)" "n \<le> length s" "ws_ok w" "sent w @ pending w = take n s" "healthy ?w \<longrightarrow> healthy w \<and> n = length s"
    using xsputn_loop_conserves [OF ok, of s] e by (auto simp: xsputn_def)
  have h: "healthy ?w \<longleftrightarrow> (\<forall>r\<in>set rs. \<exists>k>0. r = Some k)" by (simp add: healthy_def create_wbuffer_def)
  have "\<exists>w'. ps_sync False w = Inr (if pending w = [] then -1 else 0, w') \<and> sent w' @ pending w' = s \<and>
      (pending w \<noteq> [] \<longrightarrow> length (sent w) < length (sent w'))" if "healthy ?w"
  proof -
    have hw: "healthy w" "n = length s" using that x(5) by simp_all
    obtain b v where v: "empty_buffer w = Inr (b, v)" "ws_ok v" "sent v @ pending v = sent w @ pending w"
      "b \<longrightarrow> pptr v < pptr w" "healthy w \<longrightarrow> healthy v \<and> (0 < pptr w \<longrightarrow> b)" by (rule empty_buffer_conserves [OF x(3)]) (rule that; assumption)
    have p0: "pending w = [] \<longleftrightarrow> pptr w = 0" using x(3) by (auto simp: pending_def ws_ok_def bufsz_def)
    have b: "b \<longleftrightarrow> pptr w \<noteq> 0" using v(4,5) hw(1) by auto
    have lp: "length (pending u) = pptr u" if "ws_ok u" for u using that by (simp add: pending_def ws_ok_def)
    have "length (sent v) + pptr v = length (sent w) + pptr w" using arg_cong [OF v(3), of length] lp [OF v(2)] lp [OF x(3)] by simp
    then have "pptr w \<noteq> 0 \<longrightarrow> length (sent w) < length (sent v)" using v(4) b by auto
    then show ?thesis using v(1,3) x(4) hw(2) b p0 by (simp add: ps_sync_def bind_err_def)
  qed
  then show ?thesis using x h by blast
qed

theorem written_text_witness:
  "\<exists>w w'. xsputn (replicate 40 (CHR ''a'')) (create_wbuffer (replicate 32 (CHR ''?'')) [Some 5, Some 1]) = Inr (40, w) \<and>
     ps_sync False w = Inr (if pending w = [] then -1 else 0, w') \<and> sent w' @ pending w' = replicate 40 (CHR ''a'')"
proof -
  have f: "length (replicate 32 (CHR ''?'')) = bufsz" by (simp add: bufsz_def)
  have r: "\<forall>r\<in>set [Some 5, Some 1]. \<exists>k>(0::nat). r = Some k" by simp
  from written_text [OF f, of "replicate 40 (CHR ''a'')" "[Some 5, Some 1]"] r
  show ?thesis by (metis length_replicate)
qed

end
