(* ===== verification/NetApi.thy ===== *)
theory NetApi
  imports Utils "HOL-Library.Char_ord" "HOL-Library.List_Lexorder" "HOL-Library.Multiset"
begin

text \<open>
  \<^verbatim>\<open>common-cpp/src/api/api.cpp\<close>: the address the desktop application shows for pairing, chosen
  among the network interfaces of the machine. What the system reports about its interfaces
  is input; \<^verbatim>\<open>std::sort\<close> is a parameter that has to sort.
\<close>

section \<open>Regular expressions\<close>

text \<open>
  The expressions \<^verbatim>\<open>local_v4_regex\<close> is built from; \<open>Repeat m n\<close> is \<open>{m,n}\<close>. \<^verbatim>\<open>regex_match\<close>
  compares the whole text, which is what the anchors of the pattern ask for.
\<close>

datatype rx =
    Lit string
  | Range char char
  | Cat rx rx
  | Alt rx rx
  | Repeat nat nat rx

fun repeat_rest :: "(string \<Rightarrow> string list) \<Rightarrow> nat \<Rightarrow> nat \<Rightarrow> string \<Rightarrow> string list" where
  "repeat_rest f m 0 s = (if m = 0 then [s] else [])"
| "repeat_rest f m (Suc n) s = (if m = 0 then [s] else []) @ concat (map (repeat_rest f (m - 1) n) (f s))"

text \<open>What is left of a text after the matches of an expression at its start.\<close>

primrec rx_rest :: "rx \<Rightarrow> string \<Rightarrow> string list" where
  "rx_rest (Lit p) s = (if take (length p) s = p then [drop (length p) s] else [])"
| "rx_rest (Range a b) s = (case s of [] \<Rightarrow> [] | c # cs \<Rightarrow> if a \<le> c \<and> c \<le> b then [cs] else [])"
| "rx_rest (Cat r r') s = concat (map (rx_rest r') (rx_rest r s))"
| "rx_rest (Alt r r') s = rx_rest r s @ rx_rest r' s"
| "rx_rest (Repeat m n r) s = repeat_rest (rx_rest r) m n s"

definition regex_match :: "rx \<Rightarrow> string \<Rightarrow> bool" where
  "regex_match r s = list_ex (\<lambda>rest. rest = []) (rx_rest r s)"

abbreviation digit :: rx where "digit \<equiv> Range CHR ''0'' CHR ''9''"

abbreviation octet :: rx where "octet \<equiv> Repeat 1 3 digit"

definition local_v4_regex :: rx where
  "local_v4_regex =
     Alt (Cat (Lit ''10.'') (Cat octet (Cat (Lit ''.'') (Cat octet (Cat (Lit ''.'') octet)))))
    (Alt (Cat (Lit ''172.1'') (Cat (Repeat 1 1 (Range CHR ''6'' CHR ''9'')) (Cat (Repeat 0 1 digit)
           (Cat (Lit ''.'') (Cat octet (Cat (Lit ''.'') octet))))))
    (Alt (Cat (Lit ''172.2'') (Cat (Repeat 1 1 digit) (Cat (Repeat 0 1 digit)
           (Cat (Lit ''.'') (Cat octet (Cat (Lit ''.'') octet))))))
    (Alt (Cat (Lit ''172.3'') (Cat (Repeat 1 1 (Range CHR ''0'' CHR ''1'')) (Cat (Repeat 0 1 digit)
           (Cat (Lit ''.'') (Cat octet (Cat (Lit ''.'') octet))))))
         (Cat (Lit ''192.168.'') (Cat octet (Cat (Lit ''.'') octet))))))"

section \<open>The interfaces\<close>

record net_if =
  ifName :: string
  if_ipAddress :: string
  if_macAddress :: string

definition NetworkInterface_new :: net_if where
  "NetworkInterface_new = \<lparr>ifName = '''', if_ipAddress = '''', if_macAddress = ''''\<rparr>"

text \<open>
  An entry of \<^verbatim>\<open>getifaddrs\<close>: the text of \<^verbatim>\<open>getnameinfo\<close>, if it succeeds, for an IPv4
  address, and for a hardware address also the bytes of \<^verbatim>\<open>sll_addr\<close>.
\<close>

datatype if_addr = AF_INET "string option" | AF_PACKET "string option" "byte list" | AF_OTHER

record ifaddr =
  ifa_name :: string
  ifa_addr :: "if_addr option"
  ifa_loopback :: bool

text \<open>\<^verbatim>\<open>"%02X:%02X:%02X:%02X:%02X:%02X"\<close>.\<close>

definition mac_text :: "byte list \<Rightarrow> string" where
  "mac_text bs = join_with (CHR '':'') (map (\<lambda>i. hex_byte (bs ! i)) [0..<6])"

text \<open>\<^verbatim>\<open>std::map\<close>, in the order of its keys.\<close>

fun if_update :: "string \<Rightarrow> (net_if \<Rightarrow> net_if) \<Rightarrow> (string \<times> net_if) list \<Rightarrow> (string \<times> net_if) list" where
  "if_update k f [] = [(k, f (NetworkInterface_new\<lparr>ifName := k\<rparr>))]"
| "if_update k f ((k', v) # kvs) =
     (if k = k' then (k, f v) # kvs
      else if k < k' then (k, f (NetworkInterface_new\<lparr>ifName := k\<rparr>)) # (k', v) # kvs
      else (k', v) # if_update k f kvs)"

definition add_ifaddr :: "platform \<Rightarrow> ifaddr \<Rightarrow> (string \<times> net_if) list \<Rightarrow> (string \<times> net_if) list" where
  "add_ifaddr p ifa ifMap =
     (if ifa_addr ifa = None \<or> ifa_loopback ifa then ifMap
      else
        (case the (ifa_addr ifa) of
           AF_INET None \<Rightarrow> ifMap
         | AF_INET (Some addr) \<Rightarrow> if_update (ifa_name ifa) (\<lambda>n. n\<lparr>if_ipAddress := addr\<rparr>) ifMap
         | AF_PACKET addr sll \<Rightarrow>
             if_update (ifa_name ifa)
               (\<lambda>n. n\<lparr>if_macAddress := (if p = Linux then mac_text sll else (case addr of Some a \<Rightarrow> a | None \<Rightarrow> ''''))\<rparr>) ifMap
         | AF_OTHER \<Rightarrow> ifMap))"

definition unix_interfaces :: "platform \<Rightarrow> ifaddr list \<Rightarrow> net_if list" where
  "unix_interfaces p ifaddrs =
     filter (\<lambda>n. if_ipAddress n \<noteq> '''') (map snd (fold (add_ifaddr p) ifaddrs []))"

text \<open>An adapter of Windows; the unicast addresses are the texts of \<^verbatim>\<open>inet_ntop\<close> for IPv4.\<close>

record adapter =
  software_loopback :: bool
  PhysicalAddress :: "byte list"
  FriendlyName :: string
  unicast_ipv4 :: "string option list"

definition add_adapter :: "adapter \<Rightarrow> net_if list \<Rightarrow> net_if list" where
  "add_adapter a result =
     (if software_loopback a then result
      else
        let netIf = NetworkInterface_new\<lparr>ifName := FriendlyName a, if_macAddress := mac_text (PhysicalAddress a)\<rparr>;
            netIf = fold (\<lambda>u n. case u of None \<Rightarrow> n | Some addr \<Rightarrow> n\<lparr>if_ipAddress := addr\<rparr>) (unicast_ipv4 a) netIf
        in if if_ipAddress netIf \<noteq> '''' then result @ [netIf] else result)"

definition windows_interfaces :: "adapter list \<Rightarrow> net_if list" where
  "windows_interfaces adapters = fold add_adapter adapters []"

section \<open>The choice\<close>

definition rankIp :: "platform \<Rightarrow> net_if \<Rightarrow> int" where
  "rankIp p netIf =
     (let rank = 0;
          rank = (if regex_match local_v4_regex (if_ipAddress netIf) then rank + 1000 else rank);
          rank = (if StringStartsWith (if_ipAddress netIf) ''192.168.'' \<or> StringStartsWith (if_ipAddress netIf) ''10.''
                  then rank + 50 else rank)
      in if p = Windows then
           (if StringContains (ifName netIf) ''Bluetooth'' \<or> StringContains (ifName netIf) ''vEthernet'' \<or>
               StringContains (ifName netIf) ''VMware'' \<or> StringContains (ifName netIf) ''VirtualBox'' \<or>
               StringContains (ifName netIf) ''Docker'' then rank - 100 else rank)
         else
           (if StringStartsWith (ifName netIf) ''vir'' \<or> StringStartsWith (ifName netIf) ''docker'' \<or>
               StringStartsWith (ifName netIf) ''ham'' then rank - 100 else rank))"

definition better :: "platform \<Rightarrow> net_if \<Rightarrow> net_if \<Rightarrow> bool" where
  "better p a b =
     (if rankIp p a = rankIp p b then ToLowerString (ifName a) < ToLowerString (ifName b)
      else rankIp p a > rankIp p b)"

record ip_and_mac =
  ipAddr :: bytes
  macAddr :: bytes

text \<open>\<^verbatim>\<open>memcpy\<close> of at most the size of a field that was cleared before.\<close>

definition fill_field :: "nat \<Rightarrow> string \<Rightarrow> bytes" where
  "fill_field n s = (let bs = take (min n (length s)) (bytes_of s) in bs @ replicate (n - length bs) 0)"

text \<open>\<open>None\<close>: the interfaces could not be read. The number counts the blocks that are lost.\<close>

definition get_local_ip_and_mac ::
  "platform \<Rightarrow> ((net_if \<Rightarrow> net_if \<Rightarrow> bool) \<Rightarrow> net_if list \<Rightarrow> net_if list) \<Rightarrow> bool \<Rightarrow> net_if list option
   \<Rightarrow> ip_and_mac option \<times> nat" where
  "get_local_ip_and_mac p sort_by malloc_succeeds interfaces =
     (case interfaces of
        None \<Rightarrow> (None, 0)
      | Some result \<Rightarrow>
          (case sort_by (better p) result of
             [] \<Rightarrow> (None, if malloc_succeeds then 1 else 0)
           | resultIf # _ \<Rightarrow>
               if \<not> malloc_succeeds then (None, 0)
               else (Some \<lparr>ipAddr = fill_field 16 (if_ipAddress resultIf),
                           macAddr = (if if_macAddress resultIf \<noteq> '''' then fill_field 18 (if_macAddress resultIf)
                                      else replicate 18 0)\<rparr>, 0)))"

definition crypt_shadow :: "string \<Rightarrow> string \<Rightarrow> string option" where
  "crypt_shadow pwd salt = None"

section \<open>Lemmas on the pattern\<close>

definition digit_char :: "nat \<Rightarrow> char" where
  "digit_char n = char_of (48 + n)"

definition octet_text :: "nat \<Rightarrow> string" where
  "octet_text n =
     (if n < 10 then [digit_char n] else if n < 100 then [digit_char (n div 10), digit_char (n mod 10)]
      else [digit_char (n div 100), digit_char (n div 10 mod 10), digit_char (n mod 10)])"

definition dotted :: "nat \<Rightarrow> nat \<Rightarrow> nat \<Rightarrow> nat \<Rightarrow> string" where
  "dotted a b c d = octet_text a @ CHR ''.'' # octet_text b @ CHR ''.'' # octet_text c @ CHR ''.'' # octet_text d"

definition is_digit_char :: "char \<Rightarrow> bool" where
  "is_digit_char c \<longleftrightarrow> CHR ''0'' \<le> c \<and> c \<le> CHR ''9''"

lemma digit_char_code: "n < 10 \<Longrightarrow> of_char (digit_char n) = 48 + n"
  by (simp add: digit_char_def)

lemma char_le_of_char: "(c \<le> d) = (of_char c \<le> (of_char d :: nat))"
  by (simp add: less_eq_char_def)

lemma digit_char_eq: "n < 10 \<Longrightarrow> digit_char n = c \<longleftrightarrow> of_char c = 48 + n"
  by (metis digit_char_code of_char_eq_iff)

lemma digit_char_le: "n < 10 \<Longrightarrow> digit_char n \<le> c \<longleftrightarrow> 48 + n \<le> of_char c" "n < 10 \<Longrightarrow> c \<le> digit_char n \<longleftrightarrow> of_char c \<le> 48 + n"
  by (simp_all add: char_le_of_char digit_char_code)

lemma is_digit_octet: "n < 256 \<Longrightarrow> list_all is_digit_char (octet_text n) \<and> 1 \<le> length (octet_text n) \<and> length (octet_text n) \<le> 3"
  by (auto simp: octet_text_def is_digit_char_def char_le_of_char digit_char_code)

lemma dot_not_digit [simp]: "\<not> is_digit_char CHR ''.''"
  by (simp add: is_digit_char_def char_le_of_char)

lemma repeat_digits:
  assumes "\<And>d x. f (d # x) = (if is_digit_char d then [x] else [])" "f [] = []"
  shows "list_all is_digit_char ds \<Longrightarrow> rest = [] \<or> \<not> is_digit_char (hd rest) \<Longrightarrow>
    set (repeat_rest f m n (ds @ rest)) = (\<lambda>k. drop k ds @ rest) ` {m..min n (length ds)}"
proof (induction n arbitrary: m ds)
  case 0
  then show ?case by auto
next
  case (Suc n)
  show ?case
  proof (cases ds)
    case Nil
    then have "f (ds @ rest) = []" using Suc.prems(2) assms by (cases rest) auto
    with Nil show ?thesis by (cases m) simp_all
  next
    case (Cons d ds')
    then have f: "f (ds @ rest) = [ds' @ rest]" using Suc.prems(1) assms(1) by simp
    have IH: "set (repeat_rest f k n (ds' @ rest)) = (\<lambda>k. drop k ds' @ rest) ` {k..min n (length ds')}" for k
      using Suc.IH [of ds'] Suc.prems Cons by simp
    have s: "set (repeat_rest f m (Suc n) (ds @ rest)) =
        (if m = 0 then {ds @ rest} else {}) \<union> (\<lambda>k. drop k ds' @ rest) ` {m - 1..min n (length ds')}"
      using IH [of "m - 1"] by (simp add: f)
    also have "(\<lambda>k. drop k ds' @ rest) ` {m - 1..min n (length ds')} =
        (\<lambda>k. drop k ds @ rest) ` Suc ` {m - 1..min n (length ds')}"
      by (simp only: Cons image_image drop_Suc_Cons)
    also have "Suc ` {m - 1..min n (length ds')} = {Suc (m - 1)..min (Suc n) (length ds)}"
      by (simp add: image_Suc_atLeastAtMost Cons)
    also have "(if m = 0 then {ds @ rest} else {}) \<union> (\<lambda>k. drop k ds @ rest) ` {Suc (m - 1)..min (Suc n) (length ds)} =
        (\<lambda>k. drop k ds @ rest) ` {m..min (Suc n) (length ds)}"
    proof (cases m)
      case 0
      have "{0..min (Suc n) (length ds)} = insert 0 {Suc 0..min (Suc n) (length ds)}" by auto
      with 0 show ?thesis by simp
    qed simp
    finally show ?thesis .
  qed
qed

lemma eat_digit: "rx_rest digit (d # x) = (if is_digit_char d then [x] else [])" "rx_rest digit [] = []"
  by (simp_all add: is_digit_char_def)

text \<open>What an octet leaves, with the dot that ends it or at the end of the text.\<close>

lemma rest_after_octet:
  assumes "list_all is_digit_char ds"
  shows "set (rx_rest (Cat (Repeat m n digit) (Cat (Lit ''.'') r)) (ds @ CHR ''.'' # rest)) =
    (if m \<le> length ds \<and> length ds \<le> n then set (rx_rest r rest) else {})"
proof -
  have f: "set (rx_rest (Cat (Lit ''.'') r) (drop k ds @ CHR ''.'' # rest)) = (if length ds \<le> k then set (rx_rest r rest) else {})" for k
  proof (cases "drop k ds")
    case (Cons d x)
    then have "is_digit_char d" using assms by (metis in_set_dropD list.set_intros(1) list_all_iff)
    then have "d \<noteq> CHR ''.''" by auto
    moreover have "k < length ds" using Cons by (metis drop_eq_Nil linorder_not_le list.distinct(1))
    ultimately show ?thesis using Cons by simp
  qed simp
  have s: "set (rx_rest (Cat a b) x) = (\<Union>y \<in> set (rx_rest a x). set (rx_rest b y))" for a b x by simp
  have "set (rx_rest (Repeat m n digit) (ds @ CHR ''.'' # rest)) = (\<lambda>k. drop k ds @ CHR ''.'' # rest) ` {m..min n (length ds)}"
    using repeat_digits [of "rx_rest digit", OF eat_digit assms] by simp
  then show ?thesis unfolding s [of "Repeat m n digit"] by (auto simp: f simp del: rx_rest.simps split: if_split_asm)
qed

lemma end_after_octet:
  assumes "list_all is_digit_char ds"
  shows "[] \<in> set (rx_rest (Repeat m n digit) ds) \<longleftrightarrow> m \<le> length ds \<and> length ds \<le> n"
  using repeat_digits [of "rx_rest digit", OF eat_digit assms, of "[]" m n] by (auto intro!: rev_image_eqI [of "length ds"])

lemma rest_after_prefix: "rx_rest (Cat (Lit p) r) s = (if take (length p) s = p then rx_rest r (drop (length p) s) else [])"
  by simp

lemma octet_cases:
  assumes "n < 256"
  obtains (one) "n < 10" "octet_text n = [digit_char n]"
    | (two) x y where "x < 10" "y < 10" "0 < x" "n = 10 * x + y" "octet_text n = [digit_char x, digit_char y]"
    | (three) x y z where "x < 3" "0 < x" "y < 10" "z < 10" "n = 100 * x + 10 * y + z"
        "octet_text n = [digit_char x, digit_char y, digit_char z]"
proof -
  consider "n < 10" | "10 \<le> n" "n < 100" | "100 \<le> n" by linarith
  then show thesis
  proof cases
    case 1
    show thesis by (rule one) (use 1 in \<open>simp_all add: octet_text_def\<close>)
  next
    case 2
    show thesis
    proof (rule two)
      show "n div 10 < 10" using 2(2) by (simp add: div_less_iff_less_mult)
      show "n mod 10 < 10" by simp
      show "0 < n div 10" using 2(1) by (simp add: div_greater_zero_iff)
      show "n = 10 * (n div 10) + n mod 10" by simp
      show "octet_text n = [digit_char (n div 10), digit_char (n mod 10)]" using 2 by (simp add: octet_text_def)
    qed
  next
    case 3
    show thesis
    proof (rule three)
      show "n div 100 < 3" using assms by (simp add: div_less_iff_less_mult)
      show "0 < n div 100" using 3 by (simp add: div_greater_zero_iff)
      show "n div 10 mod 10 < 10" "n mod 10 < 10" by simp_all
      have "n div 100 = n div 10 div 10" by (simp add: div_mult2_eq [symmetric])
      then show "n = 100 * (n div 100) + 10 * (n div 10 mod 10) + n mod 10"
        using mult_div_mod_eq [of 10 n] mult_div_mod_eq [of 10 "n div 10"] by linarith
      show "octet_text n = [digit_char (n div 100), digit_char (n div 10 mod 10), digit_char (n mod 10)]"
        using 3 by (simp add: octet_text_def)
    qed
  qed
qed

lemma two_digits: "y < 10 \<Longrightarrow> y' < 10 \<Longrightarrow> 10 * x + y = 10 * x' + (y' :: nat) \<longleftrightarrow> x = x' \<and> y = y'"
proof
  assume y: "y < 10" "y' < 10" and e: "10 * x + y = 10 * x' + y'"
  have "(10 * x + y) div 10 = x" "(10 * x' + y') div 10 = x'" using y by simp_all
  then show "x = x' \<and> y = y'" using e by simp
qed simp

lemma three_digits:
  "z < 10 \<Longrightarrow> z' < 10 \<Longrightarrow> y < 10 \<Longrightarrow> y' < 10 \<Longrightarrow>
   100 * x + 10 * y + z = 100 * x' + 10 * y' + (z' :: nat) \<longleftrightarrow> x = x' \<and> y = y' \<and> z = z'"
  using two_digits [of z z' "10 * x + y" "10 * x' + y'"] two_digits [of y y' x x'] by (simp add: algebra_simps)

lemma tail_octets:
  assumes "c < 256" "d < 256"
  shows "[] \<in> set (rx_rest (Cat octet (Cat (Lit ''.'') octet)) (octet_text c @ CHR ''.'' # octet_text d))"
  using is_digit_octet [OF assms(1)] is_digit_octet [OF assms(2)]
  by (simp add: rest_after_octet end_after_octet del: rx_rest.simps)

text \<open>The text before the second octet, and the second octet itself.\<close>

lemma first_octet:
  assumes "a < 256"
  shows "take 3 (octet_text a @ CHR ''.'' # rest) = ''10.'' \<longleftrightarrow> a = 10"
    and "take 4 (octet_text a @ CHR ''.'' # rest) = ''172.'' \<longleftrightarrow> a = 172"
    and "take 4 (octet_text a @ CHR ''.'' # rest) = ''192.'' \<longleftrightarrow> a = 192"
proof -
  show "take 3 (octet_text a @ CHR ''.'' # rest) = ''10.'' \<longleftrightarrow> a = 10"
    using assms
  proof (cases rule: octet_cases)
    case one
    then show ?thesis by (simp add: digit_char_eq)
  next
    case (two x y)
    then show ?thesis using two_digits [of y 0 x 1] by (simp add: digit_char_eq)
  next
    case (three x y z)
    then show ?thesis by (simp add: digit_char_eq)
  qed
  show "take 4 (octet_text a @ CHR ''.'' # rest) = ''172.'' \<longleftrightarrow> a = 172"
    using assms
  proof (cases rule: octet_cases)
    case one
    then show ?thesis by (simp add: digit_char_eq)
  next
    case (two x y)
    then show ?thesis by (simp add: digit_char_eq)
  next
    case (three x y z)
    then show ?thesis using three_digits [of z 2 y 7 x 1] three_digits [of z 2 y 9 x 1] by (simp add: digit_char_eq)
  qed
  show "take 4 (octet_text a @ CHR ''.'' # rest) = ''192.'' \<longleftrightarrow> a = 192"
    using assms
  proof (cases rule: octet_cases)
    case one
    then show ?thesis by (simp add: digit_char_eq)
  next
    case (two x y)
    then show ?thesis by (simp add: digit_char_eq)
  next
    case (three x y z)
    then show ?thesis using three_digits [of z 2 y 7 x 1] three_digits [of z 2 y 9 x 1] by (simp add: digit_char_eq)
  qed
qed

lemma one_of: "rx_rest (Cat (Repeat (Suc 0) (Suc 0) (Range lo hi)) r) (c # cs) = (if lo \<le> c \<and> c \<le> hi then rx_rest r cs else [])"
  by auto

text \<open>An octet that begins with the digit \<open>k\<close> and a digit between \<open>l\<close> and \<open>h\<close>.\<close>

definition octet_begins :: "nat \<Rightarrow> nat \<Rightarrow> nat \<Rightarrow> nat \<Rightarrow> bool" where
  "octet_begins k l h b \<longleftrightarrow>
     10 \<le> b \<and> b < 100 \<and> b div 10 = k \<and> l \<le> b mod 10 \<and> b mod 10 \<le> h \<or>
     100 \<le> b \<and> b div 100 = k \<and> l \<le> b div 10 mod 10 \<and> b div 10 mod 10 \<le> h"

lemma rest_prefix_digit:
  "rx_rest (Cat (Lit (p @ [d])) r) (p @ s) = (case s of [] \<Rightarrow> [] | c # cs \<Rightarrow> if c = d then rx_rest r cs else [])"
  by (cases s) auto

lemma second_octet:
  assumes "b < 256" "0 < k" "k < 10" "l < 10" "h < 10"
  shows "set (rx_rest (Cat (Lit (p @ [digit_char k])) (Cat (Repeat (Suc 0) (Suc 0) (Range (digit_char l) (digit_char h)))
           (Cat (Repeat 0 1 digit) (Cat (Lit ''.'') r)))) (p @ octet_text b @ CHR ''.'' # rest)) =
    (if octet_begins k l h b then set (rx_rest r rest) else {})"
    (is "set (rx_rest (Cat _ (Cat _ ?tail)) _) = _")
proof -
  have e: "digit_char x = digit_char k \<longleftrightarrow> x = k" if "x < 10" for x
    using that assms(3) by (auto simp: digit_char_eq digit_char_code)
  have le: "digit_char l \<le> digit_char y \<longleftrightarrow> l \<le> y" "digit_char y \<le> digit_char h \<longleftrightarrow> y \<le> h" if "y < 10" for y
    using that assms(4,5) by (simp_all add: digit_char_le digit_char_code)
  have start: "set (rx_rest (Cat (Lit (p @ [digit_char k])) (Cat (Repeat (Suc 0) (Suc 0) (Range (digit_char l) (digit_char h))) ?tail))
      (p @ digit_char x # c # s)) = (if x = k \<and> digit_char l \<le> c \<and> c \<le> digit_char h then set (rx_rest ?tail s) else {})"
    if "x < 10" for x c s
    unfolding rest_prefix_digit list.case one_of e [OF that] by (auto simp del: rx_rest.simps)
  show ?thesis
    using assms(1)
  proof (cases rule: octet_cases)
    case one
    have "\<not> digit_char l \<le> CHR ''.''" using assms(4) by (simp add: digit_char_le)
    then show ?thesis using start [of b "CHR ''.''" rest] one by (simp add: octet_begins_def del: rx_rest.simps)
  next
    case (two x y)
    have "octet_begins k l h b \<longleftrightarrow> x = k \<and> l \<le> y \<and> y \<le> h" using two(1,2,3,4) by (simp add: octet_begins_def)
    then show ?thesis
      using start [of x "digit_char y" "CHR ''.'' # rest"] two(1,2,5) le [of y] rest_after_octet [of "[]" 0 1 r rest]
      by (simp del: rx_rest.simps)
  next
    case (three x y z)
    have "b = 10 * (10 * x + y) + z" using three(5) by simp
    then have "b div 10 = 10 * x + y" using three(4) by simp
    then have "b div 10 mod 10 = y" "b div 10 div 10 = x" using three(3) by simp_all
    moreover have "b div 100 = b div 10 div 10" by (simp add: div_mult2_eq [symmetric])
    moreover have "100 \<le> b" using three(2,5) by simp
    ultimately have "octet_begins k l h b \<longleftrightarrow> x = k \<and> l \<le> y \<and> y \<le> h" by (simp add: octet_begins_def)
    moreover have "list_all is_digit_char [digit_char z]"
      using three(4) by (simp add: is_digit_char_def digit_char_le)
    ultimately show ?thesis
      using start [of x "digit_char y" "digit_char z # CHR ''.'' # rest"] three(1,3,6) le [of y]
        rest_after_octet [of "[digit_char z]" 0 1 r rest]
      by (simp del: rx_rest.simps)
  qed
qed

lemma regex_match_set: "regex_match r s \<longleftrightarrow> [] \<in> set (rx_rest r s)"
  by (auto simp: regex_match_def list_ex_iff)

lemma digit_char_chars:
  "digit_char 0 = CHR ''0''" "digit_char 1 = CHR ''1''" "digit_char 2 = CHR ''2''" "digit_char 3 = CHR ''3''"
  "digit_char 6 = CHR ''6''" "digit_char 8 = CHR ''8''" "digit_char 9 = CHR ''9''"
  by code_simp+

lemma rest_prefix_n:
  "length p = n \<Longrightarrow> rx_rest (Cat (Lit p) r) s = (if take n s = p then rx_rest r (drop n s) else [])"
  by auto

lemma alternatives:
  fixes a b :: nat and rest :: string
  defines "s \<equiv> octet_text a @ CHR ''.'' # octet_text b @ CHR ''.'' # rest"
  assumes "a < 256" "b < 256"
  shows "[] \<in> set (rx_rest (Cat (Lit ''10.'') (Cat octet (Cat (Lit ''.'') r))) s) \<longleftrightarrow> a = 10 \<and> [] \<in> set (rx_rest r rest)"
    and "[] \<in> set (rx_rest (Cat (Lit ''192.168.'') r) s) \<longleftrightarrow> a = 192 \<and> b = 168 \<and> [] \<in> set (rx_rest r rest)"
proof -
  have o: "octet_text 10 = ''10''" "octet_text 192 = ''192''" "octet_text 168 = ''168''" by code_simp+
  have t: "take 3 s = ''10.'' \<longleftrightarrow> a = 10" "take 4 s = ''192.'' \<longleftrightarrow> a = 192"
    unfolding s_def by (rule first_octet [OF assms(2)])+
  have "rx_rest (Cat (Lit ''10.'') r') s = (if a = 10 then rx_rest r' (drop 3 s) else [])" for r'
    unfolding t(1) [symmetric] by (rule rest_prefix_n) simp
  moreover have "drop 3 s = octet_text b @ CHR ''.'' # rest" if "a = 10" using that by (simp add: s_def o)
  ultimately show "[] \<in> set (rx_rest (Cat (Lit ''10.'') (Cat octet (Cat (Lit ''.'') r))) s) \<longleftrightarrow> a = 10 \<and> [] \<in> set (rx_rest r rest)"
    using is_digit_octet [OF assms(3)] by (cases "a = 10") (simp_all add: rest_after_octet del: rx_rest.simps)
  have b: "take 4 (octet_text b @ CHR ''.'' # rest) = ''168.'' \<longleftrightarrow> b = 168"
    using assms(3)
  proof (cases rule: octet_cases)
    case (three x y z)
    then show ?thesis using three_digits [of z 8 y 6 x 1] by (simp add: digit_char_eq)
  qed (simp_all add: digit_char_eq)
  have l: "4 \<le> length s" using is_digit_octet [OF assms(2)] is_digit_octet [OF assms(3)] by (simp add: s_def)
  have "take 8 s = take 4 s @ take 4 (drop 4 s)" using take_add [of 4 4 s] by simp
  then have "take 8 s = ''192.168.'' \<longleftrightarrow> take 4 s = ''192.'' \<and> take 4 (drop 4 s) = ''168.''"
    using append_eq_append_conv [of "take 4 s" "''192.''" "take 4 (drop 4 s)" "''168.''"] l by simp
  also have "\<dots> \<longleftrightarrow> a = 192 \<and> b = 168"
    unfolding t(2) using b by (auto simp: s_def o simp del: take_append)
  finally have t8: "take 8 s = ''192.168.'' \<longleftrightarrow> a = 192 \<and> b = 168" .
  have "rx_rest (Cat (Lit ''192.168.'') r) s = (if a = 192 \<and> b = 168 then rx_rest r (drop 8 s) else [])"
    unfolding t8 [symmetric] by (rule rest_prefix_n) simp
  moreover have "drop 8 s = rest" if "a = 192" "b = 168" using that by (simp add: s_def o)
  ultimately show "[] \<in> set (rx_rest (Cat (Lit ''192.168.'') r) s) \<longleftrightarrow> a = 192 \<and> b = 168 \<and> [] \<in> set (rx_rest r rest)"
    by (cases "a = 192 \<and> b = 168") (auto simp del: rx_rest.simps)
qed

text \<open>The addresses the pattern accepts, among those written by \<^verbatim>\<open>inet_ntop\<close>.\<close>

lemma begins_172:
  assumes "a < 256" "b < 256" "0 < k" "k < 10" "l < 10" "h < 10" "q = ''172.'' @ [digit_char k]"
    "lo = digit_char l" "hi = digit_char h"
  shows "[] \<in> set (rx_rest (Cat (Lit q) (Cat (Repeat (Suc 0) (Suc 0) (Range lo hi)) (Cat (Repeat 0 1 digit) (Cat (Lit ''.'') r))))
       (octet_text a @ CHR ''.'' # octet_text b @ CHR ''.'' # rest)) \<longleftrightarrow>
     a = 172 \<and> octet_begins k l h b \<and> [] \<in> set (rx_rest r rest)"
proof -
  let ?s = "octet_text a @ CHR ''.'' # octet_text b @ CHR ''.'' # rest"
  have o: "octet_text 172 = ''172''" by code_simp
  show ?thesis
  proof (cases "a = 172")
    case True
    have "?s = ''172.'' @ octet_text b @ CHR ''.'' # rest" using True o by simp
    then show ?thesis unfolding assms(7-9) by (simp only: second_octet [OF assms(2-6)] True) simp
  next
    case False
    have n: "take 4 ?s \<noteq> ''172.''" using first_octet(2) [OF assms(1)] False by blast
    have "take 5 ?s \<noteq> q"
    proof
      assume "take 5 ?s = q"
      then have "take 4 (take 5 ?s) = ''172.''" by (simp only: assms(7)) simp
      then show False using n by (simp only: take_take) simp
    qed
    moreover have "length q = 5" by (simp add: assms(7))
    ultimately show ?thesis using False rest_prefix_n [of q 5 _ ?s] by (simp del: rx_rest.simps)
  qed
qed

lemma local_v4_dotted:
  assumes "a < 256" "b < 256" "c < 256" "d < 256"
  shows "regex_match local_v4_regex (dotted a b c d) \<longleftrightarrow>
     a = 10 \<or> a = 172 \<and> (16 \<le> b \<and> b \<le> 31 \<or> 160 \<le> b) \<or> a = 192 \<and> b = 168"
proof -
  let ?rest = "octet_text c @ CHR ''.'' # octet_text d"
  let ?s = "octet_text a @ CHR ''.'' # octet_text b @ CHR ''.'' # ?rest"
  let ?r = "Cat octet (Cat (Lit ''.'') octet)"
  have t: "[] \<in> set (rx_rest ?r ?rest)" by (rule tail_octets [OF assms(3,4)])
  have "list_all (\<lambda>b. (octet_begins 1 6 9 b \<or> octet_begins 2 0 9 b \<or> octet_begins 3 0 1 b) =
      (16 \<le> b \<and> b \<le> 31 \<or> 160 \<le> b)) [0..<256]" by code_simp
  then have b: "octet_begins 1 6 9 b \<or> octet_begins 2 0 9 b \<or> octet_begins 3 0 1 b \<longleftrightarrow> 16 \<le> b \<and> b \<le> 31 \<or> 160 \<le> b"
    using assms(2) by (simp add: list_all_iff)
  have alt: "[] \<in> set (rx_rest (Alt x y) s) \<longleftrightarrow> [] \<in> set (rx_rest x s) \<or> [] \<in> set (rx_rest y s)" for x y s by simp
  have k: "[] \<in> set (rx_rest (Cat (Lit q) (Cat (Repeat 1 1 (Range lo hi)) (Cat (Repeat 0 1 digit) (Cat (Lit ''.'') ?r)))) ?s) \<longleftrightarrow>
      a = 172 \<and> octet_begins k l h b"
    if "0 < k" "k < 10" "l < 10" "h < 10" "q = ''172.'' @ [digit_char k]" "lo = digit_char l" "hi = digit_char h"
    for k l h q lo hi
    unfolding One_nat_def [symmetric] using begins_172 [OF assms(1,2) that, of ?r ?rest] t by (simp only: One_nat_def) simp
  have k1: "[] \<in> set (rx_rest (Cat (Lit ''172.1'') (Cat (Repeat 1 1 (Range CHR ''6'' CHR ''9'')) (Cat (Repeat 0 1 digit)
      (Cat (Lit ''.'') ?r)))) ?s) \<longleftrightarrow> a = 172 \<and> octet_begins 1 6 9 b" by (rule k) (simp_all add: digit_char_chars digit_char_chars(2) [unfolded One_nat_def])
  have k2: "[] \<in> set (rx_rest (Cat (Lit ''172.2'') (Cat (Repeat 1 1 digit) (Cat (Repeat 0 1 digit)
      (Cat (Lit ''.'') ?r)))) ?s) \<longleftrightarrow> a = 172 \<and> octet_begins 2 0 9 b" by (rule k) (simp_all add: digit_char_chars digit_char_chars(2) [unfolded One_nat_def])
  have k3: "[] \<in> set (rx_rest (Cat (Lit ''172.3'') (Cat (Repeat 1 1 (Range CHR ''0'' CHR ''1'')) (Cat (Repeat 0 1 digit)
      (Cat (Lit ''.'') ?r)))) ?s) \<longleftrightarrow> a = 172 \<and> octet_begins 3 0 1 b" by (rule k) (simp_all add: digit_char_chars digit_char_chars(2) [unfolded One_nat_def])
  show ?thesis
    unfolding regex_match_set local_v4_regex_def alt dotted_def alternatives [OF assms(1,2), of ?r ?rest] k1 k2 k3
    using t b by blast
qed

section \<open>What is chosen\<close>

text \<open>
  C37: Of the addresses \<^verbatim>\<open>inet_ntop\<close> writes, the pattern for local addresses accepts 10.x.x.x,
  192.168.x.x and 172.16.x.x to 172.31.x.x, as it means to, and also 172.160.x.x to
  172.255.x.x, which are public.
\<close>

theorem local_v4_accepts:
  assumes "a < 256" "b < 256" "c < 256" "d < 256"
  shows "regex_match local_v4_regex (dotted a b c d) \<longleftrightarrow>
     a = 10 \<or> a = 172 \<and> (16 \<le> b \<and> b \<le> 31 \<or> 160 \<le> b) \<or> a = 192 \<and> b = 168"
  by (rule local_v4_dotted [OF assms])

theorem local_v4_accepts_witness:
  "regex_match local_v4_regex (dotted 172 217 16 195) \<and> dotted 172 217 16 195 = ''172.217.16.195''"
proof
  show "regex_match local_v4_regex (dotted 172 217 16 195)" using local_v4_accepts [of 172 217 16 195] by simp
  show "dotted 172 217 16 195 = ''172.217.16.195''" by code_simp
qed

text \<open>The comparison is one \<^verbatim>\<open>std::sort\<close> may be called with.\<close>

lemma better_strict_weak:
  "\<not> better p a a"
  "better p a b \<Longrightarrow> better p b c \<Longrightarrow> better p a c"
  "\<not> better p a b \<Longrightarrow> \<not> better p b a \<Longrightarrow> \<not> better p b c \<Longrightarrow> \<not> better p c b \<Longrightarrow> \<not> better p a c \<and> \<not> better p c a"
  by (auto simp: better_def split: if_split_asm)

lemma fill_field_length: "length (fill_field n s) = n"
  by (simp add: fill_field_def Let_def)

lemma fill_field_text: "length s < n \<Longrightarrow> CHR 0x00 \<notin> set s \<Longrightarrow> c_str (string_of (fill_field n s)) = s"
proof -
  assume a: "length s < n" "CHR 0x00 \<notin> set s"
  have z: "char_of_byte 0 = CHR 0x00" by (simp add: char_of_byte_def char_of_def)
  have "replicate (n - length s) (0 :: byte) = 0 # replicate (n - length s - 1) 0"
    using a(1) by (cases "n - length s") simp_all
  then have "fill_field n s = bytes_of s @ 0 # replicate (n - length s - 1) 0"
    using a(1) by (simp add: fill_field_def Let_def)
  then have "string_of (fill_field n s) = string_of (bytes_of s) @ CHR 0x00 # string_of (replicate (n - length s - 1) 0)"
    by (simp add: string_of_def z del: string_of_bytes_of)
  moreover have "\<And>c. c \<in> set s \<Longrightarrow> c \<noteq> CHR 0x00" using a(2) by auto
  ultimately show ?thesis by (simp add: c_str_def takeWhile_append2)
qed

text \<open>
  C36: The address handed out for pairing is that of an interface no other interface outranks,
  by the name among those of the same rank, in fields of the sizes of the structure; an IPv4
  address is readable there as a C string.
\<close>

theorem pairing_address:
  assumes "get_local_ip_and_mac p sort_by ok (Some found) = (Some data, lost)"
    and "set (sort_by (better p) found) = set found"
    and "sorted_wrt (\<lambda>x y. \<not> better p y x) (sort_by (better p) found)"
  shows "length (ipAddr data) = 16 \<and> length (macAddr data) = 18 \<and> lost = 0 \<and>
    (\<exists>n \<in> set found. ipAddr data = fill_field 16 (if_ipAddress n) \<and> macAddr data = fill_field 18 (if_macAddress n) \<and>
       (\<forall>m \<in> set found. rankIp p m < rankIp p n \<or>
          rankIp p m = rankIp p n \<and> ToLowerString (ifName n) \<le> ToLowerString (ifName m)) \<and>
       (length (if_ipAddress n) < 16 \<and> CHR 0x00 \<notin> set (if_ipAddress n) \<longrightarrow>
          c_str (string_of (ipAddr data)) = if_ipAddress n))"
proof -
  obtain n ns where s: "sort_by (better p) found = n # ns"
    "data = \<lparr>ipAddr = fill_field 16 (if_ipAddress n), macAddr = fill_field 18 (if_macAddress n)\<rparr>" "lost = 0"
    using assms(1)
    by (auto simp: get_local_ip_and_mac_def fill_field_def Let_def bytes_of_def split: list.split_asm if_split_asm)
  have "n \<in> set found" using assms(2) s(1) by auto
  moreover have "rankIp p m < rankIp p n \<or> rankIp p m = rankIp p n \<and> ToLowerString (ifName n) \<le> ToLowerString (ifName m)"
    if "m \<in> set found" for m
  proof -
    have "m \<in> insert n (set ns)" using that assms(2) s(1) by simp
    then have "\<not> better p m n" using assms(3) s(1) better_strict_weak(1) by auto
    then show ?thesis by (auto simp: better_def not_less split: if_split_asm)
  qed
  ultimately have "n \<in> set found \<and> ipAddr data = fill_field 16 (if_ipAddress n) \<and> macAddr data = fill_field 18 (if_macAddress n) \<and>
      (\<forall>m \<in> set found. rankIp p m < rankIp p n \<or>
         rankIp p m = rankIp p n \<and> ToLowerString (ifName n) \<le> ToLowerString (ifName m)) \<and>
      (length (if_ipAddress n) < 16 \<and> CHR 0x00 \<notin> set (if_ipAddress n) \<longrightarrow>
         c_str (string_of (ipAddr data)) = if_ipAddress n)"
    using s(2) by (simp add: fill_field_text)
  moreover have "length (ipAddr data) = 16 \<and> length (macAddr data) = 18 \<and> lost = 0"
    using s(2,3) by (simp add: fill_field_length)
  ultimately show ?thesis by blast
qed

text \<open>A laptop with a virtual bridge and two networks; insertion sort.\<close>

definition demo_interfaces :: "net_if list" where
  "demo_interfaces =
     unix_interfaces Linux
       [\<lparr>ifa_name = ''lo'', ifa_addr = Some (AF_INET (Some ''127.0.0.1'')), ifa_loopback = True\<rparr>,
        \<lparr>ifa_name = ''virbr0'', ifa_addr = Some (AF_INET (Some ''192.168.122.1'')), ifa_loopback = False\<rparr>,
        \<lparr>ifa_name = ''wlan0'', ifa_addr = Some (AF_INET (Some ''192.168.1.7'')), ifa_loopback = False\<rparr>,
        \<lparr>ifa_name = ''wlan0'', ifa_addr = Some (AF_PACKET None [1, 2, 3, 4, 5, 171, 0, 0]), ifa_loopback = False\<rparr>]"

fun insort_by :: "('a \<Rightarrow> 'a \<Rightarrow> bool) \<Rightarrow> 'a \<Rightarrow> 'a list \<Rightarrow> 'a list" where
  "insort_by lt x [] = [x]"
| "insort_by lt x (y # ys) = (if lt y x then y # insort_by lt x ys else x # y # ys)"

theorem pairing_address_witness:
  "\<exists>data. get_local_ip_and_mac Linux (\<lambda>lt xs. foldr (insort_by lt) xs []) True (Some demo_interfaces) = (Some data, 0) \<and>
     length (ipAddr data) = 16 \<and> c_str (string_of (ipAddr data)) = ''192.168.1.7'' \<and>
     c_str (string_of (macAddr data)) = ''01:02:03:04:05:AB''"
proof -
  let ?sort = "\<lambda>lt xs. foldr (insort_by lt) xs ([] :: net_if list)"
  define data where "data = \<lparr>ipAddr = fill_field 16 ''192.168.1.7'', macAddr = fill_field 18 ''01:02:03:04:05:AB''\<rparr>"
  have g: "get_local_ip_and_mac Linux ?sort True (Some demo_interfaces) = (Some data, 0)"
    unfolding data_def by code_simp
  have s: "set (?sort (better Linux) demo_interfaces) = set demo_interfaces"
    "sorted_wrt (\<lambda>x y. \<not> better Linux y x) (?sort (better Linux) demo_interfaces)" by code_simp+
  from pairing_address [OF g s] g show ?thesis by (auto simp: data_def fill_field_text)
qed

end
