(* ===== verification/BtApi.thy ===== *)
theory BtApi
  imports BTUtils
begin

text \<open>
  \<^verbatim>\<open>common-cpp/src/api/bt_api.cpp\<close>: the Bluetooth functions the desktop application calls. The
  Bluetooth libraries are inputs: what a scan finds, which devices are known, and what the
  calls return. The tables handed out are kept with their size, so that every write into
  them is checked.
\<close>

section \<open>Tables of devices\<close>

record bt_device =
  bt_name :: bytes
  bt_address :: bytes

definition DEVICE_LIMIT :: nat where "DEVICE_LIMIT = 20"

text \<open>\<^verbatim>\<open>malloc\<close> and \<^verbatim>\<open>memset\<close> of \<open>n\<close> devices.\<close>

definition device_table :: "nat \<Rightarrow> bt_device list" where
  "device_table n = replicate n \<lparr>bt_name = replicate 255 0, bt_address = replicate 18 0\<rparr>"

text \<open>\<^verbatim>\<open>strcpy\<close> writes the text and its end; \<^verbatim>\<open>strcpy_s\<close> ends the program when it does not fit.\<close>

definition strcpy :: "bytes \<Rightarrow> string \<Rightarrow> fault + bytes" where
  "strcpy dst s = buf_write dst 0 (bytes_of (c_str s) @ [0])"

definition strcpy_s :: "bytes \<Rightarrow> nat \<Rightarrow> string \<Rightarrow> fault + bytes" where
  "strcpy_s dst n s = (if length (c_str s) < n then strcpy dst s else Inl Terminate)"

definition put_device ::
  "(bytes \<Rightarrow> nat \<Rightarrow> string \<Rightarrow> fault + bytes) \<Rightarrow> nat \<Rightarrow> string \<Rightarrow> string \<Rightarrow> bt_device list \<Rightarrow> fault + bt_device list" where
  "put_device copy idx dev_name dev_address devs =
     (if length devs \<le> idx then Inl BufferOverflow
      else
        bind_err (copy (bt_name (devs ! idx)) 255 dev_name) (\<lambda>n.
        bind_err (copy (bt_address (devs ! idx)) 18 dev_address) (\<lambda>a.
        Inr (devs[idx := \<lparr>bt_name = n, bt_address = a\<rparr>]))))"

section \<open>Availability\<close>

text \<open>\<open>radio\<close>: \<^verbatim>\<open>BluetoothFindFirstRadio\<close> found one.\<close>

definition bt_is_available :: "platform \<Rightarrow> bool \<Rightarrow> int \<Rightarrow> int \<Rightarrow> bool" where
  "bt_is_available p radio dev_id sock =
     (case p of Windows \<Rightarrow> radio | Linux \<Rightarrow> \<not> (dev_id < 0 \<or> sock < 0) | Apple \<Rightarrow> False)"

section \<open>Scanning\<close>

text \<open>
  The results of \<^verbatim>\<open>WSALookupServiceNextW\<close> in turn, with the name as UTF-8; \<open>None\<close> ends the
  scan. The value is the number of devices and the table.
\<close>

fun win_scan :: "(64 word \<times> string) option list \<Rightarrow> nat \<Rightarrow> bt_device list \<Rightarrow> fault + nat \<times> bt_device list" where
  "win_scan [] idx devs = Inr (idx, devs)"
| "win_scan (r # rs) idx devs =
     (if idx \<ge> DEVICE_LIMIT then Inr (idx, devs)
      else
        (case r of
           None \<Rightarrow> Inr (idx, devs)
         | Some (btAddr, dev_name) \<Rightarrow>
             bind_err (put_device strcpy_s idx dev_name (snd (ba2str btAddr)) devs) (win_scan rs (idx + 1))))"

text \<open>The devices an inquiry found: the address as text and the name, if it could be read.\<close>

fun linux_scan :: "(string \<times> string option) list \<Rightarrow> nat \<Rightarrow> bt_device list \<Rightarrow> fault + bt_device list" where
  "linux_scan [] i devs = Inr devs"
| "linux_scan ((addr, remote_name) # rs) i devs =
     bind_err (put_device (\<lambda>dst n. strcpy dst) i (case remote_name of None \<Rightarrow> ''[unknown]'' | Some nm \<Rightarrow> nm) addr devs)
       (linux_scan rs (i + 1))"

record scan_calls =
  wsa_startup :: int
  lookup_begin :: int
  lookup_next :: "(64 word \<times> string) option list"
  hci_route :: int
  hci_sock :: int
  hci_inquiry :: "(string \<times> string option) list option"
  table_malloc :: bool

text \<open>The table, if one is returned, and \<^verbatim>\<open>*count\<close>, if \<open>count\<close> is not null.\<close>

definition bt_scan_devices ::
  "platform \<Rightarrow> scan_calls \<Rightarrow> bool \<Rightarrow> fault + bt_device list option \<times> nat option" where
  "bt_scan_devices p C count_null =
     (if count_null then Inr (None, None)
      else
        (case p of
           Windows \<Rightarrow>
             if wsa_startup C \<noteq> 0 then Inr (None, Some 0)
             else if lookup_begin C \<noteq> 0 then Inr (None, Some 0)
             else if \<not> table_malloc C then Inr (None, Some 0)
             else bind_err (win_scan (lookup_next C) 0 (device_table DEVICE_LIMIT))
                    (\<lambda>(idx, devs). Inr (Some devs, Some idx))
         | Linux \<Rightarrow>
             if hci_route C < 0 \<or> hci_sock C < 0 then Inr (None, Some 0)
             else
               (case hci_inquiry C of
                  None \<Rightarrow> Inr (None, Some 0)
                | Some ii \<Rightarrow>
                    if ii = [] then Inr (None, Some 0)
                    else if \<not> table_malloc C then Inl NullDeref
                    else bind_err (linux_scan ii 0 (device_table (length ii)))
                           (\<lambda>devs. Inr (Some devs, Some (length ii))))
         | Apple \<Rightarrow> Inr (None, Some 0)))"

section \<open>Paired devices\<close>

text \<open>\<^verbatim>\<open>"%02x"\<close>.\<close>

definition lower_hex_byte :: "byte \<Rightarrow> string" where
  "lower_hex_byte b = ToLowerString (hex_byte b)"

definition lower_ba_text :: "64 word \<Rightarrow> string" where
  "lower_ba_text btaddr = join_with (CHR '':'') (map (\<lambda>i. lower_hex_byte (ba_byte btaddr (5 - i))) [0..<6])"

text \<open>The loop over the devices \<^verbatim>\<open>BluetoothFindFirstDevice\<close> and its successor deliver.\<close>

fun paired_loop :: "(64 word \<times> string) list \<Rightarrow> nat \<Rightarrow> bt_device list \<Rightarrow> fault + nat \<times> bt_device list" where
  "paired_loop [] idx devs = Inr (idx, devs)"
| "paired_loop ((btAddr, dev_name) # ds) idx devs =
     bind_err (put_device strcpy_s idx dev_name (lower_ba_text btAddr) devs) (paired_loop ds (idx + 1))"

definition bt_get_paired_devices ::
  "platform \<Rightarrow> bool \<Rightarrow> (64 word \<times> string) list \<Rightarrow> bool \<Rightarrow> fault + bt_device list option \<times> nat option" where
  "bt_get_paired_devices p malloc_succeeds found count_null =
     (if count_null then Inr (None, None)
      else if p \<noteq> Windows then Inr (None, Some 0)
      else if \<not> malloc_succeeds then Inr (None, Some 0)
      else if found = [] then Inr (None, Some 0)
      else bind_err (paired_loop found 0 (device_table DEVICE_LIMIT)) (\<lambda>(idx, devs). Inr (Some devs, Some idx)))"

text \<open>
  \<^verbatim>\<open>bt_pair_device\<close> on Windows. An address is a union of a number and six bytes, so it has eight
  bytes: \<open>stack\<close> is what the local variable holds before \<^verbatim>\<open>sscanf_s\<close> (\<open>scan_hex\<close>) writes the
  bytes it converted. The addresses are those the search delivers.
\<close>

definition pair_address :: "byte list \<Rightarrow> nat list \<Rightarrow> byte list" where
  "pair_address stack ns = fold (\<lambda>(i, n) bs. bs[5 - i := word_of_nat n]) (enumerate 0 ns) stack"


definition bt_pair_device ::
  "platform \<Rightarrow> (string \<Rightarrow> nat list) \<Rightarrow> byte list \<Rightarrow> byte list list \<Rightarrow> int \<Rightarrow> string \<Rightarrow> bool" where
  "bt_pair_device p scan_hex stack found auth_result dev_address =
     (if p \<noteq> Windows then True
      else
        pair_address stack (scan_hex dev_address) \<in> set found \<and> (auth_result = 0 \<or> auth_result = 259))"

section \<open>Lemmas\<close>

definition tables_ok :: "bt_device list \<Rightarrow> bool" where
  "tables_ok devs \<longleftrightarrow> (\<forall>d \<in> set devs. length (bt_name d) = 255 \<and> length (bt_address d) = 18)"

lemma device_table_ok: "tables_ok (device_table n)" "length (device_table n) = n"
  by (simp_all add: tables_ok_def device_table_def)

lemma tables_ok_update:
  "tables_ok devs \<Longrightarrow> length n = 255 \<Longrightarrow> length a = 18 \<Longrightarrow> tables_ok (devs[i := \<lparr>bt_name = n, bt_address = a\<rparr>])"
  using set_update_subsetI [of devs "{d. length (bt_name d) = 255 \<and> length (bt_address d) = 18}" "\<lparr>bt_name = n, bt_address = a\<rparr>" i]
  by (auto simp: tables_ok_def)

lemma length_c_str: "length (c_str s) \<le> length s"
  by (simp add: c_str_def length_takeWhile_le)

lemma strcpy_fits: "length s < length dst \<Longrightarrow> \<exists>d. strcpy dst s = Inr d \<and> length d = length dst"
  using length_c_str [of s] by (simp add: strcpy_def buf_write_ok)

lemma put_device_ok:
  assumes "tables_ok devs" "length dev_name < 255" "length dev_address < 18"
    and "copy = strcpy_s \<or> copy = (\<lambda>dst n. strcpy dst)"
  shows "put_device copy idx dev_name dev_address devs = Inl BufferOverflow \<and> length devs \<le> idx \<or>
    (\<exists>devs'. put_device copy idx dev_name dev_address devs = Inr devs' \<and> idx < length devs \<and> tables_ok devs' \<and>
       length devs' = length devs)"
proof (cases "idx < length devs")
  case True
  then have l: "length (bt_name (devs ! idx)) = 255" "length (bt_address (devs ! idx)) = 18"
    using assms(1) by (simp_all add: tables_ok_def)
  obtain n a where "strcpy (bt_name (devs ! idx)) dev_name = Inr n" "length n = 255"
    "strcpy (bt_address (devs ! idx)) dev_address = Inr a" "length a = 18"
    using strcpy_fits [of dev_name "bt_name (devs ! idx)"] strcpy_fits [of dev_address "bt_address (devs ! idx)"]
      assms(2,3) l by auto
  moreover have "length (c_str dev_name) < 255" "length (c_str dev_address) < 18"
    using assms(2,3) length_c_str [of dev_name] length_c_str [of dev_address] by linarith+
  ultimately show ?thesis using True assms(1,4)
    by (auto simp: put_device_def strcpy_s_def tables_ok_update)
qed (simp add: put_device_def)

lemma length_ba2str: "length (snd (ba2str a)) = 17"
  by (simp add: ba2str_def ba_text_def length_join_hex Let_def del: map_map)

lemma length_join_with: "(\<And>s. s \<in> set ss \<Longrightarrow> length s = 2) \<Longrightarrow> length (join_with c ss) = 3 * length ss - 1"
  by (induction ss rule: induct_list012) auto

lemma length_lower_ba_text: "length (lower_ba_text a) = 17"
  unfolding lower_ba_text_def
  by (subst length_join_with) (auto simp: lower_hex_byte_def hex_byte_def ToLowerString_def)

text \<open>Scans stop at the end of the table; the other loops go on as long as there are devices.\<close>

lemma win_scan_ok:
  "tables_ok devs \<Longrightarrow> length devs = DEVICE_LIMIT \<Longrightarrow> idx \<le> DEVICE_LIMIT \<Longrightarrow>
   \<forall>btAddr nm. Some (btAddr, nm) \<in> set rs \<longrightarrow> length nm < 255 \<Longrightarrow>
   \<exists>n devs'. win_scan rs idx devs = Inr (n, devs') \<and> n \<le> DEVICE_LIMIT \<and> tables_ok devs' \<and> length devs' = DEVICE_LIMIT"
proof (induction rs idx devs rule: win_scan.induct)
  case (2 r rs idx devs)
  show ?case
  proof (cases "idx < DEVICE_LIMIT \<and> r \<noteq> None")
    case True
    then obtain btAddr nm where r: "r = Some (btAddr, nm)" by auto
    have "length nm < 255" using "2.prems"(4) r by auto
    moreover have "length (snd (ba2str btAddr)) < 18" by (simp add: length_ba2str)
    ultimately obtain devs' where d: "put_device strcpy_s idx nm (snd (ba2str btAddr)) devs = Inr devs'"
      "tables_ok devs'" "length devs' = length devs"
      using put_device_ok [OF "2.prems"(1), of nm "snd (ba2str btAddr)" strcpy_s idx] True "2.prems"(2) by auto
    then show ?thesis using "2.IH" [of "(btAddr, nm)" btAddr nm devs'] "2.prems" True r by (auto simp: not_le)
  next
    case False
    then show ?thesis using "2.prems" by (cases r) auto
  qed
qed simp

lemma linux_scan_ok:
  "tables_ok devs \<Longrightarrow> i + length rs = length devs \<Longrightarrow>
   \<forall>(addr, nm) \<in> set rs. length addr < 18 \<and> (\<forall>x. nm = Some x \<longrightarrow> length x < 255) \<Longrightarrow>
   \<exists>devs'. linux_scan rs i devs = Inr devs' \<and> tables_ok devs' \<and> length devs' = length devs"
proof (induction rs i devs rule: linux_scan.induct)
  case (2 addr remote_name rs i devs)
  let ?name = "case remote_name of None \<Rightarrow> ''[unknown]'' | Some nm \<Rightarrow> nm"
  have "length ?name < 255" "length addr < 18" using "2.prems"(3) by (auto split: option.split)
  from put_device_ok [OF "2.prems"(1) this, of "\<lambda>dst n. strcpy dst" i]
  obtain devs' where "put_device (\<lambda>dst n. strcpy dst) i ?name addr devs = Inr devs'" "tables_ok devs'"
    "length devs' = length devs" using "2.prems"(2) by auto
  then show ?case using "2.IH" [of devs'] "2.prems" by auto
qed simp

lemma paired_loop_ok:
  "tables_ok devs \<Longrightarrow> length devs = DEVICE_LIMIT \<Longrightarrow> idx \<le> DEVICE_LIMIT \<Longrightarrow> \<forall>(btAddr, nm) \<in> set ds. length nm < 255 \<Longrightarrow>
   if idx + length ds \<le> DEVICE_LIMIT
   then \<exists>devs'. paired_loop ds idx devs = Inr (idx + length ds, devs') \<and> tables_ok devs' \<and> length devs' = DEVICE_LIMIT
   else paired_loop ds idx devs = Inl BufferOverflow"
proof (induction ds idx devs rule: paired_loop.induct)
  case (2 btAddr nm ds idx devs)
  have "length nm < 255" "length (lower_ba_text btAddr) < 18" using "2.prems"(4) by (auto simp: length_lower_ba_text)
  from put_device_ok [OF "2.prems"(1) this, of strcpy_s idx]
  consider (full) "put_device strcpy_s idx nm (lower_ba_text btAddr) devs = Inl BufferOverflow" "DEVICE_LIMIT \<le> idx"
    | (put) devs' where "put_device strcpy_s idx nm (lower_ba_text btAddr) devs = Inr devs'" "idx < DEVICE_LIMIT"
        "tables_ok devs'" "length devs' = DEVICE_LIMIT"
    using "2.prems"(2) by auto
  then show ?case
  proof cases
    case full
    then show ?thesis by simp
  next
    case (put devs')
    then show ?thesis using "2.IH" [of devs'] "2.prems"(4) by (auto split: if_splits)
  qed
qed simp

lemma pair_address_top: "drop 6 (pair_address stack ns) = drop 6 stack"
proof -
  have "drop 6 (fold (\<lambda>(i, n) bs. bs[5 - i := word_of_nat n]) xs bs) = drop 6 bs" for xs :: "(nat \<times> nat) list" and bs :: "byte list"
    by (induction xs arbitrary: bs) (auto simp: drop_update_cancel)
  then show ?thesis by (simp add: pair_address_def)
qed

section \<open>What the application gets\<close>

text \<open>
  C38: With names of less than 255 bytes, a scan never writes outside the table it hands out
  and reports no more devices than the table has. The list of paired devices has the same
  20 places and no such limit: with 21 devices or more it is written past its end. Pairing
  finds no device at all unless the two bytes the code leaves uninitialised happen to be 0.
\<close>

theorem device_tables:
  assumes "\<forall>(btAddr, nm) \<in> set found. length nm < 255"
    and "\<forall>btAddr nm. Some (btAddr, nm) \<in> set (lookup_next C) \<longrightarrow> length nm < 255"
    and "\<forall>(addr, nm) \<in> set (case hci_inquiry C of None \<Rightarrow> [] | Some ii \<Rightarrow> ii).
           length addr < 18 \<and> (\<forall>x. nm = Some x \<longrightarrow> length x < 255)"
    and "table_malloc C"
    and "drop 6 stack \<noteq> [0, 0]" "\<forall>a \<in> set near. drop 6 a = [0, 0]"
  shows "(\<exists>table n. bt_scan_devices p C False = Inr (table, Some n) \<and>
      (\<forall>devs. table = Some devs \<longrightarrow> tables_ok devs \<and> n \<le> length devs)) \<and>
    (bt_get_paired_devices Windows True found False = Inl BufferOverflow \<longleftrightarrow> 20 < length found) \<and>
    \<not> bt_pair_device Windows scan_hex stack near auth_result dev_address"
proof (intro conjI)
  have t: "tables_ok (device_table DEVICE_LIMIT)" "length (device_table DEVICE_LIMIT) = DEVICE_LIMIT"
    by (rule device_table_ok)+
  obtain n devs where w: "win_scan (lookup_next C) 0 (device_table DEVICE_LIMIT) = Inr (n, devs)"
    "n \<le> DEVICE_LIMIT" "tables_ok devs" "length devs = DEVICE_LIMIT"
    using win_scan_ok [OF t _ assms(2), of 0] by auto
  have l: "\<exists>devs. linux_scan ii 0 (device_table (length ii)) = Inr devs \<and> tables_ok devs \<and> length devs = length ii"
    if "hci_inquiry C = Some ii" for ii
    using linux_scan_ok [of "device_table (length ii)" 0 ii] assms(3) that by (simp add: device_table_ok)
  show "\<exists>table n. bt_scan_devices p C False = Inr (table, Some n) \<and>
      (\<forall>devs. table = Some devs \<longrightarrow> tables_ok devs \<and> n \<le> length devs)"
    using w l assms(4) by (cases p; cases "hci_inquiry C") (auto simp: bt_scan_devices_def)
  show "bt_get_paired_devices Windows True found False = Inl BufferOverflow \<longleftrightarrow> 20 < length found"
    using paired_loop_ok [OF t _ assms(1), of 0]
    by (auto simp: bt_get_paired_devices_def DEVICE_LIMIT_def split: if_split_asm)
  have "pair_address stack ns \<notin> set near" for ns
    using assms(5,6) pair_address_top [of stack ns] by auto
  then show "\<not> bt_pair_device Windows scan_hex stack near auth_result dev_address" by (simp add: bt_pair_device_def)
qed

text \<open>A desk with 21 paired devices.\<close>

theorem device_tables_witness:
  "bt_get_paired_devices Windows True (replicate 21 (0x112233445566, ''Phone'')) False = Inl BufferOverflow \<and>
   \<not> bt_pair_device Windows (\<lambda>_. [1, 2, 3, 4, 5, 6]) [0, 0, 0, 0, 0, 0, 7, 7] [[6, 5, 4, 3, 2, 1, 0, 0]] 0 ''01:02:03:04:05:06''"
proof -
  let ?C = "\<lparr>wsa_startup = 0, lookup_begin = 0, lookup_next = [Some (0x112233445566, ''Phone''), None], hci_route = 0,
    hci_sock = 3, hci_inquiry = None, table_malloc = True\<rparr>"
  let ?stack = "[0, 0, 0, 0, 0, 0, 7, 7] :: byte list"
  let ?near = "[[6, 5, 4, 3, 2, 1, 0, 0]] :: byte list list"
  have h: "\<forall>(btAddr, nm) \<in> set (replicate 21 (0x112233445566, ''Phone'')). length nm < 255"
    "\<forall>btAddr nm. Some (btAddr, nm) \<in> set (lookup_next ?C) \<longrightarrow> length nm < 255"
    "\<forall>(addr, nm) \<in> set (case hci_inquiry ?C of None \<Rightarrow> [] | Some ii \<Rightarrow> ii).
       length addr < 18 \<and> (\<forall>x. nm = Some x \<longrightarrow> length x < 255)" "table_malloc ?C"
    "drop 6 ?stack \<noteq> [0, 0]" "\<forall>a \<in> set ?near. drop 6 a = [0, 0]"
    by auto
  from device_tables [OF h, of Windows "\<lambda>_. [1, 2, 3, 4, 5, 6]" 0 "''01:02:03:04:05:06''"] show ?thesis by simp
qed

end
