(* ===== verification/WinHelpers.thy ===== *)
theory WinHelpers
  imports Prelude
begin

text \<open>
  \<^verbatim>\<open>win-pcbiounlock/src/helpers.cpp\<close>: how the credential provider builds the packed buffer
  with which Windows logs a user on. Wide strings are lists of 16-bit characters without the
  final NUL, pointers of a 64-bit process are words of 64 bits. Whether memory can be had for a
  string or a buffer, and what the credential functions of Windows answer, are inputs.
\<close>

unbundle bit_operations_syntax

type_synonym wstr = "16 word list"

section \<open>Results and strings\<close>

datatype hresult =
    S_OK | S_FALSE | E_FAIL | E_INVALIDARG | E_OUTOFMEMORY | E_UNEXPECTED | E_NOTIMPL | E_ABORT
  | E_ARITHMETIC_OVERFLOW | E_WIN32 int | E_NT "32 word"

definition SUCCEEDED :: "hresult \<Rightarrow> bool" where
  "SUCCEEDED hr \<longleftrightarrow> hr = S_OK \<or> hr = S_FALSE"

text \<open>\<^verbatim>\<open>HRESULT_FROM_WIN32\<close> maps the error 0 to success.\<close>

definition HRESULT_FROM_WIN32 :: "int \<Rightarrow> hresult" where
  "HRESULT_FROM_WIN32 err = (if err = 0 then S_OK else E_WIN32 err)"

definition backslash_w :: "16 word" where "backslash_w = 0x5C"

text \<open>The bytes of a wide string, which are little-endian on every Windows platform.\<close>

definition wbytes :: "wstr \<Rightarrow> bytes" where
  "wbytes ws = concat (map (\<lambda>w. [ucast w, ucast (drop_bit 8 w)]) ws)"

definition SHStrDupW :: "(wstr \<Rightarrow> bool) \<Rightarrow> wstr \<Rightarrow> hresult \<times> wstr option" where
  "SHStrDupW mem s = (if mem s then (S_OK, Some s) else (E_OUTOFMEMORY, None))"

section \<open>Field descriptors\<close>

text \<open>\<open>fd_logo\<close>: the type of the field is the logo of the provider, otherwise it has none.\<close>

datatype field_type =
    CPFT_INVALID | CPFT_LARGE_TEXT | CPFT_SMALL_TEXT | CPFT_COMMAND_LINK | CPFT_EDIT_TEXT | CPFT_PASSWORD_TEXT
  | CPFT_TILE_IMAGE | CPFT_CHECKBOX | CPFT_COMBOBOX | CPFT_SUBMIT_BUTTON

record field_descriptor =
  fd_id :: nat
  fd_cpft :: field_type
  fd_label :: "wstr option"
  fd_logo :: bool

definition FieldDescriptorCopy :: "(wstr \<Rightarrow> bool) \<Rightarrow> field_descriptor \<Rightarrow> hresult \<times> field_descriptor option" where
  "FieldDescriptorCopy mem rcpfd =
     (let (hr, label) = (case fd_label rcpfd of Some l \<Rightarrow> SHStrDupW mem l | None \<Rightarrow> (S_OK, None))
      in if SUCCEEDED hr then (hr, Some (rcpfd\<lparr>fd_label := label\<rparr>)) else (hr, None))"

text \<open>\<open>made\<close>: there is memory for the descriptor itself.\<close>

definition FieldDescriptorCoAllocCopy ::
  "bool \<Rightarrow> (wstr \<Rightarrow> bool) \<Rightarrow> field_descriptor \<Rightarrow> hresult \<times> field_descriptor option" where
  "FieldDescriptorCoAllocCopy made mem rcpfd =
     (if made then
        (let (hr, label) = (case fd_label rcpfd of Some l \<Rightarrow> SHStrDupW mem l | None \<Rightarrow> (S_OK, None))
         in if SUCCEEDED hr then (hr, Some (rcpfd\<lparr>fd_label := label\<rparr>)) else (hr, None))
      else (E_OUTOFMEMORY, None))"

section \<open>Packing\<close>

text \<open>
  \<^verbatim>\<open>UNICODE_STRING\<close>: \<open>us_Buffer\<close> is the string a weak reference points to, or after packing
  the offset (and after unpacking the address) of its characters.
\<close>

record 'b unicode_string =
  us_Length :: "16 word"
  us_MaximumLength :: "16 word"
  us_Buffer :: 'b

datatype logon_message = KerbInteractiveLogon | KerbWorkstationUnlockLogon | NoMessage

datatype usage_scenario =
    CPUS_INVALID | CPUS_LOGON | CPUS_UNLOCK_WORKSTATION | CPUS_CHANGE_PASSWORD | CPUS_CREDUI | CPUS_PLAP

record 'b unlock_logon =
  MessageType :: logon_message
  LogonDomainName :: "'b unicode_string"
  UserName :: "'b unicode_string"
  Password :: "'b unicode_string"

text \<open>\<^verbatim>\<open>SizeTToUShort\<close> and \<^verbatim>\<open>UShortMult\<close> refuse what does not fit into 16 bits.\<close>

definition UnicodeStringInitWithString :: "wstr option \<Rightarrow> hresult \<times> wstr unicode_string option" where
  "UnicodeStringInitWithString pwz =
     (case pwz of
        None \<Rightarrow> (E_INVALIDARG, None)
      | Some s \<Rightarrow>
          if length s \<ge> 2 ^ 16 then (E_ARITHMETIC_OVERFLOW, None)
          else if 2 * length s \<ge> 2 ^ 16 then (E_ARITHMETIC_OVERFLOW, None)
          else (S_OK, Some \<lparr>us_Length = word_of_nat (2 * length s), us_MaximumLength = word_of_nat (2 * length s),
                            us_Buffer = s\<rparr>))"

definition KerbInteractiveUnlockLogonInit ::
  "wstr option \<Rightarrow> wstr option \<Rightarrow> wstr option \<Rightarrow> usage_scenario \<Rightarrow> hresult \<times> wstr unlock_logon option" where
  "KerbInteractiveUnlockLogonInit pwzDomain pwzUsername pwzPassword cpus =
     (case UnicodeStringInitWithString pwzDomain of
        (hr, None) \<Rightarrow> (hr, None)
      | (_, Some d) \<Rightarrow>
          (case UnicodeStringInitWithString pwzUsername of
             (hr, None) \<Rightarrow> (hr, None)
           | (_, Some u) \<Rightarrow>
               (case UnicodeStringInitWithString pwzPassword of
                  (hr, None) \<Rightarrow> (hr, None)
                | (_, Some p) \<Rightarrow>
                    (case cpus of
                       CPUS_UNLOCK_WORKSTATION \<Rightarrow>
                         (S_OK, Some \<lparr>MessageType = KerbWorkstationUnlockLogon, LogonDomainName = d, UserName = u, Password = p\<rparr>)
                     | CPUS_LOGON \<Rightarrow>
                         (S_OK, Some \<lparr>MessageType = KerbInteractiveLogon, LogonDomainName = d, UserName = u, Password = p\<rparr>)
                     | CPUS_CREDUI \<Rightarrow>
                         (S_OK, Some \<lparr>MessageType = NoMessage, LogonDomainName = d, UserName = u, Password = p\<rparr>)
                     | _ \<Rightarrow> (E_FAIL, None)))))"

text \<open>
  The packed buffer: the structure in its \<open>sz\<close> first bytes and the extra space after them.
  \<^verbatim>\<open>CopyMemory\<close> reads as many bytes of the string as \<^verbatim>\<open>Length\<close> says.
\<close>

record packed_logon =
  packed_struct :: "64 word unlock_logon"
  packed_extra :: bytes

definition PackedUnicodeStringCopy ::
  "nat \<Rightarrow> wstr unicode_string \<Rightarrow> nat \<Rightarrow> bytes \<Rightarrow> fault + 64 word unicode_string \<times> bytes" where
  "PackedUnicodeStringCopy sz rus pbBuffer extra =
     (if length (wbytes (us_Buffer rus)) < unat (us_Length rus) then Inl OutOfRange
      else bind_err (buf_write extra pbBuffer (take (unat (us_Length rus)) (wbytes (us_Buffer rus)))) (\<lambda>extra.
        Inr (\<lparr>us_Length = us_Length rus, us_MaximumLength = us_Length rus, us_Buffer = word_of_nat (sz + pbBuffer)\<rparr>, extra)))"

definition KerbInteractiveUnlockLogonPack ::
  "nat \<Rightarrow> (nat \<Rightarrow> bool) \<Rightarrow> wstr unlock_logon \<Rightarrow> fault + hresult \<times> (packed_logon \<times> nat) option" where
  "KerbInteractiveUnlockLogonPack sz mem rkiulIn =
     (let extraLen = unat (us_Length (LogonDomainName rkiulIn)) + unat (us_Length (UserName rkiulIn)) +
                     unat (us_Length (Password rkiulIn));
          cb = sz + extraLen
      in if \<not> mem cb then Inr (E_OUTOFMEMORY, None)
         else
           bind_err (PackedUnicodeStringCopy sz (LogonDomainName rkiulIn) 0 (replicate extraLen 0)) (\<lambda>(d, extra).
           let pbBuffer = unat (us_Length d) in
           bind_err (PackedUnicodeStringCopy sz (UserName rkiulIn) pbBuffer extra) (\<lambda>(u, extra).
           let pbBuffer = pbBuffer + unat (us_Length u) in
           bind_err (PackedUnicodeStringCopy sz (Password rkiulIn) pbBuffer extra) (\<lambda>(p, extra).
           Inr (S_OK, Some (\<lparr>packed_struct = \<lparr>MessageType = MessageType rkiulIn, LogonDomainName = d, UserName = u, Password = p\<rparr>,
                             packed_extra = extra\<rparr>, cb))))))"

text \<open>
  \<^verbatim>\<open>KerbInteractiveUnlockLogonUnpackInPlace\<close> turns the offsets into addresses if they lie in the
  buffer of \<open>cb\<close> bytes at \<open>base\<close>; the sums are those of 64-bit words.
\<close>

definition unpack_string :: "64 word \<Rightarrow> 64 word unicode_string \<Rightarrow> 64 word unicode_string" where
  "unpack_string base us = us\<lparr>us_Buffer := (if us_Buffer us \<noteq> 0 then base + us_Buffer us else 0)\<rparr>"

definition in_buffer :: "nat \<Rightarrow> 64 word unicode_string \<Rightarrow> bool" where
  "in_buffer cb us \<longleftrightarrow> us_Buffer us + ucast (us_MaximumLength us) \<le> word_of_nat cb"

definition KerbInteractiveUnlockLogonUnpackInPlace ::
  "nat \<Rightarrow> 64 word \<Rightarrow> nat \<Rightarrow> 64 word unlock_logon \<Rightarrow> 64 word unlock_logon" where
  "KerbInteractiveUnlockLogonUnpackInPlace sz base cb kiul =
     (if sz \<le> cb \<and> in_buffer cb (LogonDomainName kiul) \<and> in_buffer cb (UserName kiul) \<and> in_buffer cb (Password kiul)
      then kiul\<lparr>LogonDomainName := unpack_string base (LogonDomainName kiul),
                UserName := unpack_string base (UserName kiul), Password := unpack_string base (Password kiul)\<rparr>
      else kiul)"

section \<open>Names and passwords\<close>

definition DomainUsernameStringAlloc :: "(wstr \<Rightarrow> bool) \<Rightarrow> wstr \<Rightarrow> wstr \<Rightarrow> hresult \<times> wstr option" where
  "DomainUsernameStringAlloc mem pwszDomain pwszUsername =
     (let dest = pwszDomain @ [backslash_w] @ pwszUsername
      in if mem dest then (S_OK, Some dest) else (E_OUTOFMEMORY, None))"

text \<open>The lengths are the pointer differences of the code.\<close>

definition SplitDomainAndUsername :: "(wstr \<Rightarrow> bool) \<Rightarrow> wstr \<Rightarrow> hresult \<times> (wstr \<times> wstr) option" where
  "SplitDomainAndUsername mem pszQualifiedUserName =
     (if backslash_w \<notin> set pszQualifiedUserName then (E_UNEXPECTED, None)
      else
        let pchWhack = length (takeWhile (\<lambda>c. c \<noteq> backslash_w) pszQualifiedUserName);
            pchEnd = length pszQualifiedUserName - 1;
            lenDomain = pchWhack;
            lenUsername = pchEnd + 1 - (pchWhack + 1);
            pszDomain = take lenDomain pszQualifiedUserName;
            pszUsername = take lenUsername (drop (pchWhack + 1) pszQualifiedUserName)
        in if \<not> mem pszDomain then (E_OUTOFMEMORY, None)
           else if \<not> mem pszUsername then (E_OUTOFMEMORY, None)
           else (S_OK, Some (pszDomain, pszUsername)))"

text \<open>
  \<open>protection\<close>: what \<^verbatim>\<open>CredIsProtected\<close> says, if it succeeds (True: protected in some way).
  \<open>protect_size\<close>: the error and the size of the first call of \<^verbatim>\<open>CredProtect\<close>, or \<open>None\<close> when it
  succeeds; \<open>protect\<close>: the text the second call writes, or its error.
\<close>

record cred_functions =
  protection :: "wstr \<Rightarrow> bool option"
  protect_size :: "wstr \<Rightarrow> (int \<times> nat) option"
  cred_protect :: "wstr \<Rightarrow> int + wstr"

definition ERROR_INSUFFICIENT_BUFFER :: int where "ERROR_INSUFFICIENT_BUFFER = 122"

definition ProtectAndCopyString :: "cred_functions \<Rightarrow> (wstr \<Rightarrow> bool) \<Rightarrow> (nat \<Rightarrow> bool) \<Rightarrow> wstr \<Rightarrow> hresult \<times> wstr option" where
  "ProtectAndCopyString C mem buf pwzToProtect =
     (if \<not> mem pwzToProtect then (E_OUTOFMEMORY, None)
      else
        (case protect_size C pwzToProtect of
           None \<Rightarrow> (E_UNEXPECTED, None)
         | Some (dwErr, cchProtected) \<Rightarrow>
             if dwErr = ERROR_INSUFFICIENT_BUFFER \<and> 0 < cchProtected then
               if buf (2 * cchProtected) then
                 (case cred_protect C pwzToProtect of
                    Inr protected \<Rightarrow> (S_OK, Some protected)
                  | Inl err \<Rightarrow> (HRESULT_FROM_WIN32 err, None))
               else (E_OUTOFMEMORY, None)
             else (HRESULT_FROM_WIN32 dwErr, None)))"

definition ProtectIfNecessaryAndCopyPassword ::
  "cred_functions \<Rightarrow> (wstr \<Rightarrow> bool) \<Rightarrow> (nat \<Rightarrow> bool) \<Rightarrow> wstr \<Rightarrow> usage_scenario \<Rightarrow> hresult \<times> wstr option" where
  "ProtectIfNecessaryAndCopyPassword C mem buf pwzPassword cpus =
     (if pwzPassword \<noteq> [] then
        if \<not> mem pwzPassword then (E_OUTOFMEMORY, None)
        else
          let bCredAlreadyEncrypted = (protection C pwzPassword = Some True)
          in if cpus = CPUS_CREDUI \<or> bCredAlreadyEncrypted then SHStrDupW mem pwzPassword
             else ProtectAndCopyString C mem buf pwzPassword
      else SHStrDupW mem [])"

section \<open>The authentication package\<close>

text \<open>
  \<^verbatim>\<open>HRESULT_FROM_NT\<close> sets bit 28 of a status and keeps bit 31, which says whether it failed.
  \<open>lsa_connect\<close> and \<open>lsa_lookup\<close> are the answers of the local security authority.
\<close>

definition nt_failed :: "32 word \<Rightarrow> bool" where
  "nt_failed status \<longleftrightarrow> bit status 31"

definition HRESULT_FROM_NT :: "32 word \<Rightarrow> 32 word" where
  "HRESULT_FROM_NT status = status OR 0x10000000"

definition RetrieveNegotiateAuthPackage ::
  "32 word \<Rightarrow> (string \<Rightarrow> 32 word \<times> 32 word) \<Rightarrow> hresult \<times> 32 word option" where
  "RetrieveNegotiateAuthPackage lsa_connect lsa_lookup =
     (if \<not> nt_failed (HRESULT_FROM_NT lsa_connect) then
        (let (status, ulAuthPackage) = lsa_lookup ''Negotiate''
         in if \<not> nt_failed (HRESULT_FROM_NT status) then (S_OK, Some ulAuthPackage) else (E_NT (HRESULT_FROM_NT status), None))
      else (E_NT (HRESULT_FROM_NT lsa_connect), None))"

section \<open>Lemmas\<close>

lemma length_wbytes [simp]: "length (wbytes ws) = 2 * length ws"
  by (induction ws) (simp_all add: wbytes_def)

lemma UnicodeStringInit_Some:
  "UnicodeStringInitWithString pwz = (hr, Some us) \<Longrightarrow>
   \<exists>s. pwz = Some s \<and> hr = S_OK \<and> us_Buffer us = s \<and> 2 * length s < 2 ^ 16 \<and> unat (us_Length us) = 2 * length s"
proof -
  assume a: "UnicodeStringInitWithString pwz = (hr, Some us)"
  have "unat (word_of_nat (2 * length s) :: 16 word) = 2 * length s" if "2 * length s < 2 ^ 16" for s :: wstr
    unfolding unat_of_nat using that by (intro mod_less) simp
  then show ?thesis using a
    by (auto simp: UnicodeStringInitWithString_def simp del: of_nat_mult split: option.split_asm if_split_asm)
qed

lemma KerbInit_Some:
  assumes "KerbInteractiveUnlockLogonInit d u p cpus = (hr, Some k)"
  obtains ds us ps where "d = Some ds" "u = Some us" "p = Some ps"
    "us_Buffer (LogonDomainName k) = ds" "us_Buffer (UserName k) = us" "us_Buffer (Password k) = ps"
    "unat (us_Length (LogonDomainName k)) = 2 * length ds" "unat (us_Length (UserName k)) = 2 * length us"
    "unat (us_Length (Password k)) = 2 * length ps"
    "2 * length ds < 2 ^ 16" "2 * length us < 2 ^ 16" "2 * length ps < 2 ^ 16" "hr = S_OK"
  using assms
  by (auto simp: KerbInteractiveUnlockLogonInit_def dest!: UnicodeStringInit_Some
      split: prod.split_asm option.split_asm usage_scenario.split_asm)

lemma PackedCopy:
  assumes "unat (us_Length rus) = 2 * length (us_Buffer rus)" "length x = off"
  shows "PackedUnicodeStringCopy sz rus off (x @ replicate (2 * length (us_Buffer rus) + n) 0) =
    Inr (\<lparr>us_Length = us_Length rus, us_MaximumLength = us_Length rus, us_Buffer = word_of_nat (sz + off)\<rparr>,
         x @ wbytes (us_Buffer rus) @ replicate n 0)"
  using assms by (simp add: PackedUnicodeStringCopy_def buf_write_ok replicate_add)

lemma Pack_eq:
  assumes "KerbInteractiveUnlockLogonInit (Some d) (Some u) (Some p) cpus = (S_OK, Some k)"
    and "mem (sz + 2 * (length d + length u + length p))"
  shows "KerbInteractiveUnlockLogonPack sz mem k = Inr (S_OK, Some
    (\<lparr>packed_struct = \<lparr>MessageType = MessageType k,
        LogonDomainName = \<lparr>us_Length = us_Length (LogonDomainName k), us_MaximumLength = us_Length (LogonDomainName k),
                           us_Buffer = word_of_nat sz\<rparr>,
        UserName = \<lparr>us_Length = us_Length (UserName k), us_MaximumLength = us_Length (UserName k),
                    us_Buffer = word_of_nat (sz + 2 * length d)\<rparr>,
        Password = \<lparr>us_Length = us_Length (Password k), us_MaximumLength = us_Length (Password k),
                    us_Buffer = word_of_nat (sz + (2 * length d + 2 * length u))\<rparr>\<rparr>,
      packed_extra = wbytes d @ wbytes u @ wbytes p\<rparr>, sz + 2 * (length d + length u + length p)))"
proof -
  obtain b: "us_Buffer (LogonDomainName k) = d" "us_Buffer (UserName k) = u" "us_Buffer (Password k) = p"
    and l: "unat (us_Length (LogonDomainName k)) = 2 * length d" "unat (us_Length (UserName k)) = 2 * length u"
      "unat (us_Length (Password k)) = 2 * length p"
    by (rule KerbInit_Some [OF assms(1)]) auto
  have m: "mem (sz + (2 * length d + 2 * length u + 2 * length p))" using assms(2) by (simp add: algebra_simps)
  have 1: "PackedUnicodeStringCopy sz (LogonDomainName k) 0 (replicate (2 * length d + 2 * length u + 2 * length p) 0) =
      Inr (\<lparr>us_Length = us_Length (LogonDomainName k), us_MaximumLength = us_Length (LogonDomainName k),
            us_Buffer = word_of_nat sz\<rparr>, wbytes d @ replicate (2 * length u + 2 * length p) 0)"
    using PackedCopy [of "LogonDomainName k" "[]" 0 sz "2 * length u + 2 * length p"] b l by (simp add: add.assoc)
  have 2: "PackedUnicodeStringCopy sz (UserName k) (2 * length d) (wbytes d @ replicate (2 * length u + 2 * length p) 0) =
      Inr (\<lparr>us_Length = us_Length (UserName k), us_MaximumLength = us_Length (UserName k),
            us_Buffer = word_of_nat (sz + 2 * length d)\<rparr>, wbytes d @ wbytes u @ replicate (2 * length p) 0)"
    using PackedCopy [of "UserName k" "wbytes d" "2 * length d" sz "2 * length p"] b l by simp
  have 3: "PackedUnicodeStringCopy sz (Password k) (2 * length d + 2 * length u) (wbytes d @ wbytes u @ replicate (2 * length p) 0) =
      Inr (\<lparr>us_Length = us_Length (Password k), us_MaximumLength = us_Length (Password k),
            us_Buffer = word_of_nat (sz + (2 * length d + 2 * length u))\<rparr>, wbytes d @ wbytes u @ wbytes p)"
    using PackedCopy [of "Password k" "wbytes d @ wbytes u" "2 * length d + 2 * length u" sz 0] b l by simp
  show ?thesis using m l 1 2 3 by (simp add: KerbInteractiveUnlockLogonPack_def Let_def algebra_simps)
qed

text \<open>The bytes a string of an unpacked buffer at \<open>base\<close> refers to.\<close>

definition read_string :: "nat \<Rightarrow> 64 word \<Rightarrow> bytes \<Rightarrow> 64 word unicode_string \<Rightarrow> bytes" where
  "read_string sz base extra us = take (unat (us_Length us)) (drop (unat (us_Buffer us - base) - sz) extra)"

lemma unpack_offset:
  assumes "us_Length us = l" "unat l = len" "us_Buffer us = word_of_nat (sz + off)" "0 < sz" "sz + off + len \<le> cb" "cb < 2 ^ 32"
    "us_MaximumLength us = l"
  shows "in_buffer cb us \<and> read_string sz base extra (unpack_string base us) = take len (drop off extra)"
proof -
  have u: "unat (us_Buffer us) = sz + off"
    unfolding assms(3) unat_of_nat using assms(5,6) by (intro mod_less) simp
  have "unat l < 2 ^ 64" using unsigned_less [of l, where 'a = nat] by simp
  then have m: "unat (ucast l :: 64 word) = len"
    using assms(2) by (simp add: unsigned_ucast_eq take_bit_nat_eq_self)
  have "unat (us_Buffer us + ucast l) = sz + off + len"
    using u m assms(5,6) by (simp add: unat_word_ariths)
  then have "in_buffer cb us"
    using assms(5,6,7) by (simp add: in_buffer_def word_le_nat_alt unat_of_nat)
  moreover have "us_Buffer us \<noteq> 0" using u assms(4) by auto
  then have "unat (us_Buffer (unpack_string base us) - base) = sz + off" using u by (simp add: unpack_string_def)
  then have "read_string sz base extra (unpack_string base us) = take len (drop off extra)"
    using assms(1,2) by (simp add: read_string_def unpack_string_def)
  ultimately show ?thesis by blast
qed

lemma packed_reads:
  assumes "KerbInteractiveUnlockLogonInit (Some d) (Some u) (Some p) cpus = (S_OK, Some k)"
    and "mem (sz + 2 * (length d + length u + length p))" "0 < sz" "sz < 2 ^ 16"
  shows "\<exists>packed cb. KerbInteractiveUnlockLogonPack sz mem k = Inr (S_OK, Some (packed, cb)) \<and>
       cb = sz + length (packed_extra packed) \<and>
       (let k' = KerbInteractiveUnlockLogonUnpackInPlace sz base cb (packed_struct packed) in
         MessageType k' = MessageType k \<and>
         read_string sz base (packed_extra packed) (LogonDomainName k') = wbytes d \<and>
         read_string sz base (packed_extra packed) (UserName k') = wbytes u \<and>
         read_string sz base (packed_extra packed) (Password k') = wbytes p)"
proof -
  obtain l: "unat (us_Length (LogonDomainName k)) = 2 * length d" "unat (us_Length (UserName k)) = 2 * length u"
      "unat (us_Length (Password k)) = 2 * length p"
    and b: "2 * length d < 2 ^ 16" "2 * length u < 2 ^ 16" "2 * length p < 2 ^ 16"
    by (rule KerbInit_Some [OF assms(1)]) auto
  let ?cb = "sz + 2 * (length d + length u + length p)"
  let ?extra = "wbytes d @ wbytes u @ wbytes p"
  have cb: "?cb < 2 ^ 32" using b assms(4) by simp
  note o = unpack_offset [where cb = ?cb and base = base and extra = ?extra, OF refl _ _ assms(3) _ cb]
  let ?D = "\<lparr>us_Length = us_Length (LogonDomainName k), us_MaximumLength = us_Length (LogonDomainName k),
             us_Buffer = word_of_nat sz\<rparr> :: 64 word unicode_string"
  let ?U = "\<lparr>us_Length = us_Length (UserName k), us_MaximumLength = us_Length (UserName k),
             us_Buffer = word_of_nat (sz + 2 * length d)\<rparr> :: 64 word unicode_string"
  let ?P = "\<lparr>us_Length = us_Length (Password k), us_MaximumLength = us_Length (Password k),
             us_Buffer = word_of_nat (sz + (2 * length d + 2 * length u))\<rparr> :: 64 word unicode_string"
  have D: "in_buffer ?cb ?D \<and> read_string sz base ?extra (unpack_string base ?D) = wbytes d"
    using o [of ?D "2 * length d" 0] l(1) by simp
  have U: "in_buffer ?cb ?U \<and> read_string sz base ?extra (unpack_string base ?U) = wbytes u"
    using o [of ?U "2 * length u" "2 * length d"] l(2) by simp
  have P: "in_buffer ?cb ?P \<and> read_string sz base ?extra (unpack_string base ?P) = wbytes p"
    using o [of ?P "2 * length p" "2 * length d + 2 * length u"] l(3) by simp
  have n: "length ?extra = 2 * (length d + length u + length p)" by simp
  show ?thesis
    unfolding Pack_eq [where mem = mem and sz = sz, OF assms(1,2)] using n D U P
    by (simp add: KerbInteractiveUnlockLogonUnpackInPlace_def Let_def)
qed

lemma Split_at:
  assumes "backslash_w \<notin> set d"
  shows "SplitDomainAndUsername (\<lambda>_. True) (d @ backslash_w # u) = (S_OK, Some (d, u))"
proof -
  have w: "takeWhile (\<lambda>c. c \<noteq> backslash_w) (d @ backslash_w # u) = d"
  proof -
    have "\<And>c. c \<in> set d \<Longrightarrow> c \<noteq> backslash_w" using assms by auto
    then show ?thesis by (simp add: takeWhile_append2)
  qed
  show ?thesis
    by (simp add: SplitDomainAndUsername_def w Let_def)
qed

lemma Split_Some:
  assumes "SplitDomainAndUsername mem name = (hr, Some (d, u))"
  shows "name = d @ backslash_w # u \<and> backslash_w \<notin> set d \<and> hr = S_OK"
proof -
  let ?n = "length (takeWhile (\<lambda>c. c \<noteq> backslash_w) name)"
  have d: "d = take ?n name" and u: "u = take (length name - 1 + 1 - (?n + 1)) (drop (?n + 1) name)" and hr: "hr = S_OK"
    and b: "backslash_w \<in> set name"
    using assms by (auto simp: SplitDomainAndUsername_def Let_def split: if_split_asm)
  have dw: "drop ?n name = dropWhile (\<lambda>c. c \<noteq> backslash_w) name" by (simp add: dropWhile_eq_drop)
  have "d = takeWhile (\<lambda>c. c \<noteq> backslash_w) name" using d by (simp only: takeWhile_eq_take [symmetric])
  moreover have "dropWhile (\<lambda>c. c \<noteq> backslash_w) name = backslash_w # u"
  proof -
    obtain c r where cr: "dropWhile (\<lambda>c. c \<noteq> backslash_w) name = c # r"
      using b by (cases "dropWhile (\<lambda>c. c \<noteq> backslash_w) name") (auto simp: dropWhile_eq_Nil_conv)
    then have "c = backslash_w" using hd_dropWhile [of "\<lambda>c. c \<noteq> backslash_w" name] by (metis list.discI list.sel(1))
    moreover have "drop (?n + 1) name = r" using dw cr by (metis Suc_eq_plus1 drop_Suc list.sel(3) tl_drop)
    moreover have "length r = length name - 1 + 1 - (?n + 1)" using calculation(2) by auto
    ultimately show ?thesis using cr u by simp
  qed
  ultimately show ?thesis
    using hr takeWhile_dropWhile_id [of "\<lambda>c. c \<noteq> backslash_w" name] set_takeWhileD by fastforce
qed

section \<open>Round trips\<close>

text \<open>
  C39: The logon buffer the provider hands to Windows is packed inside the memory allocated for
  it and reads back exactly: after unpacking at any address, the three strings lie behind
  the structure, one after the other, with the characters of domain, user name and password.
  Strings of 32768 characters and more are refused before anything is packed. The name the
  domain and user name are taken from splits at its first backslash and nowhere else.
\<close>

theorem logon_pack_roundtrip:
  assumes "KerbInteractiveUnlockLogonInit (Some d) (Some u) (Some p) cpus = (S_OK, Some k)"
    and "mem (sz + 2 * (length d + length u + length p))" "0 < sz" "sz < 2 ^ 16"
    and "backslash_w \<notin> set d"
  shows "length d < 2 ^ 15 \<and> length u < 2 ^ 15 \<and> length p < 2 ^ 15 \<and>
    SplitDomainAndUsername (\<lambda>_. True) (d @ backslash_w # u) = (S_OK, Some (d, u)) \<and>
    (\<exists>packed cb. KerbInteractiveUnlockLogonPack sz mem k = Inr (S_OK, Some (packed, cb)) \<and>
       cb = sz + length (packed_extra packed) \<and>
       (let k' = KerbInteractiveUnlockLogonUnpackInPlace sz base cb (packed_struct packed) in
         MessageType k' = MessageType k \<and>
         read_string sz base (packed_extra packed) (LogonDomainName k') = wbytes d \<and>
         read_string sz base (packed_extra packed) (UserName k') = wbytes u \<and>
         read_string sz base (packed_extra packed) (Password k') = wbytes p))"
proof -
  have "length d < 2 ^ 15 \<and> length u < 2 ^ 15 \<and> length p < 2 ^ 15" by (rule KerbInit_Some [OF assms(1)]) simp
  then show ?thesis
    using packed_reads [where base = base and mem = mem and sz = sz, OF assms(1-4)] Split_at [OF assms(5), of u] by (simp add: Let_def)
qed

text \<open>A login on a workstation; the structure has 64 bytes on 64-bit Windows.\<close>

theorem logon_pack_roundtrip_witness:
  "\<exists>k packed cb. KerbInteractiveUnlockLogonInit (Some [0x50, 0x43]) (Some [0x61]) (Some [0x70, 0x77, 0x64]) CPUS_LOGON = (S_OK, Some k) \<and>
     KerbInteractiveUnlockLogonPack 64 (\<lambda>_. True) k = Inr (S_OK, Some (packed, cb)) \<and> cb = 76 \<and>
     read_string 64 0x10000 (packed_extra packed)
       (Password (KerbInteractiveUnlockLogonUnpackInPlace 64 0x10000 cb (packed_struct packed))) = [0x70, 0, 0x77, 0, 0x64, 0]"
proof -
  obtain k where k: "KerbInteractiveUnlockLogonInit (Some [0x50, 0x43]) (Some [0x61]) (Some [0x70, 0x77, 0x64]) CPUS_LOGON = (S_OK, Some k)"
    by (simp add: KerbInteractiveUnlockLogonInit_def UnicodeStringInitWithString_def)
  have s: "backslash_w \<notin> set [0x50, 0x43]" by (simp add: backslash_w_def)
  have w: "wbytes [0x70, 0x77, 0x64] = [0x70, 0, 0x77, 0, 0x64, 0]" by code_simp
  from logon_pack_roundtrip [where mem = "\<lambda>_. True" and sz = 64 and base = "0x10000", OF k _ _ _ s]
  obtain packed cb where "KerbInteractiveUnlockLogonPack 64 (\<lambda>_. True) k = Inr (S_OK, Some (packed, cb))"
    "cb = 64 + length (packed_extra packed)"
    "read_string 64 0x10000 (packed_extra packed)
       (Password (KerbInteractiveUnlockLogonUnpackInPlace 64 0x10000 cb (packed_struct packed))) = wbytes [0x70, 0x77, 0x64]"
    by (auto simp: Let_def)
  moreover have "cb = 76"
    using Pack_eq [where mem = "\<lambda>_. True" and sz = 64, OF k] calculation(1) by simp
  ultimately show ?thesis using k w by auto
qed

end
