(* ===== verification/WinCredential.thy ===== *)
theory WinCredential
  imports UnlockHandler WinHelpers
begin

text \<open>
  The Windows credential provider, \<^verbatim>\<open>win-pcbiounlock/src\<close>: the tile of a paired device
  (\<^verbatim>\<open>CUnlockCredential.cpp\<close>), its listener thread (\<^verbatim>\<open>CUnlockListener.cpp\<close>), the provider
  that makes the tiles (\<^verbatim>\<open>CSampleProvider.cpp\<close>) and the reference count of the module
  (\<^verbatim>\<open>Dll.cpp\<close>). LogonUI drives them through COM calls, which are the operations here.
\<close>

section \<open>The listener\<close>

text \<open>\<open>listener_joinable\<close>: \<^verbatim>\<open>m_ListenThread\<close> is joinable.\<close>

record listener =
  listener_running :: bool
  listener_joinable :: bool
  listener_response :: bool

definition listener_new :: listener where
  "listener_new = \<lparr>listener_running = False, listener_joinable = False, listener_response = False\<rparr>"

definition Listener_Stop :: "listener \<Rightarrow> listener" where
  "Listener_Stop l =
     (if \<not> listener_running l then l else l\<lparr>listener_running := False, listener_joinable := False\<rparr>)"

definition Listener_Start :: "listener \<Rightarrow> fault + listener" where
  "Listener_Start l =
     (if listener_running l then Inr l
      else
        let l = (Listener_Stop l)\<lparr>listener_running := True\<rparr>
        in if listener_joinable l then Inl Terminate else Inr (l\<lparr>listener_joinable := True\<rparr>))"

text \<open>
  A waiting loop of \<^verbatim>\<open>ListenThread\<close>: each turn reads \<^verbatim>\<open>m_IsRunning\<close> and then whether to
  break. \<open>False\<close>: it has not ended after these turns.
\<close>

fun wait_turns :: "(bool \<times> bool) list \<Rightarrow> bool" where
  "wait_turns [] = False"
| "wait_turns ((is_running, breaks) # turns) = (if \<not> is_running then True else if breaks then True else wait_turns turns)"

text \<open>
  \<^verbatim>\<open>ListenThread\<close> up to the attempt: the messages shown and, if it comes to that, the user it
  calls \<^verbatim>\<open>GetResult\<close> for. \<open>network\<close> and \<open>pressed\<close> are the turns of the two loops.
\<close>

definition ListenThread ::
  "sysenv \<Rightarrow> usage_scenario \<Rightarrow> string \<Rightarrow> (bool \<times> bool) list \<Rightarrow> (bool \<times> bool) list \<Rightarrow> string list \<times> (string \<times> string) option" where
  "ListenThread E cpus userDomainStr network pressed =
     (let msgs = [message E ''initializing'' []] in
      if length (SplitString userDomainStr (CHR 0x5C)) \<noteq> 2 then (msgs @ [message E ''error_invalid_user'' []], None)
      else
        let storage = AppStorage_Get (json E) (settings_file E);
            devices = GetDevices (json E) (devices_file E);
            waitForNetwork = list_ex (\<lambda>d. pairingMethod d = TCP \<or> pairingMethod d = CLOUD_TCP) devices;
            logon = (cpus = CPUS_LOGON \<or> cpus = CPUS_UNLOCK_WORKSTATION);
            net = (logon \<and> waitForNetwork);
            key = (logon \<and> waitForKeyPress storage);
            msgs = (if net then msgs @ [message E ''wait_network'' []] else msgs)
        in if net \<and> \<not> wait_turns network then (msgs, None)
           else
             let msgs = (if key then msgs @ [message E ''wait_key_press'' []] else msgs)
             in if key \<and> \<not> wait_turns pressed then (msgs, None)
                else (msgs, Some (userDomainStr, ''Windows-Login'')))"

section \<open>The tile\<close>

definition SFI_TILEIMAGE :: nat where "SFI_TILEIMAGE = 0"
definition SFI_MESSAGE :: nat where "SFI_MESSAGE = 1"
definition SFI_PASSWORD :: nat where "SFI_PASSWORD = 2"
definition SFI_SUBMIT_BUTTON :: nat where "SFI_SUBMIT_BUTTON = 3"
definition SFI_NUM_FIELDS :: nat where "SFI_NUM_FIELDS = 4"

datatype field_state = CPFS_HIDDEN | CPFS_DISPLAY_IN_SELECTED_TILE | CPFS_DISPLAY_IN_DESELECTED_TILE | CPFS_DISPLAY_IN_BOTH

datatype interactive_state = CPFIS_NONE | CPFIS_READONLY | CPFIS_DISABLED | CPFIS_FOCUSED

text \<open>
  \<open>shown\<close> are the calls of \<^verbatim>\<open>SetFieldString\<close> on the events interface, which is there when
  \<open>has_events\<close> holds.
\<close>

record credential =
  cred_cpus :: usage_scenario
  descriptors :: "field_descriptor list"
  state_pairs :: "(field_state \<times> interactive_state) list"
  field_strings :: "wstr option list"
  user_sid :: "wstr option"
  qualified_name :: wstr
  is_local_user :: bool
  unlock_result :: UnlockResult
  is_selected :: bool
  has_events :: bool
  cred_listener :: "listener option"
  shown :: "(nat \<times> wstr option) list"

text \<open>
  \<open>win_mem\<close>, \<open>win_buf\<close>: a copy of the string or a buffer of this size can be allocated;
  \<open>win_new\<close>: so can the objects and descriptors. \<open>wide\<close> is \<^verbatim>\<open>Utils::StringToWideString\<close>. The rest
  is what the credential functions and the security authority of Windows answer.
\<close>

record win_env =
  win_mem :: "wstr \<Rightarrow> bool"
  win_buf :: "nat \<Rightarrow> bool"
  win_new :: bool
  wide :: "string \<Rightarrow> wstr"
  cred_api :: cred_functions
  logon_size :: nat
  lsa_connect :: "32 word"
  lsa_lookup :: "string \<Rightarrow> 32 word \<times> 32 word"
  pack_size :: "wstr \<Rightarrow> wstr \<Rightarrow> (int \<times> nat) option"
  pack_error :: "wstr \<Rightarrow> wstr \<Rightarrow> int option"

definition auth_package :: "win_env \<Rightarrow> hresult" where
  "auth_package W = fst (RetrieveNegotiateAuthPackage (lsa_connect W) (lsa_lookup W))"

text \<open>A wide C string ends at its first NUL.\<close>

definition wcstr :: "wstr \<Rightarrow> wstr" where
  "wcstr s = takeWhile (\<lambda>c. c \<noteq> 0) s"

definition s_rgFieldStatePairs :: "(field_state \<times> interactive_state) list" where
  "s_rgFieldStatePairs =
     [(CPFS_DISPLAY_IN_BOTH, CPFIS_NONE), (CPFS_DISPLAY_IN_BOTH, CPFIS_NONE),
      (CPFS_DISPLAY_IN_SELECTED_TILE, CPFIS_FOCUSED), (CPFS_DISPLAY_IN_SELECTED_TILE, CPFIS_NONE)]"

definition s_rgCredProvFieldDescriptors :: "win_env \<Rightarrow> sysenv \<Rightarrow> field_descriptor list" where
  "s_rgCredProvFieldDescriptors W E =
     [\<lparr>fd_id = SFI_TILEIMAGE, fd_cpft = CPFT_TILE_IMAGE, fd_label = Some (wide W ''Image''), fd_logo = True\<rparr>,
      \<lparr>fd_id = SFI_MESSAGE, fd_cpft = CPFT_SMALL_TEXT, fd_label = Some (wide W ''Tooltip''), fd_logo = False\<rparr>,
      \<lparr>fd_id = SFI_PASSWORD, fd_cpft = CPFT_PASSWORD_TEXT, fd_label = Some (wcstr (wide W (message E ''password'' []))), fd_logo = False\<rparr>,
      \<lparr>fd_id = SFI_SUBMIT_BUTTON, fd_cpft = CPFT_SUBMIT_BUTTON, fd_label = Some (wide W ''Submit''), fd_logo = False\<rparr>]"

definition put_field :: "nat \<Rightarrow> wstr option \<Rightarrow> credential \<Rightarrow> credential" where
  "put_field i s c = c\<lparr>field_strings := (field_strings c)[i := s]\<rparr>"

text \<open>\<^verbatim>\<open>SHStrDupW\<close> stores a null pointer when it fails.\<close>

definition UpdateMessage :: "win_env \<Rightarrow> string \<Rightarrow> credential \<Rightarrow> credential" where
  "UpdateMessage W msg c =
     (let c = put_field SFI_MESSAGE (snd (SHStrDupW (win_mem W) (wcstr (wide W msg)))) c
      in if has_events c then c\<lparr>shown := shown c @ [(SFI_MESSAGE, field_strings c ! SFI_MESSAGE)]\<rparr> else c)"

definition SetUnlockData :: "win_env \<Rightarrow> sysenv \<Rightarrow> UnlockResult \<Rightarrow> credential \<Rightarrow> credential" where
  "SetUnlockData W E result c =
     UpdateMessage W (state_message E (result_state result)) (c\<lparr>unlock_result := result\<rparr>)"

definition SetSelected :: "credential \<Rightarrow> fault + bool \<times> credential" where
  "SetSelected c =
     (let c = c\<lparr>is_selected := True\<rparr> in
      bind_err (case cred_listener c of None \<Rightarrow> Inr None | Some l \<Rightarrow> bind_err (Listener_Start l) (\<lambda>l. Inr (Some l))) (\<lambda>l.
      Inr (result_state (unlock_result c) = SUCCESS, c\<lparr>cred_listener := l\<rparr>)))"

definition SetDeselected :: "win_env \<Rightarrow> credential \<Rightarrow> hresult \<times> credential" where
  "SetDeselected W c =
     (let c = c\<lparr>is_selected := False, cred_listener := map_option Listener_Stop (cred_listener c)\<rparr> in
      if field_strings c ! SFI_PASSWORD = None then (S_OK, c)
      else
        let (hr, s) = SHStrDupW (win_mem W) [];
            c = put_field SFI_PASSWORD s c
        in (hr, if SUCCEEDED hr \<and> has_events c then c\<lparr>shown := shown c @ [(SFI_PASSWORD, s)]\<rparr> else c))"

definition SetStringValue :: "win_env \<Rightarrow> nat \<Rightarrow> wstr \<Rightarrow> credential \<Rightarrow> hresult \<times> credential" where
  "SetStringValue W dwFieldID pwz c =
     (if dwFieldID < SFI_NUM_FIELDS \<and>
         (fd_cpft (descriptors c ! dwFieldID) = CPFT_EDIT_TEXT \<or> fd_cpft (descriptors c ! dwFieldID) = CPFT_PASSWORD_TEXT)
      then let (hr, s) = SHStrDupW (win_mem W) pwz in (hr, put_field dwFieldID s c)
      else (E_INVALIDARG, c))"

definition GetStringValue :: "win_env \<Rightarrow> nat \<Rightarrow> credential \<Rightarrow> hresult \<times> wstr option" where
  "GetStringValue W dwFieldID c =
     (if dwFieldID < SFI_NUM_FIELDS then
        (case field_strings c ! dwFieldID of None \<Rightarrow> (E_INVALIDARG, None) | Some s \<Rightarrow> SHStrDupW (win_mem W) s)
      else (E_INVALIDARG, None))"

definition GetFieldState :: "nat \<Rightarrow> credential \<Rightarrow> hresult \<times> (field_state \<times> interactive_state) option" where
  "GetFieldState dwFieldID c =
     (if dwFieldID < SFI_NUM_FIELDS then (S_OK, Some (state_pairs c ! dwFieldID)) else (E_INVALIDARG, None))"

text \<open>\<^verbatim>\<open>resource\<close> and \<^verbatim>\<open>file\<close>: the bitmaps the system loads, or the error of the first.\<close>

definition GetBitmapValue :: "int + 'b \<Rightarrow> 'b option \<Rightarrow> nat \<Rightarrow> hresult \<times> 'b option" where
  "GetBitmapValue resource file dwFieldID =
     (if SFI_TILEIMAGE = dwFieldID then
        (case resource of
           Inr hbmp \<Rightarrow> (S_OK, Some hbmp)
         | Inl err \<Rightarrow> (case file of Some hbmp \<Rightarrow> (S_OK, Some hbmp) | None \<Rightarrow> (HRESULT_FROM_WIN32 err, None)))
      else (E_INVALIDARG, None))"

definition GetSubmitButtonValue :: "nat \<Rightarrow> hresult \<times> nat option" where
  "GetSubmitButtonValue dwFieldID =
     (if SFI_SUBMIT_BUTTON = dwFieldID then (S_OK, Some SFI_PASSWORD) else (E_INVALIDARG, None))"

datatype field_option = CPCFO_NONE | CPCFO_ENABLE_PASSWORD_REVEAL | CPCFO_ENABLE_TOUCH_KEYBOARD_AUTO_INVOKE

definition GetFieldOptions :: "nat \<Rightarrow> field_option" where
  "GetFieldOptions dwFieldID =
     (if dwFieldID = SFI_PASSWORD then CPCFO_ENABLE_PASSWORD_REVEAL
      else if dwFieldID = SFI_TILEIMAGE then CPCFO_ENABLE_TOUCH_KEYBOARD_AUTO_INVOKE else CPCFO_NONE)"

definition Advise :: "credential \<Rightarrow> credential" where
  "Advise c = c\<lparr>has_events := True, shown := shown c @ [(SFI_MESSAGE, field_strings c ! SFI_MESSAGE)]\<rparr>"

definition UnAdvise :: "credential \<Rightarrow> credential" where
  "UnAdvise c = c\<lparr>has_events := False\<rparr>"

definition GetUserSid :: "win_env \<Rightarrow> credential \<Rightarrow> hresult \<times> wstr option" where
  "GetUserSid W c = (case user_sid c of None \<Rightarrow> (E_UNEXPECTED, None) | Some s \<Rightarrow> SHStrDupW (win_mem W) s)"

text \<open>A new tile has zeroed fields.\<close>

definition no_descriptor :: field_descriptor where
  "no_descriptor = \<lparr>fd_id = 0, fd_cpft = CPFT_INVALID, fd_label = None, fd_logo = False\<rparr>"

definition Credential_new :: "usage_scenario \<Rightarrow> credential" where
  "Credential_new cpus =
     \<lparr>cred_cpus = cpus, descriptors = replicate SFI_NUM_FIELDS no_descriptor,
      state_pairs = replicate SFI_NUM_FIELDS (CPFS_HIDDEN, CPFIS_NONE), field_strings = replicate SFI_NUM_FIELDS None, user_sid = None, qualified_name = [],
      is_local_user = False, unlock_result = UnlockResult_new UNKNOWN, is_selected = False, has_events = False,
      cred_listener = None, shown = []\<rparr>"

text \<open>The loop that copies the descriptors and states of the fields ends at the first failure.\<close>

fun copy_fields ::
  "win_env \<Rightarrow> nat \<Rightarrow> (field_descriptor \<times> field_state \<times> interactive_state) list \<Rightarrow> credential \<Rightarrow> hresult \<times> credential" where
  "copy_fields W i [] c = (S_OK, c)"
| "copy_fields W i ((d, st) # rest) c =
     (let c = c\<lparr>state_pairs := (state_pairs c)[i := st]\<rparr>
      in case FieldDescriptorCopy (win_mem W) d of
           (_, Some d') \<Rightarrow> copy_fields W (i + 1) rest (c\<lparr>descriptors := (descriptors c)[i := d']\<rparr>)
         | (hr, None) \<Rightarrow> (hr, c))"

text \<open>
  \<^verbatim>\<open>Initialize\<close>: the user's answers for its qualified name and SID, and whether the object of
  the listener could be made. Every step is taken only after the ones before succeeded.
\<close>

definition Credential_Initialize ::
  "win_env \<Rightarrow> sysenv \<Rightarrow> bool \<Rightarrow> hresult \<times> wstr \<Rightarrow> hresult \<times> wstr option \<Rightarrow> bool \<Rightarrow> usage_scenario \<Rightarrow> credential
   \<Rightarrow> hresult \<times> credential" where
  "Credential_Initialize W E is_local qname sid listener_made cpus c =
     (let c = c\<lparr>cred_cpus := cpus, is_local_user := is_local\<rparr>;
          (hr, c) = copy_fields W 0 (zip (s_rgCredProvFieldDescriptors W E) s_rgFieldStatePairs) c
      in if \<not> SUCCEEDED hr then (hr, c)
         else
           let (hr, s) = SHStrDupW (win_mem W) (wcstr (wide W (message E ''initializing'' []))); c = put_field SFI_MESSAGE s c
           in if \<not> SUCCEEDED hr then (hr, c)
              else
                let (hr, s) = SHStrDupW (win_mem W) []; c = put_field SFI_PASSWORD s c
                in if \<not> SUCCEEDED hr then (hr, c)
                   else
                     let (hr, s) = SHStrDupW (win_mem W) (wide W ''Submit''); c = put_field SFI_SUBMIT_BUTTON s c
                     in if \<not> SUCCEEDED hr then (hr, c)
                        else if \<not> SUCCEEDED (fst qname) then (fst qname, c)
                        else
                          let c = c\<lparr>qualified_name := snd qname\<rparr>
                          in if \<not> SUCCEEDED (fst sid) then (fst sid, c)
                             else
                               let c = c\<lparr>user_sid := snd sid\<rparr>
                               in if listener_made then (fst sid, c\<lparr>cred_listener := Some listener_new\<rparr>)
                                  else (E_OUTOFMEMORY, c))"

section \<open>Serialization\<close>

text \<open>
  What \<^verbatim>\<open>rgbSerialization\<close> points to: nothing, a packed logon, the buffer of
  \<^verbatim>\<open>CredPackAuthenticationBuffer\<close> for a name and a password, or a block already freed.
\<close>

datatype serialization = NoSerialization | PackedLogon packed_logon nat | CredBuffer wstr wstr | Dangling

definition chosen_password :: "win_env \<Rightarrow> credential \<Rightarrow> wstr option" where
  "chosen_password W c =
     (case field_strings c ! SFI_PASSWORD of
        Some p \<Rightarrow>
          if 1 \<le> length p then Some p
          else if result_state (unlock_result c) = SUCCESS then Some (wide W (result_password (unlock_result c))) else None
      | None \<Rightarrow>
          if result_state (unlock_result c) = SUCCESS then Some (wide W (result_password (unlock_result c))) else None)"

text \<open>The branch of a local user: the result, whether the credential is finished, and the buffer.\<close>

definition serialize_local :: "win_env \<Rightarrow> credential \<Rightarrow> wstr \<Rightarrow> fault + hresult \<times> bool \<times> serialization" where
  "serialize_local W c pwd =
     (case ProtectIfNecessaryAndCopyPassword (cred_api W) (win_mem W) (win_buf W) (wcstr pwd) (cred_cpus c) of (hr, q) \<Rightarrow>
       if \<not> SUCCEEDED hr then Inr (hr, False, NoSerialization)
       else
         (case SplitDomainAndUsername (win_mem W) (qualified_name c) of
            (hr, None) \<Rightarrow> Inr (hr, False, NoSerialization)
          | (_, Some (d, u)) \<Rightarrow>
              (case KerbInteractiveUnlockLogonInit (Some d) (Some u) q (cred_cpus c) of
                 (hr, None) \<Rightarrow> Inr (hr, False, NoSerialization)
               | (_, Some kiul) \<Rightarrow>
                   bind_err (KerbInteractiveUnlockLogonPack (logon_size W) (win_buf W) kiul) (\<lambda>(hr, r).
                     case r of
                       None \<Rightarrow> Inr (hr, False, NoSerialization)
                     | Some (packed, cb) \<Rightarrow>
                         if SUCCEEDED (auth_package W) then Inr (auth_package W, True, PackedLogon packed cb)
                         else Inr (auth_package W, False, PackedLogon packed cb)))))"

text \<open>The other branch, with the two calls of \<^verbatim>\<open>CredPackAuthenticationBuffer\<close>.\<close>

definition serialize_other :: "win_env \<Rightarrow> credential \<Rightarrow> wstr \<Rightarrow> hresult \<times> bool \<times> serialization" where
  "serialize_other W c pwd =
     (let pwd = wcstr pwd in
      case pack_size W (qualified_name c) pwd of
        None \<Rightarrow> (E_UNEXPECTED, False, NoSerialization)
      | Some (err, cb) \<Rightarrow>
          if err \<noteq> ERROR_INSUFFICIENT_BUFFER then (E_UNEXPECTED, False, NoSerialization)
          else if \<not> win_buf W cb then (E_OUTOFMEMORY, False, NoSerialization)
          else
            (case pack_error W (qualified_name c) pwd of
               None \<Rightarrow>
                 if SUCCEEDED (auth_package W) then (auth_package W, True, CredBuffer (qualified_name c) pwd)
                 else (auth_package W, False, Dangling)
             | Some err \<Rightarrow>
                 ((if SUCCEEDED (HRESULT_FROM_WIN32 err) then E_FAIL else HRESULT_FROM_WIN32 err), False, Dangling)))"

definition GetSerialization :: "win_env \<Rightarrow> credential \<Rightarrow> fault + hresult \<times> bool \<times> serialization" where
  "GetSerialization W c =
     (case chosen_password W c of
        None \<Rightarrow> Inr (E_ABORT, False, NoSerialization)
      | Some pwd \<Rightarrow> if is_local_user c then serialize_local W c pwd else Inr (serialize_other W c pwd))"

text \<open>The status codes with a text and an icon, and the report of a logon's outcome.\<close>

datatype status_icon = CPSI_NONE | CPSI_ERROR | CPSI_WARNING | CPSI_SUCCESS

definition s_rgLogonStatusInfo :: "(32 word \<times> 32 word \<times> string \<times> status_icon) list" where
  "s_rgLogonStatusInfo =
     [(0xC000006D, 0, ''Incorrect password or username.'', CPSI_ERROR),
      (0xC000006E, 0xC0000072, ''The account is disabled.'', CPSI_WARNING)]"

definition ReportResult ::
  "win_env \<Rightarrow> 32 word \<Rightarrow> 32 word \<Rightarrow> credential \<Rightarrow> (wstr option \<times> status_icon) \<times> credential" where
  "ReportResult W ntsStatus ntsSubstatus c =
     (let c = c\<lparr>unlock_result := UnlockResult_new UNKNOWN\<rparr>;
          dwStatusInfo = find (\<lambda>(st, sub, _). st = ntsStatus \<and> sub = ntsSubstatus) s_rgLogonStatusInfo;
          status_text =
            (case dwStatusInfo of
               None \<Rightarrow> (None, CPSI_NONE)
             | Some (_, _, pwzMessage, cpsi) \<Rightarrow>
                 (case SHStrDupW (win_mem W) (wide W pwzMessage) of
                    (_, Some s) \<Rightarrow> (Some s, cpsi)
                  | (_, None) \<Rightarrow> (None, CPSI_NONE)));
          failed = nt_failed (HRESULT_FROM_NT ntsStatus)
      in (status_text, if failed \<and> has_events c then c\<lparr>shown := shown c @ [(SFI_PASSWORD, Some [])]\<rparr> else c))"

section \<open>The provider\<close>

record provider =
  prov_cpus :: usage_scenario
  recreate :: bool
  credentials :: "credential list"
  prov_advised :: bool
  changes_announced :: nat

definition Provider_new :: provider where
  "Provider_new = \<lparr>prov_cpus = CPUS_INVALID, recreate = True, credentials = [], prov_advised = False, changes_announced = 0\<rparr>"

definition SetUsageScenario :: "usage_scenario \<Rightarrow> provider \<Rightarrow> hresult \<times> provider" where
  "SetUsageScenario cpus pr =
     (case cpus of
        CPUS_LOGON \<Rightarrow> (S_OK, pr\<lparr>prov_cpus := cpus, recreate := True\<rparr>)
      | CPUS_UNLOCK_WORKSTATION \<Rightarrow> (S_OK, pr\<lparr>prov_cpus := cpus, recreate := True\<rparr>)
      | CPUS_CREDUI \<Rightarrow> (S_OK, pr\<lparr>prov_cpus := cpus, recreate := True\<rparr>)
      | CPUS_CHANGE_PASSWORD \<Rightarrow> (E_NOTIMPL, pr)
      | _ \<Rightarrow> (E_INVALIDARG, pr))"

definition Provider_Advise :: "provider \<Rightarrow> provider" where
  "Provider_Advise pr = pr\<lparr>prov_advised := True\<rparr>"

definition Provider_UnAdvise :: "provider \<Rightarrow> provider" where
  "Provider_UnAdvise pr = pr\<lparr>prov_advised := False\<rparr>"

definition UpdateCredsStatus :: "provider \<Rightarrow> provider" where
  "UpdateCredsStatus pr = (if prov_advised pr then pr\<lparr>changes_announced := changes_announced pr + 1\<rparr> else pr)"

definition GetFieldDescriptorCount :: nat where
  "GetFieldDescriptorCount = SFI_NUM_FIELDS"

definition GetFieldDescriptorAt :: "win_env \<Rightarrow> sysenv \<Rightarrow> nat \<Rightarrow> hresult \<times> field_descriptor option" where
  "GetFieldDescriptorAt W E dwIndex =
     (if dwIndex < SFI_NUM_FIELDS then FieldDescriptorCoAllocCopy (win_new W) (win_mem W) (s_rgCredProvFieldDescriptors W E ! dwIndex)
      else (E_INVALIDARG, None))"

text \<open>
  A user of the logon screen: whether it is a local one, its qualified name as a wide string
  and as UTF-8, and its SID.
\<close>

record win_user =
  wu_local :: bool
  wu_name :: wstr
  wu_utf8 :: string
  wu_sid :: "hresult \<times> wstr option"

text \<open>
  \<^verbatim>\<open>_EnumerateCredentials\<close>: one tile for every device paired for a user of the screen, if it can
  be initialised. \<open>None\<close> is an entry whose user or name cannot be had.
\<close>

definition user_credentials :: "win_env \<Rightarrow> sysenv \<Rightarrow> usage_scenario \<Rightarrow> win_user option \<Rightarrow> credential list" where
  "user_credentials W E cpus entry =
     (case entry of
        None \<Rightarrow> []
      | Some user \<Rightarrow>
          concat (map (\<lambda>_.
            if win_new W then
              (case Credential_Initialize W E (wu_local user) (S_OK, wu_name user) (wu_sid user) (win_new W) cpus
                      (Credential_new CPUS_INVALID) of
                 (hr, c) \<Rightarrow> if SUCCEEDED hr then [c] else [])
            else [])
            (GetDevicesForUser (json E) (devices_file E) (wu_utf8 user))))"

definition EnumerateCredentials :: "win_env \<Rightarrow> sysenv \<Rightarrow> win_user option list \<Rightarrow> usage_scenario \<Rightarrow> credential list" where
  "EnumerateCredentials W E users cpus =
     (if cpus \<in> {CPUS_LOGON, CPUS_UNLOCK_WORKSTATION, CPUS_CREDUI} then concat (map (user_credentials W E cpus) users) else [])"

fun default_loop :: "nat \<Rightarrow> credential list \<Rightarrow> nat option \<times> bool \<Rightarrow> nat option \<times> bool" where
  "default_loop idx [] r = r"
| "default_loop idx (c # cs) r =
     default_loop (idx + 1) cs (if result_state (unlock_result c) = SUCCESS then (Some idx, True) else r)"

text \<open>
  The number of tiles, the default one (\<open>None\<close>: \<^verbatim>\<open>*pdwDefault\<close> is not written) and whether to
  log on with it at once.
\<close>

definition GetCredentialCount ::
  "win_env \<Rightarrow> sysenv \<Rightarrow> win_user option list \<Rightarrow> provider \<Rightarrow> (nat \<times> nat option \<times> bool) \<times> provider" where
  "GetCredentialCount W E users pr =
     (let pr = (if recreate pr then pr\<lparr>recreate := False, credentials := EnumerateCredentials W E users (prov_cpus pr)\<rparr> else pr);
          (dflt, autologon) = default_loop 0 (credentials pr) (None, False)
      in ((length (credentials pr), dflt, autologon), pr))"

definition GetCredentialAt :: "nat \<Rightarrow> provider \<Rightarrow> credential option" where
  "GetCredentialAt dwIndex pr = (if dwIndex < length (credentials pr) then Some (credentials pr ! dwIndex) else None)"

section \<open>The module\<close>

text \<open>The global reference count decides whether the module may be unloaded.\<close>

definition DllAddRef :: "int \<Rightarrow> int" where "DllAddRef g_cRef = g_cRef + 1"

definition DllRelease :: "int \<Rightarrow> int" where "DllRelease g_cRef = g_cRef - 1"

definition DllCanUnloadNow :: "int \<Rightarrow> hresult" where
  "DllCanUnloadNow g_cRef = (if g_cRef > 0 then S_FALSE else S_OK)"

definition LockServer :: "bool \<Rightarrow> int \<Rightarrow> int" where
  "LockServer bLock g_cRef = (if bLock then DllAddRef g_cRef else DllRelease g_cRef)"

section \<open>A session at the tile\<close>

text \<open>
  What happens to a tile: LogonUI's calls, the messages and the result of its listener thread,
  and the report of the logon it was used for.
\<close>

datatype cred_event =
    Selected | Deselected | Typed nat wstr | Shown string | Delivered UnlockResult | Reported "32 word" "32 word"
  | Advised | Unadvised

fun cred_step :: "win_env \<Rightarrow> sysenv \<Rightarrow> cred_event \<Rightarrow> credential \<Rightarrow> fault + credential" where
  "cred_step W E Selected c = bind_err (SetSelected c) (\<lambda>(_, c). Inr c)"
| "cred_step W E Deselected c = Inr (snd (SetDeselected W c))"
| "cred_step W E (Typed i s) c = Inr (snd (SetStringValue W i s c))"
| "cred_step W E (Shown msg) c = Inr (UpdateMessage W msg c)"
| "cred_step W E (Delivered r) c =
     Inr (SetUnlockData W E r (c\<lparr>cred_listener := map_option (\<lambda>l. l\<lparr>listener_response := True\<rparr>) (cred_listener c)\<rparr>))"
| "cred_step W E (Reported s t) c = Inr (snd (ReportResult W s t c))"
| "cred_step W E Advised c = Inr (Advise c)"
| "cred_step W E Unadvised c = Inr (UnAdvise c)"

fun cred_run :: "win_env \<Rightarrow> sysenv \<Rightarrow> cred_event list \<Rightarrow> credential \<Rightarrow> fault + credential" where
  "cred_run W E [] c = Inr c"
| "cred_run W E (e # es) c = bind_err (cred_step W E e c) (cred_run W E es)"

text \<open>
  The specification of a tile is a text field and a password that can be used once: it comes
  with a successful attempt and goes with any other one or with the report of a logon.
\<close>

type_synonym tile = "wstr \<times> wstr option"

definition delivered :: "win_env \<Rightarrow> UnlockResult \<Rightarrow> wstr option" where
  "delivered W r = (if result_state r = SUCCESS then Some (wide W (result_password r)) else None)"

fun tile_step :: "win_env \<Rightarrow> cred_event \<Rightarrow> tile \<Rightarrow> tile" where
  "tile_step W Deselected (typed, once) = ([], once)"
| "tile_step W (Typed i s) (typed, once) = (if i = SFI_PASSWORD then (if win_mem W s then s else []) else typed, once)"
| "tile_step W (Delivered r) (typed, once) = (typed, delivered W r)"
| "tile_step W (Reported _ _) (typed, once) = (typed, None)"
| "tile_step W _ t = t"

definition tile_of :: "win_env \<Rightarrow> credential \<Rightarrow> tile" where
  "tile_of W c = (case field_strings c ! SFI_PASSWORD of Some p \<Rightarrow> p | None \<Rightarrow> [], delivered W (unlock_result c))"

definition tile_password :: "tile \<Rightarrow> wstr option" where
  "tile_password t = (if fst t \<noteq> [] then Some (fst t) else snd t)"

definition tile_ok :: "win_env \<Rightarrow> sysenv \<Rightarrow> credential \<Rightarrow> bool" where
  "tile_ok W E c \<longleftrightarrow>
     length (field_strings c) = SFI_NUM_FIELDS \<and> descriptors c = s_rgCredProvFieldDescriptors W E \<and>
     state_pairs c = s_rgFieldStatePairs \<and>
     (\<forall>l. cred_listener c = Some l \<longrightarrow> listener_joinable l \<longrightarrow> listener_running l)"

lemmas field_ids = SFI_TILEIMAGE_def SFI_MESSAGE_def SFI_PASSWORD_def SFI_SUBMIT_BUTTON_def SFI_NUM_FIELDS_def

lemma chosen_password_tile: "chosen_password W c = tile_password (tile_of W c)"
  by (auto simp: chosen_password_def tile_password_def tile_of_def delivered_def Suc_le_eq split: option.split)

lemma Listener_Start_ok:
  assumes "listener_joinable l \<longrightarrow> listener_running l"
  shows "\<exists>l'. Listener_Start l = Inr l' \<and> listener_running l' \<and> (listener_joinable l' \<longrightarrow> listener_running l')"
  using assms by (auto simp: Listener_Start_def Listener_Stop_def Let_def)

lemma text_field: "i < SFI_NUM_FIELDS \<Longrightarrow>
  fd_cpft (s_rgCredProvFieldDescriptors W E ! i) = CPFT_EDIT_TEXT \<or> fd_cpft (s_rgCredProvFieldDescriptors W E ! i) = CPFT_PASSWORD_TEXT
  \<longleftrightarrow> i = SFI_PASSWORD"
  by (auto simp: s_rgCredProvFieldDescriptors_def field_ids less_Suc_eq numeral_eq_Suc)

lemma UpdateMessage_tile:
  assumes "tile_ok W E c"
  shows "tile_ok W E (UpdateMessage W m c) \<and> tile_of W (UpdateMessage W m c) = tile_of W c"
  using assms by (auto simp: UpdateMessage_def tile_ok_def tile_of_def put_field_def field_ids Let_def)

lemma SetStringValue_tile:
  assumes "tile_ok W E c"
  shows "tile_ok W E (snd (SetStringValue W i s c)) \<and> tile_of W (snd (SetStringValue W i s c)) = tile_step W (Typed i s) (tile_of W c)"
proof (cases "i = SFI_PASSWORD")
  case True
  then have "i < SFI_NUM_FIELDS" by (simp add: field_ids)
  then show ?thesis
    using True assms text_field [of i W E]
    by (auto simp: SetStringValue_def tile_ok_def tile_of_def put_field_def SHStrDupW_def)
next
  case False
  then have "SetStringValue W i s c = (E_INVALIDARG, c)"
    using assms text_field [of i W E] by (auto simp: SetStringValue_def tile_ok_def)
  then show ?thesis using False assms by (simp add: tile_of_def)
qed

lemma SetDeselected_tile:
  assumes "tile_ok W E c"
  shows "tile_ok W E (snd (SetDeselected W c)) \<and> tile_of W (snd (SetDeselected W c)) = tile_step W Deselected (tile_of W c)"
  using assms
  by (auto simp: SetDeselected_def tile_ok_def tile_of_def put_field_def SHStrDupW_def Let_def Listener_Stop_def SFI_NUM_FIELDS_def
      SFI_PASSWORD_def SUCCEEDED_def split: option.split)

text \<open>One step of the code is one step of the specification, and none makes the process end.\<close>

lemma cred_step_tile:
  assumes "tile_ok W E c"
  shows "\<exists>c'. cred_step W E e c = Inr c' \<and> tile_ok W E c' \<and> tile_of W c' = tile_step W e (tile_of W c)"
proof (cases e)
  case Selected
  show ?thesis
  proof (cases "cred_listener c")
    case None
    then show ?thesis using assms Selected by (simp add: SetSelected_def tile_ok_def tile_of_def)
  next
    case (Some l)
    then obtain l' where "Listener_Start l = Inr l'" "listener_running l'" using assms Listener_Start_ok [of l] by (auto simp: tile_ok_def)
    then show ?thesis using Some assms Selected by (simp add: SetSelected_def tile_ok_def tile_of_def)
  qed
next
  case (Delivered r)
  let ?c = "c\<lparr>cred_listener := map_option (\<lambda>l. l\<lparr>listener_response := True\<rparr>) (cred_listener c), unlock_result := r\<rparr>"
  have "tile_ok W E ?c" using assms by (auto simp: tile_ok_def)
  moreover have "tile_of W ?c = tile_step W (Delivered r) (tile_of W c)" by (simp add: tile_of_def)
  ultimately show ?thesis using Delivered UpdateMessage_tile [of W E ?c] by (simp add: SetUnlockData_def)
next
  case (Reported s t)
  then show ?thesis
    using assms by (simp add: ReportResult_def Let_def tile_ok_def tile_of_def delivered_def UnlockResult_new_def)
next
  case Advised
  then show ?thesis using assms by (simp add: Advise_def tile_ok_def tile_of_def)
next
  case Unadvised
  then show ?thesis using assms by (simp add: UnAdvise_def tile_ok_def tile_of_def)
qed (use assms UpdateMessage_tile SetStringValue_tile SetDeselected_tile in \<open>simp_all add: tile_of_def\<close>)

lemma cred_run_tile:
  "tile_ok W E c \<Longrightarrow> \<exists>c'. cred_run W E es c = Inr c' \<and> tile_ok W E c' \<and> tile_of W c' = fold (tile_step W) es (tile_of W c)"
proof (induction es arbitrary: c)
  case (Cons e es)
  then obtain c' where "cred_step W E e c = Inr c'" "tile_ok W E c'" "tile_of W c' = tile_step W e (tile_of W c)"
    using cred_step_tile by blast
  then show ?case using Cons.IH [of c'] by simp
qed simp

lemma copy_fields_ok:
  "copy_fields W i ds c = (hr, c') \<Longrightarrow> SUCCEEDED hr \<Longrightarrow> i + length ds \<le> length (descriptors c) \<Longrightarrow>
   length (descriptors c) = length (state_pairs c) \<Longrightarrow>
   c' = c\<lparr>descriptors := take i (descriptors c) @ map fst ds @ drop (i + length ds) (descriptors c),
          state_pairs := take i (state_pairs c) @ map snd ds @ drop (i + length ds) (state_pairs c)\<rparr>"
proof (induction W i ds c rule: copy_fields.induct)
  case (2 W i d st rest c)
  have f: "FieldDescriptorCopy (win_mem W) d = (S_OK, Some d) \<or> FieldDescriptorCopy (win_mem W) d = (E_OUTOFMEMORY, None)"
    by (auto simp: FieldDescriptorCopy_def SHStrDupW_def SUCCEEDED_def split: option.split)
  then have s: "FieldDescriptorCopy (win_mem W) d = (S_OK, Some d)" using "2.prems" by (auto simp: SUCCEEDED_def)
  let ?c = "c\<lparr>state_pairs := (state_pairs c)[i := st]\<rparr>"
  have r: "copy_fields W (i + 1) rest (?c\<lparr>descriptors := (descriptors ?c)[i := d]\<rparr>) = (hr, c')" using "2.prems"(1) s by simp
  have u: "take (Suc i) (xs[i := x]) = take i xs @ [x]" if "i < length xs" for xs :: "'z list" and x
    using that by (simp add: take_Suc_conv_app_nth)
  have p: "take (i + 1) ((descriptors c)[i := d]) = take i (descriptors c) @ [d]"
    "take (i + 1) ((state_pairs c)[i := st]) = take i (state_pairs c) @ [st]"
    using u [of "descriptors c" d] u [of "state_pairs c" st] "2.prems"(3,4) by simp_all
  show ?case using "2.IH" [OF refl s [symmetric] refl r "2.prems"(2)] "2.prems"(3,4) p by simp
qed simp

lemma Credential_Initialize_tile:
  assumes "Credential_Initialize W E loc qn sid made cpus (Credential_new cpus') = (hr, c)" "SUCCEEDED hr"
  shows "tile_ok W E c \<and> tile_of W c = ([], None) \<and> cred_listener c = Some listener_new \<and> cred_cpus c = cpus \<and>
    is_local_user c = loc \<and> qualified_name c = snd qn \<and> user_sid c = snd sid \<and> unlock_result c = UnlockResult_new UNKNOWN"
proof -
  let ?n = "(Credential_new cpus')\<lparr>cred_cpus := cpus, is_local_user := loc\<rparr>"
  let ?fs = "zip (s_rgCredProvFieldDescriptors W E) s_rgFieldStatePairs"
  obtain h1 c1 where cf: "copy_fields W 0 ?fs ?n = (h1, c1)" by fastforce
  show ?thesis
  proof (cases "SUCCEEDED h1")
    case False
    then show ?thesis using assms cf by (simp add: Credential_Initialize_def)
  next
    case True
    have l: "length (s_rgCredProvFieldDescriptors W E) = 4" "length s_rgFieldStatePairs = 4"
      by (simp_all add: s_rgCredProvFieldDescriptors_def s_rgFieldStatePairs_def)
    then have "c1 = ?n\<lparr>descriptors := s_rgCredProvFieldDescriptors W E, state_pairs := s_rgFieldStatePairs\<rparr>"
      using copy_fields_ok [OF cf True] by (simp add: Credential_new_def SFI_NUM_FIELDS_def)
    then show ?thesis
      using assms cf True
      by (auto simp: Credential_Initialize_def Credential_new_def SHStrDupW_def put_field_def tile_ok_def tile_of_def delivered_def
          UnlockResult_new_def listener_new_def SUCCEEDED_def field_ids Let_def split: if_split_asm)
  qed
qed

section \<open>Properties of the tile\<close>

text \<open>
  C8: Whatever LogonUI, the user and the listener thread do with an initialised tile, in any
  order and number, it behaves as the specification says and never ends the process by
  replacing a listener thread that still runs. In particular a tile offers a credential only
  for the text in its password field or, if that is empty, for the password of an attempt
  that succeeded since the last report of a logon: a password from the phone serves once, and
  without either the serialization is refused.
\<close>

theorem windows_session:
  assumes "Credential_Initialize W E loc qn sid made cpus (Credential_new CPUS_INVALID) = (hr, c)" "SUCCEEDED hr"
  shows "\<exists>c'. cred_run W E es c = Inr c' \<and>
    (let t = fold (tile_step W) es ([], None) in
       tile_of W c' = t \<and> chosen_password W c' = tile_password t \<and>
       (tile_password t = None \<longrightarrow> GetSerialization W c' = Inr (E_ABORT, False, NoSerialization)) \<and>
       (\<exists>c''. SetSelected c' = Inr (snd t \<noteq> None, c'')) \<and>
       length (field_strings c') = SFI_NUM_FIELDS \<and> descriptors c' = s_rgCredProvFieldDescriptors W E)"
proof -
  have i: "tile_ok W E c" "tile_of W c = ([], None)" using Credential_Initialize_tile [OF assms] by simp_all
  then obtain c' where c': "cred_run W E es c = Inr c'" "tile_ok W E c'" "tile_of W c' = fold (tile_step W) es ([], None)"
    using cred_run_tile [of W E c es] by auto
  obtain c'' where "SetSelected c' = Inr (snd (tile_of W c') \<noteq> None, c'')"
  proof (cases "cred_listener c'")
    case None
    then show ?thesis using that by (simp add: SetSelected_def tile_of_def delivered_def)
  next
    case (Some l)
    then obtain l' where "Listener_Start l = Inr l'" using c'(2) Listener_Start_ok [of l] by (auto simp: tile_ok_def)
    then show ?thesis using that Some by (simp add: SetSelected_def tile_of_def delivered_def)
  qed
  then show ?thesis
    using c' chosen_password_tile [of W c'] by (auto simp: GetSerialization_def Let_def tile_ok_def)
qed

definition demo_win :: win_env where
  "demo_win = \<lparr>win_mem = \<lambda>_. True, win_buf = \<lambda>_. True, win_new = True, wide = map (\<lambda>c. of_char c),
     cred_api = \<lparr>protection = \<lambda>_. Some False, protect_size = \<lambda>s. Some (ERROR_INSUFFICIENT_BUFFER, length s + 1),
                 cred_protect = \<lambda>s. Inr (rev s)\<rparr>,
     logon_size = 64, lsa_connect = 0, lsa_lookup = \<lambda>_. (0, 9), pack_size = \<lambda>_ _. Some (ERROR_INSUFFICIENT_BUFFER, 40),
     pack_error = \<lambda>_ _. None\<rparr>"

definition demo_tile :: "bool \<Rightarrow> hresult \<times> credential" where
  "demo_tile loc = Credential_Initialize demo_win demo_env loc (S_OK, [0x50, 0x43, backslash_w, 0x61]) (S_OK, Some [0x53]) True
     CPUS_UNLOCK_WORKSTATION (Credential_new CPUS_INVALID)"

lemma demo_tile_SUCCEEDED: "fst (demo_tile loc) = S_OK"
  by (simp add: demo_tile_def Credential_Initialize_def demo_win_def SHStrDupW_def SUCCEEDED_def s_rgCredProvFieldDescriptors_def
      s_rgFieldStatePairs_def FieldDescriptorCopy_def Let_def)

text \<open>A delivered password is offered until the outcome of the logon is reported.\<close>

definition demo_success :: UnlockResult where
  "demo_success = (UnlockResult_new SUCCESS)\<lparr>result_password := ''pw''\<rparr>"

theorem windows_session_witness:
  "\<exists>hr c c1 c2. demo_tile True = (hr, c) \<and> cred_run demo_win demo_env [Selected, Delivered demo_success] c = Inr c1 \<and>
     chosen_password demo_win c1 = Some [0x70, 0x77] \<and>
     cred_run demo_win demo_env [Selected, Delivered demo_success, Reported 0xC000006D 0] c = Inr c2 \<and>
     GetSerialization demo_win c2 = Inr (E_ABORT, False, NoSerialization)"
proof -
  obtain c where c: "demo_tile True = (S_OK, c)" using demo_tile_SUCCEEDED [of True] by (metis prod.collapse)
  have s: "SUCCEEDED S_OK" by (simp add: SUCCEEDED_def)
  have p: "tile_password (fold (tile_step demo_win) [Selected, Delivered demo_success] ([], None)) = Some [0x70, 0x77]"
    by (simp add: tile_password_def delivered_def demo_success_def demo_win_def of_char_def UnlockResult_new_def)
  have n: "tile_password (fold (tile_step demo_win) [Selected, Delivered demo_success, Reported 0xC000006D 0] ([], None)) = None"
    by (simp add: tile_password_def)
  note w = windows_session [OF c [unfolded demo_tile_def] s]
  from w [of "[Selected, Delivered demo_success]"] w [of "[Selected, Delivered demo_success, Reported 0xC000006D 0]"]
  show ?thesis unfolding c Let_def p n by blast
qed

definition logon_message_of :: "usage_scenario \<Rightarrow> logon_message" where
  "logon_message_of cpus =
     (case cpus of CPUS_UNLOCK_WORKSTATION \<Rightarrow> KerbWorkstationUnlockLogon | CPUS_LOGON \<Rightarrow> KerbInteractiveLogon | _ \<Rightarrow> NoMessage)"

lemma KerbInit_message:
  "KerbInteractiveUnlockLogonInit d u p cpus = (hr, Some k) \<Longrightarrow> MessageType k = logon_message_of cpus"
  by (auto simp: KerbInteractiveUnlockLogonInit_def logon_message_of_def split: prod.split_asm option.split_asm usage_scenario.split_asm)

text \<open>Packing what \<^verbatim>\<open>KerbInteractiveUnlockLogonInit\<close> built never writes out of the buffer.\<close>

lemma Pack_cases:
  assumes "KerbInteractiveUnlockLogonInit (Some d) (Some u) q cpus = (hr, Some k)"
  obtains "KerbInteractiveUnlockLogonPack sz mem k = Inr (E_OUTOFMEMORY, None)"
  | p where "q = Some p" "hr = S_OK" "mem (sz + 2 * (length d + length u + length p))"
proof -
  from assms obtain p where p: "q = Some p" "hr = S_OK" and l: "unat (us_Length (LogonDomainName k)) = 2 * length d"
    "unat (us_Length (UserName k)) = 2 * length u" "unat (us_Length (Password k)) = 2 * length p"
    by (auto elim: KerbInit_Some)
  show thesis
  proof (cases "mem (sz + 2 * (length d + length u + length p))")
    case True
    with p that(2) show thesis by blast
  next
    case False
    then have "\<not> mem (sz + (2 * length d + 2 * length u + 2 * length p))" by (simp add: algebra_simps)
    then have "KerbInteractiveUnlockLogonPack sz mem k = Inr (E_OUTOFMEMORY, None)"
      using l by (simp add: KerbInteractiveUnlockLogonPack_def Let_def)
    then show thesis by (rule that(1))
  qed
qed

definition carries_logon :: "win_env \<Rightarrow> credential \<Rightarrow> wstr \<Rightarrow> 64 word \<Rightarrow> serialization \<Rightarrow> bool" where
  "carries_logon W c pwd base ser \<longleftrightarrow>
     (\<exists>d u q packed cb. qualified_name c = d @ backslash_w # u \<and> backslash_w \<notin> set d \<and>
        snd (ProtectIfNecessaryAndCopyPassword (cred_api W) (win_mem W) (win_buf W) (wcstr pwd) (cred_cpus c)) = Some q \<and>
        ser = PackedLogon packed cb \<and> cb = logon_size W + length (packed_extra packed) \<and>
        (let k = KerbInteractiveUnlockLogonUnpackInPlace (logon_size W) base cb (packed_struct packed) in
           MessageType k = logon_message_of (cred_cpus c) \<and>
           read_string (logon_size W) base (packed_extra packed) (LogonDomainName k) = wbytes d \<and>
           read_string (logon_size W) base (packed_extra packed) (UserName k) = wbytes u \<and>
           read_string (logon_size W) base (packed_extra packed) (Password k) = wbytes q))"

lemma serialize_local_result:
  assumes "0 < logon_size W" "logon_size W < 2 ^ 16"
  shows "\<exists>hr fin ser. serialize_local W c pwd = Inr (hr, fin, ser) \<and> (fin \<longrightarrow> SUCCEEDED hr \<and> carries_logon W c pwd base ser)"
proof -
  obtain h1 q where q: "ProtectIfNecessaryAndCopyPassword (cred_api W) (win_mem W) (win_buf W) (wcstr pwd) (cred_cpus c) = (h1, q)"
    by fastforce
  obtain h2 s where s: "SplitDomainAndUsername (win_mem W) (qualified_name c) = (h2, s)" by fastforce
  have refused: ?thesis if "serialize_local W c pwd = Inr (h, False, ser)" for h ser
    using that by blast
  show ?thesis
  proof (cases "SUCCEEDED h1")
    case False
    then show ?thesis using q by (intro refused) (simp add: serialize_local_def)
  next
    case ok: True
    show ?thesis
    proof (cases s)
      case None
      then show ?thesis using q s ok by (intro refused) (simp add: serialize_local_def)
    next
      case (Some du)
      obtain d u where du: "du = (d, u)" by fastforce
      have n: "qualified_name c = d @ backslash_w # u \<and> backslash_w \<notin> set d" using Split_Some s Some du by blast
      obtain h3 kk where k: "KerbInteractiveUnlockLogonInit (Some d) (Some u) q (cred_cpus c) = (h3, kk)" by fastforce
      show ?thesis
      proof (cases kk)
        case None
        then show ?thesis using q s ok Some du k by (intro refused) (simp add: serialize_local_def)
      next
        case kk: (Some k')
        note k = k [unfolded kk]
        show ?thesis
        proof (rule Pack_cases [OF k, where sz = "logon_size W" and mem = "win_buf W"])
          assume "KerbInteractiveUnlockLogonPack (logon_size W) (win_buf W) k' = Inr (E_OUTOFMEMORY, None)"
          then show ?thesis using q s ok Some du k by (intro refused) (simp add: serialize_local_def)
        next
          fix p
          assume p: "q = Some p" "h3 = S_OK" and m: "win_buf W (logon_size W + 2 * (length d + length u + length p))"
          from packed_reads [where mem = "win_buf W" and sz = "logon_size W" and base = base, OF k [unfolded p] m assms]
          obtain packed cb where pk: "KerbInteractiveUnlockLogonPack (logon_size W) (win_buf W) k' = Inr (S_OK, Some (packed, cb))"
            and cb: "cb = logon_size W + length (packed_extra packed)"
            and r: "let k'' = KerbInteractiveUnlockLogonUnpackInPlace (logon_size W) base cb (packed_struct packed) in
              MessageType k'' = MessageType k' \<and> read_string (logon_size W) base (packed_extra packed) (LogonDomainName k'') = wbytes d \<and>
              read_string (logon_size W) base (packed_extra packed) (UserName k'') = wbytes u \<and>
              read_string (logon_size W) base (packed_extra packed) (Password k'') = wbytes p"
            by blast
          have "carries_logon W c pwd base (PackedLogon packed cb)"
            unfolding carries_logon_def using n q p cb r KerbInit_message [OF k] by (auto simp: Let_def)
          moreover have "serialize_local W c pwd = Inr (auth_package W, SUCCEEDED (auth_package W), PackedLogon packed cb)"
            using q s ok Some du k pk by (simp add: serialize_local_def SUCCEEDED_def)
          ultimately show ?thesis by blast
        qed
      qed
    qed
  qed
qed

text \<open>
  C9: What a tile submits is the logon of its user with the password it has chosen. The
  serialization never writes outside its buffer; when it reports a finished credential, the
  call succeeded, and the packed buffer of a local user, unpacked at any address, holds the part of
  the qualified name before its first backslash as domain, the part after it as user name
  and the password, protected by Windows where the scenario asks for that, with
  the message type of the scenario; for any other user it is the buffer of the name and the
  password as they are.
\<close>

theorem serialization_carries:
  assumes "0 < logon_size W" "logon_size W < 2 ^ 16"
  shows "\<exists>hr fin ser. GetSerialization W c = Inr (hr, fin, ser) \<and>
    (fin \<longrightarrow> SUCCEEDED hr \<and> (\<exists>pwd. chosen_password W c = Some pwd \<and>
       (if is_local_user c then carries_logon W c pwd base ser else ser = CredBuffer (qualified_name c) (wcstr pwd))))"
proof (cases "chosen_password W c")
  case None
  then show ?thesis by (intro exI [of _ E_ABORT] exI [of _ False] exI [of _ NoSerialization]) (simp add: GetSerialization_def)
next
  case (Some pwd)
  have "\<exists>hr fin ser. serialize_other W c pwd = (hr, fin, ser) \<and> (fin \<longrightarrow> SUCCEEDED hr \<and> ser = CredBuffer (qualified_name c) (wcstr pwd))"
    by (auto simp: serialize_other_def Let_def split: option.split)
  then show ?thesis
    using Some serialize_local_result [where base = base, OF assms, of c pwd] by (auto simp: GetSerialization_def)
qed

text \<open>A typed password of a local user; the protection of this system turns it around.\<close>

theorem serialization_carries_witness:
  "\<exists>hr c c' packed cb. demo_tile True = (hr, c) \<and> cred_run demo_win demo_env [Typed 2 [0x31, 0x32]] c = Inr c' \<and>
     GetSerialization demo_win c' = Inr (S_OK, True, PackedLogon packed cb) \<and>
     read_string 64 0x10000 (packed_extra packed)
       (Password (KerbInteractiveUnlockLogonUnpackInPlace 64 0x10000 cb (packed_struct packed))) = [0x32, 0, 0x31, 0]"
proof -
  obtain c where c: "demo_tile True = (S_OK, c)" using demo_tile_SUCCEEDED [of True] by (metis prod.collapse)
  have i: "tile_ok demo_win demo_env c" "tile_of demo_win c = ([], None)" "cred_cpus c = CPUS_UNLOCK_WORKSTATION"
    "is_local_user c" "qualified_name c = [0x50, 0x43, backslash_w, 0x61]"
    using Credential_Initialize_tile [OF c [unfolded demo_tile_def]] by (simp_all add: SUCCEEDED_def)
  have d: "fd_cpft (descriptors c ! 2) = CPFT_PASSWORD_TEXT"
    using i(1) by (simp add: tile_ok_def s_rgCredProvFieldDescriptors_def)
  define c' where "c' = put_field 2 (Some [0x31, 0x32]) c"
  have r: "cred_run demo_win demo_env [Typed 2 [0x31, 0x32]] c = Inr c'"
    using d by (simp add: SetStringValue_def SHStrDupW_def demo_win_def c'_def SFI_NUM_FIELDS_def)
  have p: "chosen_password demo_win c' = Some [0x31, 0x32]"
    using i(1) by (simp add: chosen_password_def c'_def put_field_def field_ids tile_ok_def)
  have q: "ProtectIfNecessaryAndCopyPassword (cred_api demo_win) (win_mem demo_win) (win_buf demo_win) (wcstr [0x31, 0x32])
      CPUS_UNLOCK_WORKSTATION = (S_OK, Some [0x32, 0x31])"
    by (simp add: ProtectIfNecessaryAndCopyPassword_def ProtectAndCopyString_def demo_win_def wcstr_def)
  have s: "SplitDomainAndUsername (win_mem demo_win) [0x50, 0x43, backslash_w, 0x61] = (S_OK, Some ([0x50, 0x43], [0x61]))"
    by (simp add: SplitDomainAndUsername_def demo_win_def backslash_w_def Let_def)
  obtain k where k: "KerbInteractiveUnlockLogonInit (Some [0x50, 0x43]) (Some [0x61]) (Some [0x32, 0x31]) CPUS_UNLOCK_WORKSTATION = (S_OK, Some k)"
    by (simp add: KerbInteractiveUnlockLogonInit_def UnicodeStringInitWithString_def)
  have a: "auth_package demo_win = S_OK"
    by (simp add: auth_package_def RetrieveNegotiateAuthPackage_def nt_failed_def HRESULT_FROM_NT_def demo_win_def)
  have l: "is_local_user c'" "cred_cpus c' = CPUS_UNLOCK_WORKSTATION" "qualified_name c' = [0x50, 0x43, backslash_w, 0x61]"
    using i by (simp_all add: c'_def put_field_def)
  have m: "win_buf demo_win = (\<lambda>_. True)" by (simp add: demo_win_def)
  have z: "logon_size demo_win = 64" by (simp add: demo_win_def)
  have "\<exists>packed cb. KerbInteractiveUnlockLogonPack 64 (\<lambda>_. True) k = Inr (S_OK, Some (packed, cb))"
    using Pack_eq [where mem = "\<lambda>_. True" and sz = 64, OF k] by blast
  then obtain packed cb where pk: "KerbInteractiveUnlockLogonPack 64 (\<lambda>_. True) k = Inr (S_OK, Some (packed, cb))" by blast
  have g: "GetSerialization demo_win c' = Inr (S_OK, True, PackedLogon packed cb)"
    using q s k a pk by (simp add: GetSerialization_def p l serialize_local_def SUCCEEDED_def z m)
  have "carries_logon demo_win c' [0x31, 0x32] 0x10000 (PackedLogon packed cb)"
    using serialization_carries [of demo_win c' "0x10000"] g p l z by auto
  then have "read_string 64 0x10000 (packed_extra packed)
       (Password (KerbInteractiveUnlockLogonUnpackInPlace 64 0x10000 cb (packed_struct packed))) = wbytes [0x32, 0x31]"
    by (auto simp: carries_logon_def l q z Let_def)
  moreover have "wbytes [0x32, 0x31] = [0x32, 0, 0x31, 0]" by code_simp
  ultimately show ?thesis using c r g by auto
qed

section \<open>Properties of the provider\<close>

definition offers :: "credential \<Rightarrow> bool" where
  "offers c \<longleftrightarrow> result_state (unlock_result c) = SUCCESS"

lemma default_loop_none: "\<forall>c\<in>set cs. \<not> offers c \<Longrightarrow> default_loop idx cs r = r"
  by (induction cs arbitrary: idx) (simp_all add: offers_def)

lemma default_loop_last: "offers c \<Longrightarrow> \<forall>c\<in>set ds. \<not> offers c \<Longrightarrow> default_loop idx (cs @ c # ds) r = (Some (idx + length cs), True)"
proof (induction cs arbitrary: idx r)
  case Nil
  then have "result_state (unlock_result c) = SUCCESS" by (simp add: offers_def)
  then show ?case using default_loop_none [OF Nil(2)] by simp
qed simp

lemma default_loop_cases:
  obtains "default_loop 0 cs (None, False) = (None, False)" "\<forall>i < length cs. \<not> offers (cs ! i)"
  | i where "default_loop 0 cs (None, False) = (Some i, True)" "i < length cs" "offers (cs ! i)"
      "\<forall>j. i < j \<and> j < length cs \<longrightarrow> \<not> offers (cs ! j)"
proof (cases "\<exists>c\<in>set cs. offers c")
  case True
  then obtain xs c ys where s: "cs = xs @ c # ys" "offers c" "\<forall>c\<in>set ys. \<not> offers c"
    by (metis split_list_last_prop)
  have "\<not> offers (cs ! j)" if "length xs < j" "j < length cs" for j
  proof -
    have "cs ! j = ys ! (j - length xs - 1)" using s(1) that by (simp add: nth_append)
    moreover have "j - length xs - 1 < length ys" using s(1) that by simp
    ultimately have "cs ! j \<in> set ys" by simp
    with s(3) show ?thesis by blast
  qed
  then show ?thesis using default_loop_last [OF s(2,3), of 0 xs] s that(2) [of "length xs"] by simp
next
  case False
  then show ?thesis using default_loop_none that(1) by (metis nth_mem)
qed

lemma user_credentials_fresh:
  assumes "c \<in> set (user_credentials W E cpus entry)"
  shows "\<exists>user. entry = Some user \<and> qualified_name c = wu_name user \<and> is_local_user c = wu_local user \<and> cred_cpus c = cpus \<and>
    tile_ok W E c \<and> tile_of W c = ([], None) \<and> \<not> offers c \<and>
    GetDevicesForUser (json E) (devices_file E) (wu_utf8 user) \<noteq> []"
proof -
  from assms obtain user where u: "entry = Some user" by (cases entry) (simp_all add: user_credentials_def)
  obtain hr c' where i: "Credential_Initialize W E (wu_local user) (S_OK, wu_name user) (wu_sid user) (win_new W) cpus
      (Credential_new CPUS_INVALID) = (hr, c')" by fastforce
  have "c = c'" "SUCCEEDED hr" "GetDevicesForUser (json E) (devices_file E) (wu_utf8 user) \<noteq> []"
    using assms u i by (auto simp: user_credentials_def split: if_splits)
  with i have "Credential_Initialize W E (wu_local user) (S_OK, wu_name user) (wu_sid user) (win_new W) cpus
      (Credential_new CPUS_INVALID) = (hr, c)" "SUCCEEDED hr" "GetDevicesForUser (json E) (devices_file E) (wu_utf8 user) \<noteq> []"
    by simp_all
  then show ?thesis using u Credential_Initialize_tile by (simp add: offers_def UnlockResult_new_def)
qed

text \<open>
  C15: LogonUI is told to log on at once exactly when some tile holds a password from a phone,
  and the default it is given then is the last such tile; without one, the default is not
  written. Right after the scenario was set, the tiles are made anew: each belongs to a user of
  the screen for whom a device is paired, has no password and no text, and nobody is logged on.
\<close>

theorem autologon_by_success:
  assumes "GetCredentialCount W E users pr = ((n, dflt, autologon), pr')"
  shows "recreate pr' = False \<and> n = length (credentials pr') \<and> prov_cpus pr' = prov_cpus pr \<and>
    (autologon \<longleftrightarrow> (\<exists>i<n. offers (credentials pr' ! i))) \<and> (autologon \<longleftrightarrow> dflt \<noteq> None) \<and>
    (\<forall>i. dflt = Some i \<longrightarrow> i < n \<and> offers (credentials pr' ! i) \<and> (\<forall>j. i < j \<and> j < n \<longrightarrow> \<not> offers (credentials pr' ! j))) \<and>
    (if recreate pr then
       \<not> autologon \<and> (\<forall>c \<in> set (credentials pr'). tile_ok W E c \<and> tile_of W c = ([], None) \<and> cred_cpus c = prov_cpus pr \<and>
         (\<exists>user. Some user \<in> set users \<and> qualified_name c = wu_name user \<and>
            GetDevicesForUser (json E) (devices_file E) (wu_utf8 user) \<noteq> []))
     else credentials pr' = credentials pr)"
proof -
  let ?pr = "if recreate pr then pr\<lparr>recreate := False, credentials := EnumerateCredentials W E users (prov_cpus pr)\<rparr> else pr"
  have d: "default_loop 0 (credentials ?pr) (None, False) = (dflt, autologon)" and p: "pr' = ?pr" and n: "n = length (credentials ?pr)"
    using assms by (auto simp: GetCredentialCount_def Let_def split: prod.splits)
  have auto: "(autologon \<longleftrightarrow> (\<exists>i<n. offers (credentials pr' ! i))) \<and> (autologon \<longleftrightarrow> dflt \<noteq> None) \<and>
    (\<forall>i. dflt = Some i \<longrightarrow> i < n \<and> offers (credentials pr' ! i) \<and> (\<forall>j. i < j \<and> j < n \<longrightarrow> \<not> offers (credentials pr' ! j)))"
    by (rule default_loop_cases [of "credentials ?pr"]) (use d p n in auto)
  have fresh: "tile_ok W E c \<and> tile_of W c = ([], None) \<and> cred_cpus c = prov_cpus pr \<and> \<not> offers c \<and>
      (\<exists>user. Some user \<in> set users \<and> qualified_name c = wu_name user \<and>
         GetDevicesForUser (json E) (devices_file E) (wu_utf8 user) \<noteq> [])"
    if "recreate pr" "c \<in> set (credentials pr')" for c
  proof -
    from that p obtain entry where "entry \<in> set users" "c \<in> set (user_credentials W E (prov_cpus pr) entry)"
      by (auto simp: EnumerateCredentials_def split: if_splits)
    then show ?thesis using user_credentials_fresh by blast
  qed
  then have "recreate pr \<Longrightarrow> \<not> autologon" using auto n p by (metis nth_mem)
  then show ?thesis using auto fresh p n by auto
qed

text \<open>Of three tiles the first two hold a password; the second is logged on.\<close>

theorem autologon_by_success_witness:
  "\<exists>c. snd (demo_tile True) = c \<and>
     (let s = SetUnlockData demo_win demo_env demo_success c;
          pr = Provider_new\<lparr>recreate := False, credentials := [s, s, c]\<rparr> in
        GetCredentialCount demo_win demo_env [] pr = ((3, Some 1, True), pr))"
proof -
  obtain c where c: "demo_tile True = (S_OK, c)" using demo_tile_SUCCEEDED [of True] by (metis prod.collapse)
  have n: "\<not> offers c"
    using Credential_Initialize_tile [OF c [unfolded demo_tile_def]] by (simp add: SUCCEEDED_def offers_def UnlockResult_new_def)
  define s where "s = SetUnlockData demo_win demo_env demo_success c"
  have y: "offers s"
    by (simp add: s_def SetUnlockData_def UpdateMessage_def put_field_def offers_def demo_success_def UnlockResult_new_def Let_def)
  define pr where "pr = Provider_new\<lparr>recreate := False, credentials := [s, s, c]\<rparr>"
  obtain m dflt autologon pr' where g: "GetCredentialCount demo_win demo_env [] pr = ((m, dflt, autologon), pr')"
    by (metis prod.collapse)
  note w = autologon_by_success [OF g]
  from w have cr: "credentials pr' = [s, s, c]" "m = 3" by (simp_all add: pr_def)
  moreover have a: "autologon" using w cr y by (metis nth_Cons_0 zero_less_numeral)
  moreover have "dflt = Some 1"
  proof -
    obtain i where i: "dflt = Some i" using w a by blast
    then have "i < 3" "offers ([s, s, c] ! i)" and l: "\<forall>j. i < j \<and> j < 3 \<longrightarrow> \<not> offers ([s, s, c] ! j)" using w cr by metis+
    moreover have "i \<noteq> 0" using l y by (metis One_nat_def less_one nth_Cons_0 nth_Cons_Suc one_less_numeral_iff semiring_norm(77))
    moreover have "i \<noteq> 2" using calculation(2) n by auto
    ultimately show ?thesis using i by auto
  qed
  moreover have "pr' = pr" using g by (auto simp: GetCredentialCount_def pr_def Let_def split: prod.splits)
  ultimately show ?thesis using c g by (auto simp: s_def pr_def Let_def)
qed

end
