(* ===== verification/WinModule.thy ===== *)
theory WinModule
  imports WinCredential
begin

text \<open>
  The life of the objects of the credential provider, \<^verbatim>\<open>win-pcbiounlock/src\<close>: the reference counts of
  providers (\<^verbatim>\<open>CSampleProvider\<close>) and tiles (\<^verbatim>\<open>CUnlockCredential\<close>), their destructors, and the count
  of the module (\<^verbatim>\<open>Dll.cpp\<close>) that decides whether it may be unloaded. The count of the module
  changes by interlocked operations, those of the objects by plain ones, so the calls
  are taken one after the other.
\<close>

section \<open>Objects\<close>

text \<open>A provider with its \<^verbatim>\<open>_pCredentials\<close>, a tile with its \<^verbatim>\<open>_pCredentialProvider\<close>.\<close>

datatype com_object = ProviderObj "nat list" | CredentialObj nat

text \<open>
  \<open>objs\<close> are the objects that exist, with their \<^verbatim>\<open>_cRef\<close>. \<open>held\<close> and \<open>locks\<close> are not in the code: the
  references and locks LogonUI has.
\<close>

record com_state =
  objs :: "nat \<Rightarrow> (int \<times> com_object) option"
  next_obj :: nat
  g_cRef :: int
  held :: "nat \<Rightarrow> nat"
  locks :: nat

definition com_init :: com_state where
  "com_init = \<lparr>objs = Map.empty, next_obj = 0, g_cRef = 0, held = \<lambda>_. 0, locks = 0\<rparr>"

text \<open>\<open>None\<close>: an object is used that does not exist any more.\<close>

definition AddRef :: "nat \<Rightarrow> com_state \<Rightarrow> com_state option" where
  "AddRef i s = (case objs s i of None \<Rightarrow> None | Some (r, k) \<Rightarrow> Some (s\<lparr>objs := (objs s)(i \<mapsto> (r + 1, k))\<rparr>))"

definition delete_object :: "nat \<Rightarrow> com_state \<Rightarrow> com_state" where
  "delete_object i s = s\<lparr>objs := (objs s)(i := None), g_cRef := DllRelease (g_cRef s)\<rparr>"

definition Credential_Release :: "nat \<Rightarrow> com_state \<Rightarrow> com_state option" where
  "Credential_Release i s =
     (case objs s i of
        Some (r, CredentialObj p) \<Rightarrow>
          let s = s\<lparr>objs := (objs s)(i \<mapsto> (r - 1, CredentialObj p))\<rparr>
          in Some (if r - 1 = 0 then delete_object i s else s)
      | _ \<Rightarrow> None)"

fun release_all :: "nat list \<Rightarrow> com_state \<Rightarrow> com_state option" where
  "release_all [] s = Some s"
| "release_all (i # cs) s = (case Credential_Release i s of None \<Rightarrow> None | Some s \<Rightarrow> release_all cs s)"

definition Provider_Release :: "nat \<Rightarrow> com_state \<Rightarrow> com_state option" where
  "Provider_Release i s =
     (case objs s i of
        Some (r, ProviderObj cs) \<Rightarrow>
          let s = s\<lparr>objs := (objs s)(i \<mapsto> (r - 1, ProviderObj cs))\<rparr>
          in if r - 1 = 0 then map_option (delete_object i) (release_all cs s) else Some s
      | _ \<Rightarrow> None)"

definition Release :: "nat \<Rightarrow> com_state \<Rightarrow> com_state option" where
  "Release i s = (case objs s i of Some (r, CredentialObj p) \<Rightarrow> Credential_Release i s | _ \<Rightarrow> Provider_Release i s)"

text \<open>\<^verbatim>\<open>new\<close> of an object: its constructor counts it for the module.\<close>

definition new_object :: "com_object \<Rightarrow> com_state \<Rightarrow> com_state" where
  "new_object k s = s\<lparr>objs := (objs s)(next_obj s \<mapsto> (1, k)), next_obj := next_obj s + 1, g_cRef := DllAddRef (g_cRef s)\<rparr>"

text \<open>\<open>found\<close>: \<^verbatim>\<open>QueryInterface\<close> knows the interface.\<close>

definition CSample_CreateInstance :: "bool \<Rightarrow> com_state \<Rightarrow> com_state option" where
  "CSample_CreateInstance found s =
     (let i = next_obj s; s = new_object (ProviderObj []) s in
      if found then
        (case AddRef i s of None \<Rightarrow> None | Some s \<Rightarrow> Provider_Release i (s\<lparr>held := (held s)(i := held s i + 1)\<rparr>))
      else Provider_Release i s)"

text \<open>The tile of one device; \<open>ok\<close>: \<^verbatim>\<open>Initialize\<close> succeeded.\<close>

definition add_tile :: "nat \<Rightarrow> bool \<Rightarrow> com_state \<Rightarrow> com_state option" where
  "add_tile p ok s =
     (let i = next_obj s; s = new_object (CredentialObj p) s in
      if \<not> ok then Credential_Release i s
      else (case objs s p of
              Some (r, ProviderObj cs) \<Rightarrow> Some (s\<lparr>objs := (objs s)(p \<mapsto> (r, ProviderObj (cs @ [i])))\<rparr>)
            | _ \<Rightarrow> None))"

fun add_tiles :: "nat \<Rightarrow> bool list \<Rightarrow> com_state \<Rightarrow> com_state option" where
  "add_tiles p [] s = Some s"
| "add_tiles p (ok # oks) s = (case add_tile p ok s of None \<Rightarrow> None | Some s \<Rightarrow> add_tiles p oks s)"

text \<open>\<^verbatim>\<open>_ReleaseEnumeratedCredentials\<close> and \<^verbatim>\<open>_CreateEnumeratedCredentials\<close>.\<close>

definition ReleaseEnumeratedCredentials :: "nat \<Rightarrow> com_state \<Rightarrow> com_state option" where
  "ReleaseEnumeratedCredentials p s =
     (case objs s p of
        Some (r, ProviderObj cs) \<Rightarrow>
          map_option (\<lambda>s. s\<lparr>objs := (objs s)(p \<mapsto> (r, ProviderObj []))\<rparr>) (release_all cs s)
      | _ \<Rightarrow> None)"

definition recreate_tiles :: "nat \<Rightarrow> bool list \<Rightarrow> com_state \<Rightarrow> com_state option" where
  "recreate_tiles p oks s = (case ReleaseEnumeratedCredentials p s of None \<Rightarrow> None | Some s \<Rightarrow> add_tiles p oks s)"

definition tile_at :: "nat \<Rightarrow> nat \<Rightarrow> com_state \<Rightarrow> com_state option" where
  "tile_at p idx s =
     (case objs s p of
        Some (r, ProviderObj cs) \<Rightarrow>
          if idx < length cs then map_option (\<lambda>s. s\<lparr>held := (held s)(cs ! idx := held s (cs ! idx) + 1)\<rparr>) (AddRef (cs ! idx) s)
          else Some s
      | _ \<Rightarrow> None)"

section \<open>Clients\<close>

text \<open>
  The calls of LogonUI. \<open>may\<close> is what COM asks of a client: it only uses, and only gives back, what it
  has a reference to.
\<close>

datatype com_call =
    Create bool | Duplicate nat | GiveBack nat | Enumerate nat "bool list" | Fetch nat nat | Locking bool

fun may :: "com_call \<Rightarrow> com_state \<Rightarrow> bool" where
  "may (Create _) s = True"
| "may (Duplicate i) s = (0 < held s i)"
| "may (GiveBack i) s = (0 < held s i)"
| "may (Enumerate p _) s = (0 < held s p \<and> (\<exists>r cs. objs s p = Some (r, ProviderObj cs)))"
| "may (Fetch p _) s = (0 < held s p \<and> (\<exists>r cs. objs s p = Some (r, ProviderObj cs)))"
| "may (Locking b) s = (b \<or> 0 < locks s)"

fun com_step :: "com_call \<Rightarrow> com_state \<Rightarrow> com_state option" where
  "com_step (Create found) s = CSample_CreateInstance found s"
| "com_step (Duplicate i) s = map_option (\<lambda>s. s\<lparr>held := (held s)(i := held s i + 1)\<rparr>) (AddRef i s)"
| "com_step (GiveBack i) s = Release i (s\<lparr>held := (held s)(i := held s i - 1)\<rparr>)"
| "com_step (Enumerate p oks) s = recreate_tiles p oks s"
| "com_step (Fetch p idx) s = tile_at p idx s"
| "com_step (Locking b) s = Some (s\<lparr>g_cRef := LockServer b (g_cRef s), locks := (if b then locks s + 1 else locks s - 1)\<rparr>)"

inductive com_reach :: "com_state option \<Rightarrow> bool" where
  com_start: "com_reach (Some com_init)"
| com_next: "com_reach (Some s) \<Longrightarrow> may c s \<Longrightarrow> com_reach (com_step c s)"

inductive_cases com_reachE: "com_reach x"

section \<open>The invariant\<close>

text \<open>The tiles some provider has in its list, each with one reference.\<close>

definition owned :: "com_state \<Rightarrow> nat set" where
  "owned s = {c. \<exists>p r cs. objs s p = Some (r, ProviderObj cs) \<and> c \<in> set cs}"

definition is_tile :: "com_state \<Rightarrow> nat \<Rightarrow> nat \<Rightarrow> bool" where
  "is_tile s p c \<longleftrightarrow> (\<exists>r. objs s c = Some (r, CredentialObj p))"

definition tiles_ok :: "com_state \<Rightarrow> bool" where
  "tiles_ok s \<longleftrightarrow> (\<forall>p r cs. objs s p = Some (r, ProviderObj cs) \<longrightarrow> distinct cs \<and> (\<forall>c\<in>set cs. is_tile s p c))"

text \<open>
  The counts are right, apart from those of the objects in \<open>X\<close>, if exactly the tiles in
  \<open>own\<close> have the reference of a provider.
\<close>

definition com_inv :: "nat set \<Rightarrow> nat set \<Rightarrow> com_state \<Rightarrow> bool" where
  "com_inv X own s \<longleftrightarrow>
     finite (dom (objs s)) \<and> (\<forall>i\<in>dom (objs s). i < next_obj s) \<and>
     (\<forall>i r k. objs s i = Some (r, k) \<longrightarrow> i \<notin> X \<longrightarrow> r = int (held s i) + (if i \<in> own then 1 else 0) \<and> 0 < r) \<and>
     (\<forall>i. 0 < held s i \<or> i \<in> own \<longrightarrow> i \<in> dom (objs s)) \<and>
     g_cRef s = int (card (dom (objs s))) + int (locks s)"

definition com_ok :: "com_state \<Rightarrow> bool" where
  "com_ok s \<longleftrightarrow> com_inv {} (owned s) s \<and> tiles_ok s"

text \<open>What an operation does not change.\<close>

definition same_frame :: "com_state \<Rightarrow> com_state \<Rightarrow> bool" where
  "same_frame s t \<longleftrightarrow> held t = held s \<and> locks t = locks s \<and> next_obj t = next_obj s"

lemma com_inv_exempt:
  "com_inv X own s \<Longrightarrow> com_inv (insert i X) own s"
  "com_inv (insert i X) own s \<Longrightarrow> com_inv (insert i X) (own - {i}) s"
  by (auto simp: com_inv_def)

lemma com_inv_refs:
  "com_inv X own s \<Longrightarrow> objs s i = Some (r, k) \<Longrightarrow> i \<notin> X \<Longrightarrow> r = int (held s i) + (if i \<in> own then 1 else 0) \<and> 0 < r"
  unfolding com_inv_def by blast

lemma com_inv_dom: "com_inv X own s \<Longrightarrow> 0 < held s i \<or> i \<in> own \<Longrightarrow> i \<in> dom (objs s)"
  unfolding com_inv_def by blast

lemma com_inv_own:
  assumes "com_inv X own s" "i \<in> X" "i \<in> dom (objs s)"
  shows "com_inv X (insert i own) s"
proof -
  have "r = int (held s j) + (if j \<in> insert i own then 1 else 0) \<and> 0 < r" if j: "objs s j = Some (r, k)" "j \<notin> X" for j r k
  proof -
    have "j \<noteq> i" using j(2) assms(2) by blast
    then show ?thesis using com_inv_refs [OF assms(1) j] by simp
  qed
  moreover have "j \<in> dom (objs s)" if "0 < held s j \<or> j \<in> insert i own" for j
    using that assms(3) com_inv_dom [OF assms(1), of j] by (cases "j = i") simp_all
  ultimately show ?thesis using assms(1) unfolding com_inv_def by blast
qed

lemma com_inv_held:
  assumes "com_inv X own s" "i \<in> X" "i \<in> dom (objs s)"
  shows "com_inv X own (s\<lparr>held := (held s)(i := n)\<rparr>)"
proof -
  have "r = int (((held s)(i := n)) j) + (if j \<in> own then 1 else 0) \<and> 0 < r" if j: "objs s j = Some (r, k)" "j \<notin> X" for j r k
  proof -
    have "j \<noteq> i" using j(2) assms(2) by blast
    then show ?thesis using com_inv_refs [OF assms(1) j] by simp
  qed
  moreover have "j \<in> dom (objs s)" if "0 < ((held s)(i := n)) j \<or> j \<in> own" for j
    using that assms(3) com_inv_dom [OF assms(1), of j] by (cases "j = i") simp_all
  moreover have e: "objs (s\<lparr>held := (held s)(i := n)\<rparr>) = objs s" "next_obj (s\<lparr>held := (held s)(i := n)\<rparr>) = next_obj s"
    "held (s\<lparr>held := (held s)(i := n)\<rparr>) = (held s)(i := n)" "g_cRef (s\<lparr>held := (held s)(i := n)\<rparr>) = g_cRef s"
    "locks (s\<lparr>held := (held s)(i := n)\<rparr>) = locks s" by simp_all
  ultimately show ?thesis using assms(1) unfolding com_inv_def e by blast
qed

lemma com_inv_update:
  assumes "com_inv (insert i X) own s" "i \<in> dom (objs s)"
  shows "com_inv (insert i X) own (s\<lparr>objs := (objs s)(i \<mapsto> (r, k))\<rparr>)"
    and "0 < r \<Longrightarrow> r = int (held s i) + (if i \<in> own then 1 else 0) \<Longrightarrow> com_inv X own (s\<lparr>objs := (objs s)(i \<mapsto> (r, k))\<rparr>)"
proof -
  have d: "insert i (dom (objs s)) = dom (objs s)" using assms(2) by blast
  show "com_inv (insert i X) own (s\<lparr>objs := (objs s)(i \<mapsto> (r, k))\<rparr>)"
    using assms d by (auto simp: com_inv_def)
  show "com_inv X own (s\<lparr>objs := (objs s)(i \<mapsto> (r, k))\<rparr>)" if "0 < r" "r = int (held s i) + (if i \<in> own then 1 else 0)"
    using assms d that by (auto simp: com_inv_def)
qed

lemma com_inv_delete:
  assumes "com_inv (insert i X) own s" "i \<in> dom (objs s)" "held s i = 0" "i \<notin> own"
  shows "com_inv X own (delete_object i s)"
proof -
  have "0 < card (dom (objs s))" using assms(1,2) by (auto simp: com_inv_def card_gt_0_iff)
  moreover have "card (dom (objs s) - {i}) = card (dom (objs s)) - 1" using assms(1,2) by (simp add: com_inv_def)
  ultimately have c: "int (card (dom (objs s) - {i})) = int (card (dom (objs s))) - 1" by simp
  show ?thesis using assms c by (auto simp: com_inv_def delete_object_def DllRelease_def)
qed

text \<open>One reference of a tile goes.\<close>

lemma Credential_Release_inv:
  assumes "com_inv (insert i X) own s" "objs s i = Some (r, CredentialObj p)" "r = int (held s i) + (if i \<in> own then 1 else 0) + 1"
  shows "\<exists>t. Credential_Release i s = Some t \<and> com_inv X own t \<and> same_frame s t \<and> (\<forall>j. j \<noteq> i \<longrightarrow> objs t j = objs s j) \<and>
    (objs t i = None \<or> is_tile t p i)"
proof -
  let ?s = "s\<lparr>objs := (objs s)(i \<mapsto> (r - 1, CredentialObj p))\<rparr>"
  have d: "i \<in> dom (objs s)" using assms(2) by blast
  show ?thesis
  proof (cases "r - 1 = 0")
    case True
    then have z: "held s i = 0" "i \<notin> own" using assms(3) by (auto split: if_splits)
    have "com_inv (insert i X) own ?s" by (rule com_inv_update(1) [OF assms(1) d])
    then have "com_inv X own (delete_object i ?s)" by (rule com_inv_delete) (use z in auto)
    then show ?thesis using assms(2) True by (simp add: Credential_Release_def Let_def same_frame_def delete_object_def)
  next
    case False
    then have "com_inv X own ?s" using assms(3) by (intro com_inv_update(2) [OF assms(1) d]) (auto split: if_splits)
    then show ?thesis using assms(2) False by (simp add: Credential_Release_def Let_def same_frame_def is_tile_def)
  qed
qed

lemma release_all_inv:
  assumes "com_inv X own s" "distinct cs" "set cs \<subseteq> own" "set cs \<inter> X = {}" "\<forall>c\<in>set cs. is_tile s p c"
  shows "\<exists>t. release_all cs s = Some t \<and> com_inv X (own - set cs) t \<and> same_frame s t \<and>
    (\<forall>j. j \<notin> set cs \<longrightarrow> objs t j = objs s j) \<and> (\<forall>c\<in>set cs. objs t c = None \<or> is_tile t p c)"
  using assms
proof (induction cs arbitrary: s own)
  case Nil
  then show ?case by (simp add: same_frame_def)
next
  case (Cons i cs)
  obtain r where r: "objs s i = Some (r, CredentialObj p)" using Cons.prems(5) by (auto simp: is_tile_def)
  have "r = int (held s i) + 1" using com_inv_refs [OF Cons.prems(1) r] Cons.prems(3,4) by auto
  moreover have e: "com_inv (insert i X) (own - {i}) s" using Cons.prems(1) com_inv_exempt by blast
  ultimately obtain u where u: "Credential_Release i s = Some u" "com_inv X (own - {i}) u" "same_frame s u"
    "\<forall>j. j \<noteq> i \<longrightarrow> objs u j = objs s j" "objs u i = None \<or> is_tile u p i"
    using Credential_Release_inv [OF e r] by auto
  have t: "\<forall>c\<in>set cs. is_tile u p c" using u(4) Cons.prems(2,5) by (auto simp: is_tile_def)
  obtain v where v: "release_all cs u = Some v" "com_inv X (own - {i} - set cs) v" "same_frame u v"
    "\<forall>j. j \<notin> set cs \<longrightarrow> objs v j = objs u j" "\<forall>c\<in>set cs. objs v c = None \<or> is_tile v p c"
    using Cons.IH [OF u(2) _ _ _ t] Cons.prems(2,3,4) by auto
  have "objs v i = objs u i" using v(4) Cons.prems(2) by simp
  then have "objs v i = None \<or> is_tile v p i" using u(5) by (simp add: is_tile_def)
  moreover have "own - {i} - set cs = own - set (i # cs)" by auto
  ultimately show ?case using u v by (auto simp: same_frame_def)
qed

text \<open>A provider without its tiles, or gone.\<close>

lemma owned_drop:
  assumes "tiles_ok s" "objs s p = Some (r, ProviderObj cs)"
    and "\<forall>j. j \<notin> set cs \<longrightarrow> j \<noteq> p \<longrightarrow> objs t j = objs s j" "\<forall>c\<in>set cs. objs t c = None \<or> is_tile t p c"
    and "objs t p = None \<or> (\<exists>r'. objs t p = Some (r', ProviderObj []))"
  shows "owned t = owned s - set cs \<and> tiles_ok t"
proof -
  have tile: "is_tile s p c" if "c \<in> set cs" for c using assms(1,2) that by (auto simp: tiles_ok_def)
  have lists: "(\<exists>r'. objs t q = Some (r', ProviderObj ds) \<and> ds \<noteq> []) \<longleftrightarrow> (\<exists>r'. objs s q = Some (r', ProviderObj ds) \<and> ds \<noteq> [] \<and> q \<noteq> p)" for q ds
  proof (cases "q \<in> set cs")
    case True
    then show ?thesis using tile [OF True] assms(4) by (auto simp: is_tile_def)
  next
    case False
    then show ?thesis using assms(3,5) by (cases "q = p") auto
  qed
  have other: "c \<notin> set cs \<and> c \<noteq> p \<and> is_tile s q c" if "objs s q = Some (r', ProviderObj ds)" "q \<noteq> p" "c \<in> set ds" for q r' ds c
  proof -
    have "is_tile s q c" using assms(1) that by (auto simp: tiles_ok_def)
    then show ?thesis using tile [of c] that(2) assms(2) by (auto simp: is_tile_def)
  qed
  have "owned t = owned s - set cs"
  proof (intro equalityI subsetI)
    fix c assume "c \<in> owned t"
    then obtain q r' ds where q: "objs t q = Some (r', ProviderObj ds)" "c \<in> set ds" by (auto simp: owned_def)
    then obtain r'' where "objs s q = Some (r'', ProviderObj ds)" "q \<noteq> p" using lists [of q ds] by auto
    then show "c \<in> owned s - set cs" using q(2) other by (auto simp: owned_def)
  next
    fix c assume c: "c \<in> owned s - set cs"
    then obtain q r' ds where q: "objs s q = Some (r', ProviderObj ds)" "c \<in> set ds" by (auto simp: owned_def)
    then have "q \<noteq> p" using c assms(2) by auto
    then show "c \<in> owned t" using q lists [of q ds] by (auto simp: owned_def)
  qed
  moreover have "tiles_ok t"
    unfolding tiles_ok_def
  proof (intro allI impI)
    fix q r' ds
    assume q: "objs t q = Some (r', ProviderObj ds)"
    show "distinct ds \<and> (\<forall>c\<in>set ds. is_tile t q c)"
    proof (cases "ds = []")
      case False
      then obtain r'' where s: "objs s q = Some (r'', ProviderObj ds)" "q \<noteq> p" using q lists [of q ds] by auto
      then show ?thesis using other [OF s] assms(1,3) by (auto simp: tiles_ok_def is_tile_def)
    qed simp
  qed
  ultimately show ?thesis by blast
qed

lemma com_ok_inv: "com_ok s \<Longrightarrow> com_inv {} (owned s) s" and com_ok_tiles: "com_ok s \<Longrightarrow> tiles_ok s"
  by (simp_all add: com_ok_def)

lemma provider_not_owned: "tiles_ok s \<Longrightarrow> objs s p = Some (r, ProviderObj cs) \<Longrightarrow> p \<notin> owned s"
  by (fastforce simp: owned_def tiles_ok_def is_tile_def)

lemma owned_list: "objs s p = Some (r, ProviderObj cs) \<Longrightarrow> set cs \<subseteq> owned s"
  by (auto simp: owned_def)

text \<open>A change of the counts alone.\<close>

lemma owned_refs:
  assumes "objs s i = Some (r, k)" "objs t = (objs s)(i \<mapsto> (r', k))"
  shows "owned t = owned s \<and> (tiles_ok s \<longrightarrow> tiles_ok t)"
proof -
  have k: "(\<exists>x. objs t j = Some (x, k')) \<longleftrightarrow> (\<exists>x. objs s j = Some (x, k'))" for j k' using assms by auto
  have "owned t = owned s" unfolding owned_def using k by blast
  moreover have "tiles_ok t \<longleftrightarrow> tiles_ok s" unfolding tiles_ok_def is_tile_def using k by blast
  ultimately show ?thesis by simp
qed

lemma AddRef_held:
  assumes "com_ok s" "i \<in> dom (objs s)"
  shows "\<exists>t. AddRef i s = Some t \<and> com_ok (t\<lparr>held := (held t)(i := held t i + 1)\<rparr>)"
proof -
  from assms(2) obtain r k where r: "objs s i = Some (r, k)" by auto
  let ?h = "s\<lparr>held := (held s)(i := held s i + 1)\<rparr>"
  let ?t = "?h\<lparr>objs := (objs ?h)(i \<mapsto> (r + 1, k))\<rparr>"
  have e: "com_inv {i} (owned s) ?h" by (rule com_inv_held [OF com_inv_exempt(1) [OF com_ok_inv [OF assms(1)]]]) (use r in auto)
  have d: "i \<in> dom (objs ?h)" using r by auto
  have "com_inv {} (owned s) ?t"
    using com_inv_refs [OF com_ok_inv [OF assms(1)] r] by (intro com_inv_update(2) [OF e d]) auto
  moreover have "owned ?t = owned s" "tiles_ok ?t" using owned_refs [OF r, of ?t "r + 1"] com_ok_tiles [OF assms(1)] by simp_all
  ultimately have "com_ok ?t" by (simp add: com_ok_def)
  moreover have "AddRef i s = Some (s\<lparr>objs := (objs s)(i \<mapsto> (r + 1, k))\<rparr>)" using r by (simp add: AddRef_def)
  moreover have "(s\<lparr>objs := (objs s)(i \<mapsto> (r + 1, k))\<rparr>)\<lparr>held := (held (s\<lparr>objs := (objs s)(i \<mapsto> (r + 1, k))\<rparr>))
      (i := held (s\<lparr>objs := (objs s)(i \<mapsto> (r + 1, k))\<rparr>) i + 1)\<rparr> = ?t" by simp
  ultimately show ?thesis by metis
qed

text \<open>A provider loses a reference that nobody has any more.\<close>

lemma Provider_Release_ok:
  assumes "com_inv {p} (owned s) s" "tiles_ok s" "objs s p = Some (r, ProviderObj cs)" "r = int (held s p) + 1"
  shows "\<exists>t. Provider_Release p s = Some t \<and> com_ok t"
proof -
  let ?s = "s\<lparr>objs := (objs s)(p \<mapsto> (r - 1, ProviderObj cs))\<rparr>"
  have d: "p \<in> dom (objs s)" using assms(3) by blast
  have no: "p \<notin> owned s" using provider_not_owned assms(2,3) by blast
  have o: "owned ?s = owned s" "tiles_ok ?s" using owned_refs [OF assms(3), of ?s "r - 1"] assms(2) by simp_all
  show ?thesis
  proof (cases "r - 1 = 0")
    case False
    then have "com_inv {} (owned s) ?s" using assms(4) no by (intro com_inv_update(2) [OF assms(1) d]) auto
    then show ?thesis using False assms(3) o by (simp add: Provider_Release_def Let_def com_ok_def)
  next
    case True
    have i: "com_inv {p} (owned s) ?s" by (rule com_inv_update(1) [OF assms(1) d])
    have "objs ?s p = Some (r - 1, ProviderObj cs)" by simp
    then have "distinct cs" "\<forall>c\<in>set cs. is_tile ?s p c" using o(2) unfolding tiles_ok_def by blast+
    then have cs: "distinct cs" "set cs \<subseteq> owned s" "set cs \<inter> {p} = {}" "\<forall>c\<in>set cs. is_tile ?s p c"
      using owned_list [OF assms(3)] no by auto
    obtain t where t: "release_all cs ?s = Some t" "com_inv {p} (owned s - set cs) t" "same_frame ?s t"
      "\<forall>j. j \<notin> set cs \<longrightarrow> objs t j = objs ?s j" "\<forall>c\<in>set cs. objs t c = None \<or> is_tile t p c"
      using release_all_inv [OF i cs] by blast
    let ?d = "delete_object p t"
    have pd: "objs t p = Some (0, ProviderObj cs)" using t(4) cs(3) True by auto
    have "com_inv {} (owned s - set cs) ?d"
      by (rule com_inv_delete [OF t(2)]) (use pd t(3) assms(4) True no in \<open>auto simp: same_frame_def\<close>)
    moreover have "owned ?d = owned ?s - set cs \<and> tiles_ok ?d"
      by (rule owned_drop [OF o(2), of p "r - 1" cs]) (use t(4,5) cs(3) in \<open>auto simp: delete_object_def is_tile_def\<close>)
    ultimately show ?thesis using t(1) assms(3) True o(1) by (simp add: Provider_Release_def Let_def com_ok_def)
  qed
qed

lemma Release_ok:
  assumes "com_inv {i} (owned s) s" "tiles_ok s" "objs s i = Some (r, k)" "r = int (held s i) + (if i \<in> owned s then 1 else 0) + 1"
  shows "\<exists>t. Release i s = Some t \<and> com_ok t"
proof (cases k)
  case (ProviderObj cs)
  then have "i \<notin> owned s" using provider_not_owned assms(2,3) by blast
  then show ?thesis using Provider_Release_ok [OF assms(1,2)] assms(3,4) ProviderObj by (simp add: Release_def)
next
  case (CredentialObj p)
  then obtain t where t: "Credential_Release i s = Some t" "com_inv {} (owned s) t" "\<forall>j. j \<noteq> i \<longrightarrow> objs t j = objs s j"
    "objs t i = None \<or> is_tile t p i"
    using Credential_Release_inv [of i "{}" "owned s" s r p] assms by auto
  have ip: "i \<in> owned s \<Longrightarrow> is_tile t p i" using com_inv_dom [OF t(2)] t(4) by blast
  have ps: "objs t q = Some (x, ProviderObj cs) \<longleftrightarrow> objs s q = Some (x, ProviderObj cs)" for q x cs
    using t(3,4) assms(3) CredentialObj by (cases "q = i") (auto simp: is_tile_def)
  have o: "owned t = owned s" unfolding owned_def using ps by simp
  have "tiles_ok t"
    unfolding tiles_ok_def
  proof (intro allI impI)
    fix q x cs
    assume "objs t q = Some (x, ProviderObj cs)"
    then have q: "objs s q = Some (x, ProviderObj cs)" using ps by blast
    then have s: "distinct cs" "\<forall>c\<in>set cs. is_tile s q c" using assms(2) by (auto simp: tiles_ok_def)
    moreover have "is_tile t q c" if "c \<in> set cs" for c
    proof (cases "c = i")
      case True
      then have "i \<in> owned s" "q = p" using that q s(2) assms(3) CredentialObj by (auto simp: owned_def is_tile_def)
      then show ?thesis using ip True by simp
    next
      case False
      then show ?thesis using s(2) that t(3) by (simp add: is_tile_def)
    qed
    ultimately show "distinct cs \<and> (\<forall>c\<in>set cs. is_tile t q c)" by blast
  qed
  then show ?thesis using t(1,2) o assms(3) CredentialObj by (simp add: Release_def com_ok_def)
qed

lemma fresh_object:
  assumes "com_ok s"
  shows "objs s (next_obj s) = None \<and> held s (next_obj s) = 0 \<and> next_obj s \<notin> owned s \<and>
    com_inv {next_obj s} (owned s) (new_object k s)"
proof -
  let ?i = "next_obj s"
  note inv = com_ok_inv [OF assms]
  have n: "?i \<notin> dom (objs s)" using inv by (auto simp: com_inv_def)
  then have h: "held s ?i = 0" "?i \<notin> owned s" using com_inv_dom [OF inv, of ?i] by auto
  have "com_inv {?i} (owned s) (new_object k s)"
  proof -
    have "finite (dom (objs s))" using inv by (simp add: com_inv_def)
    then have c: "card (insert ?i (dom (objs s))) = Suc (card (dom (objs s)))" using n by simp
    show ?thesis using inv c unfolding com_inv_def new_object_def DllAddRef_def by (auto simp: less_Suc_eq)
  qed
  then show ?thesis using n h by auto
qed

lemma new_provider_owned:
  assumes "com_ok s"
  shows "owned (new_object (ProviderObj []) s) = owned s \<and> tiles_ok (new_object (ProviderObj []) s)"
proof -
  have n: "objs s (next_obj s) = None" using fresh_object [OF assms] by blast
  let ?s = "new_object (ProviderObj []) s"
  have p: "objs ?s q = Some (r, ProviderObj cs) \<and> c \<in> set cs \<longleftrightarrow> objs s q = Some (r, ProviderObj cs) \<and> c \<in> set cs" for q r cs c
    using n by (cases "q = next_obj s") (auto simp: new_object_def)
  have t: "is_tile ?s q c" if "is_tile s q c" for q c
    using that n by (auto simp: is_tile_def new_object_def)
  have "owned ?s = owned s" unfolding owned_def using p by simp
  moreover have "tiles_ok ?s"
    unfolding tiles_ok_def
  proof (intro allI impI)
    fix q r cs
    assume q: "objs ?s q = Some (r, ProviderObj cs)"
    show "distinct cs \<and> (\<forall>c\<in>set cs. is_tile ?s q c)"
    proof (cases "cs = []")
      case False
      then obtain c where "c \<in> set cs" by (cases cs) auto
      then have "objs s q = Some (r, ProviderObj cs)" using p q by blast
      then show ?thesis using com_ok_tiles [OF assms] t unfolding tiles_ok_def by blast
    qed simp
  qed
  ultimately show ?thesis ..
qed

lemma CreateInstance_ok:
  assumes "com_ok s"
  shows "\<exists>t. CSample_CreateInstance found s = Some t \<and> com_ok t"
proof -
  let ?i = "next_obj s" and ?s = "new_object (ProviderObj []) s"
  note f = fresh_object [OF assms, of "ProviderObj []"] and o = new_provider_owned [OF assms]
  have i: "objs ?s ?i = Some (1, ProviderObj [])" "held ?s = held s" by (simp_all add: new_object_def)
  show ?thesis
  proof (cases found)
    case False
    have "\<exists>t. Provider_Release ?i ?s = Some t \<and> com_ok t"
      by (rule Provider_Release_ok [OF _ _ i(1)]) (use f o i in auto)
    then show ?thesis using False by (simp add: CSample_CreateInstance_def Let_def)
  next
    case True
    let ?h = "?s\<lparr>held := (held ?s)(?i := held ?s ?i + 1)\<rparr>"
    let ?t = "?h\<lparr>objs := (objs ?h)(?i \<mapsto> (2, ProviderObj []))\<rparr>"
    have "com_inv {?i} (owned s) ?h" using f i by (intro com_inv_held) auto
    then have "com_inv {?i} (owned s) ?t" using com_inv_update(1) [of ?i "{}" "owned s" ?h 2 "ProviderObj []"] i by auto
    moreover have "owned ?t = owned ?s" "tiles_ok ?t" using owned_refs [OF i(1), of ?t 2] o by simp_all
    ultimately have "\<exists>t. Provider_Release ?i ?t = Some t \<and> com_ok t"
      by (intro Provider_Release_ok) (use o f i in auto)
    moreover have "CSample_CreateInstance found s = Provider_Release ?i
        (?s\<lparr>objs := (objs ?s)(?i \<mapsto> (2, ProviderObj [])), held := (held ?s)(?i := held ?s ?i + 1)\<rparr>)"
      using True i by (simp add: CSample_CreateInstance_def Let_def AddRef_def)
    moreover have "?s\<lparr>objs := (objs ?s)(?i \<mapsto> (2, ProviderObj [])), held := (held ?s)(?i := held ?s ?i + 1)\<rparr> = ?t" by simp
    ultimately show ?thesis by metis
  qed
qed

lemma add_tile_ok:
  assumes "com_ok s" "objs s p = Some (r, ProviderObj cs)"
  shows "\<exists>t cs'. add_tile p ok s = Some t \<and> com_ok t \<and> objs t p = Some (r, ProviderObj cs') \<and> held t = held s"
proof -
  let ?i = "next_obj s" and ?s = "new_object (CredentialObj p) s"
  note f = fresh_object [OF assms(1), of "CredentialObj p"]
  have ip: "?i \<noteq> p" using f assms(2) by auto
  have i: "objs ?s ?i = Some (1, CredentialObj p)" "objs ?s p = Some (r, ProviderObj cs)" "held ?s = held s"
    "\<And>j. j \<noteq> ?i \<Longrightarrow> objs ?s j = objs s j"
    using ip assms(2) by (simp_all add: new_object_def)
  have tile: "is_tile ?s q c" if "is_tile s q c" for q c
  proof -
    have "c \<noteq> ?i" using that f by (auto simp: is_tile_def)
    then show ?thesis using that i(4) [of c] by (simp add: is_tile_def)
  qed
  have ps: "objs ?s q = Some (x, ProviderObj ds) \<longleftrightarrow> objs s q = Some (x, ProviderObj ds)" for q x ds
    using i f by (cases "q = ?i") auto
  have ot: "owned ?s = owned s" "tiles_ok ?s"
  proof -
    show "owned ?s = owned s" unfolding owned_def using ps by simp
    show "tiles_ok ?s" using com_ok_tiles [OF assms(1)] tile unfolding tiles_ok_def ps by blast
  qed
  show ?thesis
  proof (cases ok)
    case False
    have "com_inv {?i} (owned ?s) ?s" using f ot by simp
    then obtain t where t: "Credential_Release ?i ?s = Some t" "com_inv {} (owned s) t" "same_frame ?s t"
      "\<forall>j. j \<noteq> ?i \<longrightarrow> objs t j = objs ?s j" "objs t ?i = None \<or> is_tile t p ?i"
      using Credential_Release_inv [of ?i "{}" "owned s" ?s 1 p] f i ot by auto
    have pt: "objs t q = Some (x, ProviderObj ds) \<longleftrightarrow> objs s q = Some (x, ProviderObj ds)" for q x ds
      using t(4,5) ps f by (cases "q = ?i") (auto simp: is_tile_def)
    have ow: "owned t = owned s" unfolding owned_def using pt by simp
    have tt: "is_tile t q c" if "is_tile s q c" for q c
    proof -
      have "c \<noteq> ?i" using that f by (auto simp: is_tile_def)
      then show ?thesis using that t(4) i(4) [of c] by (simp add: is_tile_def)
    qed
    have "tiles_ok t" using com_ok_tiles [OF assms(1)] tt unfolding tiles_ok_def pt by blast
    then have "com_ok t" using t(2) ow by (simp add: com_ok_def)
    moreover have "objs t p = Some (r, ProviderObj cs)" using pt assms(2) by simp
    ultimately show ?thesis using False t(1,3) i(3) by (auto simp: add_tile_def Let_def same_frame_def)
  next
    case True
    let ?t = "?s\<lparr>objs := (objs ?s)(p \<mapsto> (r, ProviderObj (cs @ [?i])))\<rparr>"
    have no: "p \<notin> owned s" using provider_not_owned [OF com_ok_tiles [OF assms(1)] assms(2)] .
    have rp: "r = int (held s p)" "0 < r" using com_inv_refs [OF com_ok_inv [OF assms(1)] assms(2)] no by auto
    have "com_inv {?i} (insert ?i (owned s)) ?s"
      using f i by (intro com_inv_own) auto
    then have "com_inv (insert p {?i}) (insert ?i (owned s)) ?s" by (rule com_inv_exempt(1))
    then have "com_inv {?i} (insert ?i (owned s)) ?t" using i rp no ip by - (rule com_inv_update(2), auto)
    then have "com_inv (insert ?i {}) (insert ?i (owned s)) ?t" by simp
    then have "com_inv {} (insert ?i (owned s)) (?t\<lparr>objs := (objs ?t)(?i \<mapsto> (1, CredentialObj p))\<rparr>)"
      using i f ip by - (rule com_inv_update(2), auto)
    moreover have "?t\<lparr>objs := (objs ?t)(?i \<mapsto> (1, CredentialObj p))\<rparr> = ?t"
      using i(1) ip by (simp add: fun_upd_idem)
    ultimately have inv: "com_inv {} (insert ?i (owned s)) ?t" by simp
    have o: "owned ?t = insert ?i (owned s)"
    proof (intro equalityI subsetI)
      fix c assume "c \<in> owned ?t"
      then obtain q x ds where "objs ?t q = Some (x, ProviderObj ds)" "c \<in> set ds" by (auto simp: owned_def)
      then show "c \<in> insert ?i (owned s)" using ps assms(2) by (cases "q = p") (auto simp: owned_def)
    next
      fix c assume c: "c \<in> insert ?i (owned s)"
      show "c \<in> owned ?t"
      proof (cases "c = ?i \<or> c \<in> set cs")
        case True
        have "objs ?t p = Some (r, ProviderObj (cs @ [?i]))" by simp
        then show ?thesis using True unfolding owned_def by fastforce
      next
        case False
        then obtain q x ds where q: "objs s q = Some (x, ProviderObj ds)" "c \<in> set ds" using c by (auto simp: owned_def)
        then have "q \<noteq> p" using False assms(2) by auto
        then have "objs ?t q = Some (x, ProviderObj ds)" using q(1) ps by simp
        then show ?thesis using q(2) unfolding owned_def by blast
      qed
    qed
    have "tiles_ok ?t"
      unfolding tiles_ok_def
    proof (intro allI impI)
      fix q x ds
      assume q: "objs ?t q = Some (x, ProviderObj ds)"
      have tt: "is_tile ?t q c" if "is_tile ?s q c" for c using that i(2) by (auto simp: is_tile_def)
      show "distinct ds \<and> (\<forall>c\<in>set ds. is_tile ?t q c)"
      proof (cases "q = p")
        case True
        have "distinct cs" "\<forall>c\<in>set cs. is_tile ?s p c" using ot(2) i(2) unfolding tiles_ok_def by blast+
        moreover have "?i \<notin> set cs" using owned_list [OF assms(2)] f by blast
        moreover have "is_tile ?s p ?i" using i(1) by (auto simp: is_tile_def)
        moreover have "ds = cs @ [?i]" using q True by simp
        ultimately show ?thesis using tt True by auto
      next
        case False
        then have "objs ?s q = Some (x, ProviderObj ds)" using q by simp
        then show ?thesis using ot(2) tt unfolding tiles_ok_def by blast
      qed
    qed
    then have "com_ok ?t" using inv o by (simp add: com_ok_def)
    then show ?thesis using True i by (simp add: add_tile_def Let_def)
  qed
qed

lemma add_tiles_ok:
  "com_ok s \<Longrightarrow> objs s p = Some (r, ProviderObj cs) \<Longrightarrow> \<exists>t. add_tiles p oks s = Some t \<and> com_ok t"
proof (induction oks arbitrary: s cs)
  case (Cons ok oks)
  then obtain t cs' where "add_tile p ok s = Some t" "com_ok t" "objs t p = Some (r, ProviderObj cs')"
    using add_tile_ok by blast
  then show ?case using Cons.IH by simp
qed simp

lemma recreate_tiles_ok:
  assumes "com_ok s" "objs s p = Some (r, ProviderObj cs)"
  shows "\<exists>t. recreate_tiles p oks s = Some t \<and> com_ok t"
proof -
  note inv = com_ok_inv [OF assms(1)] and tl = com_ok_tiles [OF assms(1)]
  have no: "p \<notin> owned s" using provider_not_owned [OF tl assms(2)] .
  have cs: "distinct cs" "set cs \<subseteq> owned s" "\<forall>c\<in>set cs. is_tile s p c"
    using owned_list [OF assms(2)] tl assms(2) unfolding tiles_ok_def by blast+
  obtain t where t: "release_all cs s = Some t" "com_inv {} (owned s - set cs) t" "same_frame s t"
    "\<forall>j. j \<notin> set cs \<longrightarrow> objs t j = objs s j" "\<forall>c\<in>set cs. objs t c = None \<or> is_tile t p c"
    using release_all_inv [OF inv cs(1,2) _ cs(3)] by auto
  have pt: "objs t p = Some (r, ProviderObj cs)" using t(4) cs(2) no assms(2) by auto
  let ?t = "t\<lparr>objs := (objs t)(p \<mapsto> (r, ProviderObj []))\<rparr>"
  have "r = int (held t p)" "0 < r" using com_inv_refs [OF t(2) pt] no by auto
  then have "com_inv {} (owned s - set cs) ?t" using pt no by (intro com_inv_update(2) [OF com_inv_exempt(1) [OF t(2)]]) auto
  moreover have "owned ?t = owned s - set cs \<and> tiles_ok ?t"
    by (rule owned_drop [OF tl assms(2)]) (use t(4,5) pt cs(2) no in \<open>auto simp: is_tile_def\<close>)
  ultimately have ok: "com_ok ?t" by (simp add: com_ok_def)
  have "\<exists>u. add_tiles p oks ?t = Some u \<and> com_ok u" by (rule add_tiles_ok [OF ok]) simp
  then show ?thesis using t(1) assms(2) by (simp add: recreate_tiles_def ReleaseEnumeratedCredentials_def)
qed

lemma tile_at_ok:
  assumes "com_ok s" "objs s p = Some (r, ProviderObj cs)"
  shows "\<exists>t. tile_at p idx s = Some t \<and> com_ok t"
proof (cases "idx < length cs")
  case True
  then have "cs ! idx \<in> owned s" using owned_list [OF assms(2)] nth_mem by blast
  then have "cs ! idx \<in> dom (objs s)" using com_inv_dom [OF com_ok_inv [OF assms(1)]] by blast
  then obtain t where "AddRef (cs ! idx) s = Some t" "com_ok (t\<lparr>held := (held t)(cs ! idx := held t (cs ! idx) + 1)\<rparr>)"
    using AddRef_held [OF assms(1)] by blast
  moreover from this(1) have "held t = held s" by (auto simp: AddRef_def split: option.splits)
  ultimately show ?thesis using True assms(2) by (simp add: tile_at_def)
qed (use assms in \<open>simp add: tile_at_def\<close>)

lemma com_step_ok:
  assumes "com_ok s" "may c s"
  shows "\<exists>t. com_step c s = Some t \<and> com_ok t"
proof (cases c)
  case (Create found)
  then show ?thesis using CreateInstance_ok [OF assms(1)] by simp
next
  case (Duplicate i)
  then have "i \<in> dom (objs s)" using assms com_inv_dom [OF com_ok_inv [OF assms(1)]] by simp
  then obtain t where t: "AddRef i s = Some t" "com_ok (t\<lparr>held := (held t)(i := held t i + 1)\<rparr>)"
    using AddRef_held [OF assms(1)] by blast
  then show ?thesis using Duplicate by simp
next
  case (GiveBack i)
  let ?s = "s\<lparr>held := (held s)(i := held s i - 1)\<rparr>"
  have h: "0 < held s i" using assms(2) GiveBack by simp
  then obtain r k where r: "objs s i = Some (r, k)" using com_inv_dom [OF com_ok_inv [OF assms(1)], of i] by auto
  have o: "owned ?s = owned s" "tiles_ok ?s" using com_ok_tiles [OF assms(1)] by (simp_all add: owned_def tiles_ok_def is_tile_def)
  have "com_inv {i} (owned s) ?s"
    by (rule com_inv_held [OF com_inv_exempt(1) [OF com_ok_inv [OF assms(1)]]]) (use r in auto)
  moreover have "r = int (held ?s i) + (if i \<in> owned s then 1 else 0) + 1"
    using com_inv_refs [OF com_ok_inv [OF assms(1)] r] h by auto
  ultimately have "\<exists>t. Release i ?s = Some t \<and> com_ok t"
    using o r by (intro Release_ok) auto
  then show ?thesis using GiveBack by simp
next
  case (Enumerate p oks)
  then show ?thesis using recreate_tiles_ok [OF assms(1)] assms(2) by auto
next
  case (Fetch p idx)
  then show ?thesis using tile_at_ok [OF assms(1)] assms(2) by auto
next
  case (Locking b)
  have "com_inv {} (owned s) (s\<lparr>g_cRef := LockServer b (g_cRef s), locks := (if b then locks s + 1 else locks s - 1)\<rparr>)"
    using com_ok_inv [OF assms(1)] assms(2) Locking
    by (auto simp: com_inv_def LockServer_def DllAddRef_def DllRelease_def)
  then show ?thesis using Locking com_ok_tiles [OF assms(1)]
    by (simp add: com_ok_def owned_def tiles_ok_def is_tile_def)
qed

lemma com_init_ok: "com_ok com_init"
  by (simp add: com_ok_def com_inv_def tiles_ok_def owned_def com_init_def)

lemma com_reach_ok: "com_reach x \<Longrightarrow> \<exists>s. x = Some s \<and> com_ok s"
  by (induction rule: com_reach.induct) (use com_init_ok com_step_ok in auto)

section \<open>Lifetimes\<close>


text \<open>
  LogonUI fetches a tile and gives back its provider first: the provider is destroyed, the tile
  is not, and its listener still has the pointer \<^verbatim>\<open>m_CredentialProvider\<close> to it.
\<close>

fun com_run :: "com_call list \<Rightarrow> com_state option \<Rightarrow> com_state option" where
  "com_run [] x = x"
| "com_run (c # cs) x = com_run cs (case x of None \<Rightarrow> None | Some s \<Rightarrow> if may c s then com_step c s else None)"

lemma com_run_None: "com_run cs None = None"
  by (induction cs) simp_all

lemma com_run_reach: "com_run cs (Some s) = Some t \<Longrightarrow> com_reach (Some s) \<Longrightarrow> com_reach (Some t)"
proof (induction cs arbitrary: s)
  case (Cons c cs)
  then obtain u where u: "may c s" "com_step c s = Some u" "com_run cs (Some u) = Some t"
    by (cases "may c s"; cases "com_step c s") (auto simp: com_run_None)
  then have "com_reach (Some u)" using com_next [OF Cons.prems(2) u(1)] by simp
  then show ?case using Cons.IH u(3) by blast
qed simp


end
